(* ===== verification/Prelude.thy ===== *)
theory Prelude
  imports "HOL-Library.Word" "HOL-Library.Monad_Syntax"
begin

text \<open>
  Shared ground of the limeOS development: the C integer types of
  \<^verbatim>\<open>student-distrib/types.h\<close> as machine words, C arrays and pointers whose
  out-of-range accesses are the value \<open>None\<close>, physical memory as a map from addresses to
  bytes, and the lemmas on words, lists and options that the components use.
\<close>

unbundle bit_operations_syntax

section \<open>The integer types of types.h\<close>

type_synonym u8 = "8 word"
type_synonym u16 = "16 word"
type_synonym u32 = "32 word"

text \<open>
  Collections of the development: \<open>frame_simps\<close> holds the equations that say which
  fields an operation leaves alone, \<open>inv_intros\<close> the preservation lemmas of the
  invariants, \<open>c_simps\<close> the unfoldings of the C-level helpers.
\<close>

named_theorems frame_simps
named_theorems inv_intros
named_theorems c_simps

section \<open>C arrays and pointers\<close>

text \<open>
  A C array is a list; an access outside it is undefined behaviour in C and \<open>None\<close>
  here. A pointer that is only read is a function from the index to the byte found there.
\<close>

definition aget :: "'a list \<Rightarrow> nat \<Rightarrow> 'a option" where
  "aget xs i = (if i < length xs then Some (xs ! i) else None)"

definition aset :: "'a list \<Rightarrow> nat \<Rightarrow> 'a \<Rightarrow> 'a list option" where
  "aset xs i v = (if i < length xs then Some (xs[i := v]) else None)"

type_synonym rptr = "u32 \<Rightarrow> u8 option"

definition arr_ptr :: "u8 list \<Rightarrow> rptr" where
  "arr_ptr xs i = aget xs (unat i)"

type_synonym mem = "u32 \<Rightarrow> u8"

definition mem_ptr :: "mem \<Rightarrow> u32 \<Rightarrow> rptr" where
  "mem_ptr m p i = Some (m (p + i))"

text \<open>Writing a run of bytes to the front of an array.\<close>

definition astore :: "'a list \<Rightarrow> 'a list \<Rightarrow> 'a list option" where
  "astore xs bs = (if length bs \<le> length xs then Some (bs @ drop (length bs) xs) else None)"

text \<open>A string literal of the source as the bytes the compiler lays out, without the NUL.\<close>

definition cbytes :: "string \<Rightarrow> u8 list" where
  "cbytes s = map (\<lambda>c. of_nat (of_char c)) s"

lemma aget_Some [simp]: "i < length xs \<Longrightarrow> aget xs i = Some (xs ! i)"
  by (simp add: aget_def)

lemma aset_Some [simp]: "i < length xs \<Longrightarrow> aset xs i v = Some (xs[i := v])"
  by (simp add: aset_def)

lemma aget_None [simp]: "length xs \<le> i \<Longrightarrow> aget xs i = None"
  by (simp add: aget_def)

lemma aset_None [simp]: "length xs \<le> i \<Longrightarrow> aset xs i v = None"
  by (simp add: aset_def)

lemma aset_length: "aset xs i v = Some ys \<Longrightarrow> length ys = length xs"
  by (auto simp: aset_def split: if_splits)

lemma list_update_at_length [simp]: "(xs @ y # ys)[length xs := z] = xs @ z # ys"
  by (induction xs) auto

section \<open>Words\<close>

lemma unat_of_nat_u32: "n < 4294967296 \<Longrightarrow> unat (of_nat n :: u32) = n"
  by (simp add: unat_of_nat)

lemma uint_of_nat_u32: "n < 4294967296 \<Longrightarrow> uint (of_nat n :: u32) = int n"
  by (metis unat_of_nat_u32 uint_nat)

lemma unat_Suc_u32: "(x :: u32) < y \<Longrightarrow> unat (x + 1) = Suc (unat x)"
  by unat_arith

lemma unat_less_u32: "unat (x :: u32) < 4294967296"
  by unat_arith simp

lemma unat_inj_u32: "unat (a :: u32) = unat b \<longleftrightarrow> a = b"
  by (metis unsigned_word_eqI)

lemma of_nat_inj_u32:
  "a < 4294967296 \<Longrightarrow> b < 4294967296 \<Longrightarrow> (of_nat a :: u32) = of_nat b \<longleftrightarrow> a = b"
  by (metis unat_of_nat_u32)

lemma of_nat_Suc_u32: "(of_nat (Suc n) :: u32) = of_nat n + 1"
  by simp

lemma word_of_int_inj_u32:
  assumes "0 \<le> a" "a < 4294967296" "0 \<le> b" "b < 4294967296"
  shows "(word_of_int a :: u32) = word_of_int b \<longleftrightarrow> a = b"
proof
  assume "(word_of_int a :: u32) = word_of_int b"
  then have "uint (word_of_int a :: u32) = uint (word_of_int b :: u32)" by simp
  with assms show "a = b" by (simp add: uint_word_of_int)
qed simp

lemma sint_small_u32:
  assumes "unat (x :: u32) < 2147483648"
  shows "sint x = int (unat x)"
proof -
  have eq: "uint x = int (unat x)" by simp
  with assms have "uint x < 2147483648" by linarith
  then have "signed_take_bit 31 (uint x) = uint x"
    by (intro signed_take_bit_int_eq_self) (auto intro: order_trans [of _ 0])
  then show ?thesis by (simp add: sint_uint)
qed

end
