(* ===== verification/Cstring.thy ===== *)
theory Cstring
  imports Prelude
begin

text \<open>
  The string routines of \<^verbatim>\<open>student-distrib/lib.c\<close>: \<^verbatim>\<open>strlen\<close>, \<^verbatim>\<open>strncmp\<close>, \<^verbatim>\<open>strcpy\<close>,
  \<^verbatim>\<open>strncpy\<close>, \<^verbatim>\<open>strrev\<close> and \<^verbatim>\<open>itoa\<close>. Source operands are pointers (\<^typ>\<open>rptr\<close>); the bytes a
  routine writes through its destination pointer, in order, are its result. \<open>None\<close> is an
  access outside an array, or a loop that never returns.
\<close>

section \<open>Operations\<close>

partial_function (option) strlen_loop :: "rptr \<Rightarrow> u32 \<Rightarrow> u32 option" where
  "strlen_loop s len = do { c \<leftarrow> s len; if c \<noteq> 0 then strlen_loop s (len + 1) else Some len }"

definition strlen :: "rptr \<Rightarrow> u32 option" where
  "strlen s = strlen_loop s 0"

function strncmp_loop :: "rptr \<Rightarrow> rptr \<Rightarrow> u32 \<Rightarrow> u32 \<Rightarrow> int option" where
  "strncmp_loop s1 s2 n i =
     (if i < n
      then do { a \<leftarrow> s1 i; b \<leftarrow> s2 i;
                if a \<noteq> b \<or> a = 0 then Some (sint a - sint b)
                else strncmp_loop s1 s2 n (i + 1) }
      else Some 0)"
  by pat_completeness auto
termination
  by (relation "measure (\<lambda>(s1, s2, n, i). unat n - unat i)")
     (auto simp: unat_Suc_u32 word_less_nat_alt)

declare strncmp_loop.simps [simp del]

definition strncmp :: "rptr \<Rightarrow> rptr \<Rightarrow> u32 \<Rightarrow> int option" where
  "strncmp s1 s2 n = strncmp_loop s1 s2 n 0"

partial_function (option) strcpy_loop :: "rptr \<Rightarrow> u32 \<Rightarrow> u8 list option" where
  "strcpy_loop src i =
     do { c \<leftarrow> src i;
          if c \<noteq> 0 then do { rest \<leftarrow> strcpy_loop src (i + 1); Some (c # rest) } else Some [0] }"

definition strcpy :: "rptr \<Rightarrow> u8 list option" where
  "strcpy src = strcpy_loop src 0"

function strncpy_loop :: "rptr \<Rightarrow> u32 \<Rightarrow> u32 \<Rightarrow> u8 list option" where
  "strncpy_loop src n i =
     do { c \<leftarrow> src i;
          if c \<noteq> 0 \<and> i < n then do { rest \<leftarrow> strncpy_loop src n (i + 1); Some (c # rest) }
          else Some (replicate (unat n - unat i) 0) }"
  by pat_completeness auto
termination
  by (relation "measure (\<lambda>(src, n, i). unat n - unat i)")
     (auto simp: unat_Suc_u32 word_less_nat_alt)

declare strncpy_loop.simps [simp del]

definition strncpy :: "rptr \<Rightarrow> u32 \<Rightarrow> u8 list option" where
  "strncpy src n = strncpy_loop src n 0"

function strrev_loop :: "u8 list \<Rightarrow> int \<Rightarrow> int \<Rightarrow> u8 list" where
  "strrev_loop s beg end =
     (if beg < end
      then strrev_loop (s[nat end := s ! nat beg, nat beg := s ! nat end]) (beg + 1) (end - 1)
      else s)"
  by pat_completeness auto
termination
  by (relation "measure (\<lambda>(s, beg, end). nat (end - beg))") auto

declare strrev_loop.simps [simp del]

definition strrev :: "u8 list \<Rightarrow> u8 list option" where
  "strrev s = map_option (\<lambda>len. strrev_loop s 0 (int (unat len) - 1)) (strlen (arr_ptr s))"

text \<open>The static digit table of \<^verbatim>\<open>itoa\<close>, with the NUL that ends the string literal.\<close>

definition lookup :: "u8 list" where
  "lookup = cbytes ''0123456789ABCDEFGHIJKLMNOPQRSTUVWXYZ'' @ [0]"

function itoa_loop :: "u8 list \<Rightarrow> nat \<Rightarrow> u32 \<Rightarrow> u32 \<Rightarrow> u8 list option" where
  "itoa_loop buf newbuf newval radix =
     (if 0 < newval
      then if radix = 0 then None
           else do { d \<leftarrow> aget lookup (unat (newval mod radix));
                     buf' \<leftarrow> aset buf newbuf d;
                     itoa_loop buf' (Suc newbuf) (newval div radix) radix }
      else aset buf newbuf 0)"
  by pat_completeness auto
termination
  by (relation "measure (\<lambda>(buf, newbuf, newval, radix). length buf - newbuf)")
     (auto simp: aset_def split: if_splits)

declare itoa_loop.simps [simp del]

definition itoa :: "u32 \<Rightarrow> u8 list \<Rightarrow> u32 \<Rightarrow> u8 list option" where
  "itoa value buf radix =
     (if value = 0
      then do { b \<leftarrow> aset buf 0 (of_nat (of_char (CHR ''0''))); aset b 1 0 }
      else do { b \<leftarrow> itoa_loop buf 0 value radix; strrev b })"

section \<open>C strings\<close>

lemma signed_inj_u8: "sint (a :: u8) = sint b \<longleftrightarrow> a = b"
  by (metis signed_word_eqI)

text \<open>
  \<open>cstr s xs\<close>: the pointer \<open>s\<close> points at the NUL-terminated string \<open>xs\<close>.
\<close>

definition cstr :: "rptr \<Rightarrow> u8 list \<Rightarrow> bool" where
  "cstr s xs \<longleftrightarrow> length xs < 4294967296 \<and> 0 \<notin> set xs \<and>
     (\<forall>k < Suc (length xs). s (of_nat k) = Some ((xs @ [0]) ! k))"

lemma cstr_char: "cstr s xs \<Longrightarrow> k < length xs \<Longrightarrow> s (of_nat k) = Some (xs ! k) \<and> xs ! k \<noteq> 0"
  by (auto simp: cstr_def nth_append in_set_conv_nth)

lemma cstr_nul: "cstr s xs \<Longrightarrow> s (of_nat (length xs)) = Some 0"
  by (auto simp: cstr_def)

lemma cstr_length: "cstr s xs \<Longrightarrow> length xs < 4294967296"
  by (simp add: cstr_def)

lemma cstr_arr_ptr:
  "0 \<notin> set xs \<Longrightarrow> length xs < 4294967296 \<Longrightarrow> cstr (arr_ptr (xs @ 0 # ys)) xs"
  by (auto simp: cstr_def arr_ptr_def unat_of_nat_u32 nth_append less_Suc_eq)

lemma strlen_loop_cstr:
  "cstr s xs \<Longrightarrow> k \<le> length xs \<Longrightarrow> strlen_loop s (of_nat k) = Some (of_nat (length xs))"
proof (induction "length xs - k" arbitrary: k)
  case 0
  then have "k = length xs" by simp
  then show ?case using cstr_nul [OF 0(2)] by (subst strlen_loop.simps) simp
next
  case (Suc d)
  then have k: "k < length xs" by simp
  from Suc have "strlen_loop s (of_nat (Suc k)) = Some (of_nat (length xs))"
    by (intro Suc.hyps(1)) simp_all
  then show ?case
    using cstr_char [OF Suc.prems(1) k]
    by (subst strlen_loop.simps) (simp add: add.commute)
qed

lemma strlen_cstr: "cstr s xs \<Longrightarrow> strlen s = Some (of_nat (length xs))"
  using strlen_loop_cstr [of s xs 0] by (simp add: strlen_def)

lemma strcpy_loop_cstr:
  "cstr s xs \<Longrightarrow> k \<le> length xs \<Longrightarrow> strcpy_loop s (of_nat k) = Some (drop k xs @ [0])"
proof (induction "length xs - k" arbitrary: k)
  case 0
  then have "k = length xs" by simp
  then show ?case using cstr_nul [OF 0(2)] by (subst strcpy_loop.simps) simp
next
  case (Suc d)
  then have k: "k < length xs" by simp
  from Suc have "strcpy_loop s (of_nat (Suc k)) = Some (drop (Suc k) xs @ [0])"
    by (intro Suc.hyps(1)) simp_all
  then show ?case
    using cstr_char [OF Suc.prems(1) k] k
    by (subst strcpy_loop.simps) (simp add: add.commute Cons_nth_drop_Suc [symmetric])
qed

lemma strcpy_cstr: "cstr s xs \<Longrightarrow> strcpy s = Some (xs @ [0])"
  using strcpy_loop_cstr [of s xs 0] by (simp add: strcpy_def)

lemma strncpy_loop_cstr:
  assumes "cstr s xs" "k \<le> length xs" "k \<le> unat n"
  shows "strncpy_loop s n (of_nat k) =
    Some (take (unat n - k) (drop k xs) @ replicate (unat n - length xs) 0)"
  using assms
proof (induction "length xs - k" arbitrary: k)
  case 0
  then have "k = length xs" by simp
  then show ?case using cstr_nul [OF 0(2)] cstr_length [OF 0(2)]
    by (subst strncpy_loop.simps) (simp add: unat_of_nat_u32)
next
  case (Suc d)
  then have k: "k < length xs" by simp
  have uk: "unat (of_nat k :: u32) = k"
    using Suc.prems(1) k by (simp add: cstr_length unat_of_nat_u32 less_trans)
  show ?case
  proof (cases "k < unat n")
    case True
    with Suc k have "strncpy_loop s n (of_nat (Suc k)) =
        Some (take (unat n - Suc k) (drop (Suc k) xs) @ replicate (unat n - length xs) 0)"
      by (intro Suc.hyps(1)) simp_all
    then show ?thesis
      using cstr_char [OF Suc.prems(1) k] k True uk
      by (subst strncpy_loop.simps)
         (simp add: add.commute Cons_nth_drop_Suc [symmetric] word_less_nat_alt take_Cons')
  next
    case False
    then show ?thesis
      using cstr_char [OF Suc.prems(1) k] k uk
      by (subst strncpy_loop.simps) (simp add: word_less_nat_alt)
  qed
qed

lemma strncpy_cstr:
  "cstr s xs \<Longrightarrow> strncpy s n = Some (take (unat n) xs @ replicate (unat n - length xs) 0)"
  using strncpy_loop_cstr [of s xs 0 n] by (simp add: strncpy_def)

lemma strncmp_loop_cstr:
  assumes "cstr s xs" "cstr t ys" "k \<le> length xs" "k \<le> length ys" "k \<le> unat n"
  shows "\<exists>d. strncmp_loop s t n (of_nat k) = Some d \<and>
    (d = 0 \<longleftrightarrow> take (unat n - k) (drop k xs) = take (unat n - k) (drop k ys))"
  using assms
proof (induction "unat n - k" arbitrary: k)
  case 0
  then have "unat (of_nat k :: u32) = k" using cstr_length [of s xs] by (simp add: unat_of_nat_u32)
  with 0 show ?case by (subst strncmp_loop.simps) (simp add: word_less_nat_alt)
next
  case (Suc d)
  have "k < 4294967296" using cstr_length [OF Suc.prems(1)] Suc.prems(3) by simp
  then have lt: "of_nat k < n" using Suc.hyps(2) by (simp add: word_less_nat_alt unat_of_nat_u32)
  have s: "s (of_nat k) = Some ((xs @ [0]) ! k)" and t: "t (of_nat k) = Some ((ys @ [0]) ! k)"
    using Suc.prems(1-4) by (auto simp: cstr_def)
  let ?a = "(xs @ [0]) ! k" and ?b = "(ys @ [0]) ! k"
  have step: "take (unat n - k) (drop k xs) = take (unat n - k) (drop k ys) \<longleftrightarrow>
      ?a = ?b \<and> (?a = 0 \<or> take (unat n - Suc k) (drop (Suc k) xs) = take (unat n - Suc k) (drop (Suc k) ys))"
  proof -
    have "k < length xs \<Longrightarrow> ?a \<noteq> 0" "k < length ys \<Longrightarrow> ?b \<noteq> 0"
      using cstr_char [OF Suc.prems(1)] cstr_char [OF Suc.prems(2)] by (auto simp: nth_append)
    with Suc.prems(3,4) Suc.hyps(2) show ?thesis
      by (cases "k < length xs"; cases "k < length ys")
         (auto simp: nth_append Cons_nth_drop_Suc [symmetric] take_Cons' split: if_splits)
  qed
  show ?case
  proof (cases "?a \<noteq> ?b \<or> ?a = 0")
    case True
    have "sint ?a = sint ?b \<longleftrightarrow> ?a = ?b" by (rule signed_inj_u8)
    with True show ?thesis
      unfolding step using lt s t by (subst strncmp_loop.simps) auto
  next
    case False
    then have "k < length xs" "k < length ys"
      using Suc.prems(3,4) by (auto simp: nth_append split: if_splits)
    with Suc have "\<exists>d. strncmp_loop s t n (of_nat (Suc k)) = Some d \<and>
        (d = 0 \<longleftrightarrow> take (unat n - Suc k) (drop (Suc k) xs) = take (unat n - Suc k) (drop (Suc k) ys))"
      by (intro Suc.hyps(1)) simp_all
    with False show ?thesis
      unfolding step using lt s t by (subst strncmp_loop.simps) (auto simp: add.commute)
  qed
qed

lemma strncmp_cstr:
  assumes "cstr s xs" "cstr t ys"
  shows "\<exists>d. strncmp s t n = Some d \<and> (d = 0 \<longleftrightarrow> take (unat n) xs = take (unat n) ys)"
  using strncmp_loop_cstr [OF assms, of 0 n] by (simp add: strncmp_def)

section \<open>In-place reversal\<close>

lemma strrev_loop_spec:
  "strrev_loop (a @ mid @ b) (int (length a)) (int (length a + length mid) - 1) = a @ rev mid @ b"
proof (induction mid arbitrary: a b rule: length_induct)
  case (1 mid)
  consider "mid = []" | x where "mid = [x]" | x m y where "mid = x # m @ [y]"
    by (metis append_butlast_last_id neq_Nil_conv)
  then show ?case
  proof cases
    case 3
    have "a @ mid @ b = a @ x # m @ y # b" by (simp add: 3)
    moreover have "(a @ x # m @ y # b)[length a + length m + 1 := x, length a := y]
        = (a @ [y]) @ m @ (x # b)"
      by (simp add: list_update_append)
    moreover have "(a @ x # m @ y # b) ! (length a + length m + 1) = y"
      by (simp add: nth_append)
    ultimately have "strrev_loop (a @ mid @ b) (int (length a)) (int (length a + length mid) - 1)
        = strrev_loop ((a @ [y]) @ m @ (x # b)) (int (length (a @ [y])))
            (int (length (a @ [y]) + length m) - 1)"
      by (subst strrev_loop.simps) (simp add: 3 nat_add_distrib nth_append add_ac)
    also have "\<dots> = (a @ [y]) @ rev m @ (x # b)"
      by (rule 1 [rule_format]) (simp add: 3)
    finally show ?thesis by (simp add: 3)
  qed (subst strrev_loop.simps, simp)+
qed

lemma strrev_spec:
  assumes "0 \<notin> set xs" "length xs < 4294967296"
  shows "strrev (xs @ 0 # ys) = Some (rev xs @ 0 # ys)"
proof -
  have "strlen (arr_ptr (xs @ 0 # ys)) = Some (of_nat (length xs))"
    by (rule strlen_cstr [OF cstr_arr_ptr [OF assms]])
  with strrev_loop_spec [of "[]" xs "0 # ys"] assms show ?thesis
    by (simp add: strrev_def uint_of_nat_u32)
qed

section \<open>Number conversion\<close>

text \<open>
  The reference for \<^verbatim>\<open>itoa\<close>: the digits of \<open>n\<close> in base \<open>r\<close>, most significant first, and
  the value a digit string denotes.
\<close>

function digits :: "nat \<Rightarrow> nat \<Rightarrow> nat list" where
  "digits r n = (if n < r \<or> r < 2 then [n] else digits r (n div r) @ [n mod r])"
  by pat_completeness auto
termination
  by (relation "measure snd") (auto intro: div_less_dividend)

declare digits.simps [simp del]

definition dig :: "nat \<Rightarrow> u8" where
  "dig d = lookup ! d"

definition undig :: "u8 \<Rightarrow> nat" where
  "undig c = (if unat c < 58 then unat c - 48 else unat c - 55)"

definition number :: "nat \<Rightarrow> u8 list \<Rightarrow> nat" where
  "number r cs = foldl (\<lambda>acc c. acc * r + undig c) 0 cs"

lemma lookup_length: "length lookup = 37"
  by (simp add: lookup_def cbytes_def)

lemma digits_less: "2 \<le> r \<Longrightarrow> \<forall>d \<in> set (digits r n). d < r"
  by (induction r n rule: digits.induct) (subst digits.simps, auto)

lemma digits_length: "2 \<le> r \<Longrightarrow> 0 < k \<Longrightarrow> n < r ^ k \<Longrightarrow> length (digits r n) \<le> k"
proof (induction k arbitrary: n)
  case (Suc k)
  show ?case
  proof (cases "n < r")
    case True
    then show ?thesis by (subst digits.simps) simp
  next
    case False
    with Suc.prems have "0 < k" by (cases k) auto
    moreover have "n div r < r ^ k"
      using Suc.prems by (simp add: less_mult_imp_div_less mult.commute)
    ultimately show ?thesis using Suc False by (subst digits.simps) simp
  qed
qed simp

lemma undig_dig_table: "map (\<lambda>d. undig (dig d)) [0..<36] = [0..<36]"
  by code_simp

lemma dig_table_nonzero: "list_all (\<lambda>d. dig d \<noteq> 0) [0..<36]"
  by code_simp

lemma undig_dig: "d < 36 \<Longrightarrow> undig (dig d) = d"
  using undig_dig_table [THEN arg_cong [where f = "\<lambda>xs. xs ! d"]] by simp

lemma dig_nonzero: "d < 36 \<Longrightarrow> dig d \<noteq> 0"
  using dig_table_nonzero by (simp add: list_all_iff)

lemma number_snoc: "number r (cs @ [c]) = number r cs * r + undig c"
  by (simp add: number_def)

lemma number_digits: "2 \<le> r \<Longrightarrow> r \<le> 36 \<Longrightarrow> number r (map dig (digits r n)) = n"
proof (induction r n rule: digits.induct)
  case (1 r n)
  show ?case
  proof (cases "n < r")
    case True
    with 1 show ?thesis by (subst digits.simps) (simp add: number_def undig_dig)
  next
    case False
    with 1 have "number r (map dig (digits r (n div r))) = n div r" by simp
    moreover have "n mod r < r" using "1.prems" by simp
    with "1.prems" have "undig (dig (n mod r)) = n mod r" by (intro undig_dig) linarith
    ultimately show ?thesis
      using False "1.prems" by (subst digits.simps) (simp add: number_snoc)
  qed
qed

text \<open>The loop of \<^verbatim>\<open>itoa\<close> writes the digits least significant first, then the NUL.\<close>

lemma itoa_loop_spec:
  assumes "2 \<le> unat r" "unat r \<le> 36" "0 < unat n" "length (digits (unat r) (unat n)) < length rest"
  shows "itoa_loop (pre @ rest) (length pre) n r =
    Some (pre @ map dig (rev (digits (unat r) (unat n))) @
          0 # drop (Suc (length (digits (unat r) (unat n)))) rest)"
  using assms
proof (induction "unat n" arbitrary: n pre rest rule: less_induct)
  case less
  let ?d = "dig (unat n mod unat r)"
  obtain y ys where rest: "rest = y # ys" using less.prems(4) by (cases rest) auto
  have r: "r \<noteq> 0" and pos: "0 < n" using less.prems by (auto simp: word_greater_zero_iff)
  have "unat n mod unat r < unat r" using less.prems by simp
  with less.prems(2) have "unat n mod unat r < length lookup" by (simp add: lookup_length)
  then have "aget lookup (unat (n mod r)) = Some ?d"
    by (simp add: unat_mod dig_def)
  then have step: "itoa_loop (pre @ rest) (length pre) n r =
      itoa_loop ((pre @ [?d]) @ ys) (length (pre @ [?d])) (n div r) r"
    using r pos by (subst itoa_loop.simps) (simp add: rest)
  show ?case
  proof (cases "unat n < unat r")
    case True
    then have dn: "digits (unat r) (unat n) = [unat n]" by (subst digits.simps) simp
    obtain z zs where ys: "ys = z # zs" using less.prems(4) rest dn by (cases ys) auto
    have "unat (n div r) = 0" using True by (simp add: unat_div)
    then have "n div r = 0" by (simp only: unat_eq_zero)
    then show ?thesis unfolding step using True dn
      by (subst itoa_loop.simps) (simp add: rest ys list_update_append)
  next
    case False
    then have dn: "digits (unat r) (unat n) = digits (unat r) (unat (n div r)) @ [unat n mod unat r]"
      using less.prems by (subst digits.simps) (simp add: unat_div)
    have q: "unat (n div r) < unat n" "0 < unat (n div r)"
      using less.prems False by (auto simp: unat_div div_greater_zero_iff)
    have "length (digits (unat r) (unat (n div r))) < length ys"
      using less.prems(4) rest dn by simp
    from less.hyps [OF q(1) less.prems(1,2) q(2) this, of "pre @ [?d]"] show ?thesis
      unfolding step by (simp add: dn rest)
  qed
qed

lemma itoa_spec:
  assumes "2 \<le> unat r" "unat r \<le> 36" "length (digits (unat r) (unat v)) < length buf"
  shows "itoa v buf r = Some (map dig (digits (unat r) (unat v)) @
           0 # drop (Suc (length (digits (unat r) (unat v)))) buf)"
proof (cases "v = 0")
  case True
  then have "digits (unat r) (unat v) = [0]" using assms by (subst digits.simps) simp
  moreover from this assms obtain x y ys where "buf = x # y # ys"
    by (cases buf; cases "tl buf") auto
  moreover have "dig 0 = of_nat (of_char (CHR ''0''))"
    by (simp add: dig_def lookup_def cbytes_def)
  ultimately show ?thesis using True by (simp add: itoa_def)
next
  case False
  let ?ds = "digits (unat r) (unat v)"
  have pos: "0 < unat v" using False by (simp add: unat_gt_0)
  have nz: "0 \<notin> set (map dig (rev ?ds))"
    using digits_less [of "unat r" "unat v"] assms dig_nonzero by fastforce
  have "unat v < unat r ^ 32"
    using power_mono [of 2 "unat r" 32] assms(1) unat_less_u32 [of v] by simp
  then have len: "length ?ds < 4294967296"
    using digits_length [of "unat r" 32 "unat v"] assms(1) by simp
  have "itoa_loop buf 0 v r = Some (map dig (rev ?ds) @ 0 # drop (Suc (length ?ds)) buf)"
    using itoa_loop_spec [OF assms(1,2) pos assms(3), of "[]"] by simp
  with strrev_spec [OF nz, of "drop (Suc (length ?ds)) buf"] len False show ?thesis
    by (simp add: itoa_def rev_map)
qed

lemma itoa_number:
  assumes "2 \<le> unat r" "unat r \<le> 36" "33 \<le> length buf"
  shows "\<exists>ds rest. itoa v buf r = Some (ds @ 0 # rest) \<and> 0 \<notin> set ds \<and> number (unat r) ds = unat v"
proof -
  let ?ds = "map dig (digits (unat r) (unat v))"
  have "(2 :: nat) ^ 32 \<le> unat r ^ 32" using assms(1) by (rule power_mono) simp
  then have "unat v < unat r ^ 32" using unat_less_u32 [of v] by simp
  then have "length (digits (unat r) (unat v)) < length buf"
    using digits_length [OF assms(1), of 32 "unat v"] assms(3) by simp
  then have "itoa v buf r = Some (?ds @ 0 # drop (Suc (length (digits (unat r) (unat v)))) buf)"
    using itoa_spec [OF assms(1,2)] by blast
  moreover have "0 \<notin> set ?ds"
    using digits_less [OF assms(1)] assms(2) dig_nonzero by (fastforce dest: less_le_trans)
  ultimately show ?thesis using number_digits [OF assms(1,2)] by blast
qed

end
