(* ===== verification/Cmem.thy ===== *)
theory Cmem
  imports Prelude
begin

text \<open>
  The block operations of \<^verbatim>\<open>student-distrib/lib.c\<close> (\<^verbatim>\<open>memset\<close>, \<^verbatim>\<open>memset_word\<close>,
  \<^verbatim>\<open>memset_dword\<close>, \<^verbatim>\<open>memcpy\<close>, \<^verbatim>\<open>memmove\<close>), whose bodies are inline assembly, on physical
  memory. Each label of the assembly is one loop here; \<open>edi\<close>, \<open>esi\<close> are the
  address registers, \<open>ecx\<close>/\<open>edx\<close> the counters (unsigned, counted down to 0, so held as the
  naturals they denote). The lemmas relate every routine to one simultaneous block update.
\<close>

section \<open>Memory accesses\<close>

definition byte_of :: "nat \<Rightarrow> u32 \<Rightarrow> u8" where
  "byte_of k v = ucast (drop_bit (8 * k) v)"

definition store16 :: "mem \<Rightarrow> u32 \<Rightarrow> u32 \<Rightarrow> mem" where
  "store16 m a v = m(a := byte_of 0 v, a + 1 := byte_of 1 v)"

definition store32 :: "mem \<Rightarrow> u32 \<Rightarrow> u32 \<Rightarrow> mem" where
  "store32 m a v = m(a := byte_of 0 v, a + 1 := byte_of 1 v, a + 2 := byte_of 2 v, a + 3 := byte_of 3 v)"

definition load32 :: "mem \<Rightarrow> u32 \<Rightarrow> u32" where
  "load32 m a = of_nat (unat (m a) + 256 * unat (m (a + 1)) + 65536 * unat (m (a + 2))
                        + 16777216 * unat (m (a + 3)))"

definition movsl :: "mem \<Rightarrow> u32 \<Rightarrow> u32 \<Rightarrow> mem" where
  "movsl m edi esi = m(edi := m esi, edi + 1 := m (esi + 1), edi + 2 := m (esi + 2), edi + 3 := m (esi + 3))"

section \<open>Operations\<close>

fun memset_top :: "mem \<Rightarrow> u32 \<Rightarrow> u8 \<Rightarrow> nat \<Rightarrow> mem \<times> u32 \<times> nat" where
  "memset_top m edi al 0 = (m, edi, 0)"
| "memset_top m edi al (Suc ecx) =
     (if edi AND 3 = 0 then (m, edi, Suc ecx)
      else memset_top (m(edi := al)) (edi + 1) al ecx)"

fun rep_stosl :: "mem \<Rightarrow> u32 \<Rightarrow> u32 \<Rightarrow> nat \<Rightarrow> mem \<times> u32" where
  "rep_stosl m edi eax 0 = (m, edi)"
| "rep_stosl m edi eax (Suc ecx) = rep_stosl (store32 m edi eax) (edi + 4) eax ecx"

fun rep_stosw :: "mem \<Rightarrow> u32 \<Rightarrow> u32 \<Rightarrow> nat \<Rightarrow> mem \<times> u32" where
  "rep_stosw m edi eax 0 = (m, edi)"
| "rep_stosw m edi eax (Suc ecx) = rep_stosw (store16 m edi eax) (edi + 2) eax ecx"

fun memset_bottom :: "mem \<Rightarrow> u32 \<Rightarrow> u8 \<Rightarrow> nat \<Rightarrow> mem" where
  "memset_bottom m edi al 0 = m"
| "memset_bottom m edi al (Suc edx) = memset_bottom (m(edi := al)) (edi + 1) al edx"

definition memset :: "mem \<Rightarrow> u32 \<Rightarrow> u32 \<Rightarrow> u32 \<Rightarrow> mem" where
  "memset m s c n =
     (let c = c AND 0xFF;
          eax = push_bit 24 c OR push_bit 16 c OR push_bit 8 c OR c;
          al = byte_of 0 eax;
          (m1, edi, ecx) = memset_top m s al (unat n)
      in if ecx = 0 then m1
         else let (m2, edi2) = rep_stosl m1 edi eax (ecx div 4)
              in memset_bottom m2 edi2 al (ecx mod 4))"

definition memset_word :: "mem \<Rightarrow> u32 \<Rightarrow> u32 \<Rightarrow> u32 \<Rightarrow> mem" where
  "memset_word m s c n = fst (rep_stosw m s c (unat n))"

definition memset_dword :: "mem \<Rightarrow> u32 \<Rightarrow> u32 \<Rightarrow> u32 \<Rightarrow> mem" where
  "memset_dword m s c n = fst (rep_stosl m s c (unat n))"

fun memcpy_top :: "mem \<Rightarrow> u32 \<Rightarrow> u32 \<Rightarrow> nat \<Rightarrow> mem \<times> u32 \<times> u32 \<times> nat" where
  "memcpy_top m edi esi 0 = (m, edi, esi, 0)"
| "memcpy_top m edi esi (Suc ecx) =
     (if edi AND 3 = 0 then (m, edi, esi, Suc ecx)
      else memcpy_top (m(edi := m esi)) (edi + 1) (esi + 1) ecx)"

fun rep_movsl :: "mem \<Rightarrow> u32 \<Rightarrow> u32 \<Rightarrow> nat \<Rightarrow> mem \<times> u32 \<times> u32" where
  "rep_movsl m edi esi 0 = (m, edi, esi)"
| "rep_movsl m edi esi (Suc ecx) = rep_movsl (movsl m edi esi) (edi + 4) (esi + 4) ecx"

fun memcpy_bottom :: "mem \<Rightarrow> u32 \<Rightarrow> u32 \<Rightarrow> nat \<Rightarrow> mem" where
  "memcpy_bottom m edi esi 0 = m"
| "memcpy_bottom m edi esi (Suc edx) = memcpy_bottom (m(edi := m esi)) (edi + 1) (esi + 1) edx"

definition memcpy :: "mem \<Rightarrow> u32 \<Rightarrow> u32 \<Rightarrow> u32 \<Rightarrow> mem" where
  "memcpy m dest src n =
     (let (m1, edi, esi, ecx) = memcpy_top m dest src (unat n)
      in if ecx = 0 then m1
         else let (m2, edi2, esi2) = rep_movsl m1 edi esi (ecx div 4)
              in memcpy_bottom m2 edi2 esi2 (ecx mod 4))"

text \<open>\<^verbatim>\<open>rep movsb\<close> follows the direction flag; \<^verbatim>\<open>memmove\<close> also returns that flag.\<close>

fun rep_movsb :: "bool \<Rightarrow> mem \<Rightarrow> u32 \<Rightarrow> u32 \<Rightarrow> nat \<Rightarrow> mem" where
  "rep_movsb df m edi esi 0 = m"
| "rep_movsb df m edi esi (Suc ecx) =
     (if df then rep_movsb df (m(edi := m esi)) (edi - 1) (esi - 1) ecx
      else rep_movsb df (m(edi := m esi)) (edi + 1) (esi + 1) ecx)"

definition memmove :: "mem \<Rightarrow> u32 \<Rightarrow> u32 \<Rightarrow> u32 \<Rightarrow> mem \<times> bool" where
  "memmove m dest src n =
     (if dest \<le> src then (rep_movsb False m dest src (unat n), False)
      else (rep_movsb True m (dest + n - 1) (src + n - 1) (unat n), True))"

section \<open>Block updates\<close>

text \<open>
  The reference operations: setting and copying a block at once. The offset of an address
  in a block is taken modulo the address space, so blocks may wrap around.
\<close>

definition fill :: "mem \<Rightarrow> u32 \<Rightarrow> nat \<Rightarrow> u8 \<Rightarrow> mem" where
  "fill m s n v = (\<lambda>a. if unat (a - s) < n then v else m a)"

definition cpy :: "mem \<Rightarrow> u32 \<Rightarrow> u32 \<Rightarrow> nat \<Rightarrow> mem" where
  "cpy m d s n = (\<lambda>a. if unat (a - d) < n then m (s + (a - d)) else m a)"

lemma unat_sub_of_nat:
  assumes "k < 4294967296"
  shows "unat (w - of_nat k :: u32) =
     (if k \<le> unat w then unat w - k else unat w + 4294967296 - k)"
  using unat_of_nat_u32 [OF assms] by (simp add: unat_sub_if')

lemma unat_lt_1: "unat (a - s :: u32) = 0 \<longleftrightarrow> a = s"
  by (metis eq_iff_diff_eq_0 unat_eq_zero)

lemma fill_0 [simp]: "fill m s 0 v = m"
  by (simp add: fill_def)

lemma fill_1: "fill m s 1 v = m(s := v)"
  by (auto simp: fill_def fun_eq_iff unat_lt_1)

lemma fill_fill:
  assumes "k + j \<le> 4294967296"
  shows "fill (fill m s k v) (s + of_nat k) j v = fill m s (k + j) v"
proof (cases "j = 0")
  case False
  show ?thesis
  proof
  fix a
  have "unat (a - (s + of_nat k)) = (if k \<le> unat (a - s) then unat (a - s) - k
      else unat (a - s) + 4294967296 - k)"
    using unat_sub_of_nat [of k "a - s"] assms False by (simp add: diff_diff_eq)
  with assms show "fill (fill m s k v) (s + of_nat k) j v a = fill m s (k + j) v a"
    by (auto simp: fill_def)
  qed
qed simp

lemma cpy_0 [simp]: "cpy m d s 0 = m"
  by (simp add: cpy_def)

lemma cpy_1: "cpy m d s 1 = m(d := m s)"
  by (auto simp: cpy_def fun_eq_iff unat_lt_1)

text \<open>
  Copying in two pieces, where the second piece's source is not overwritten by the first.
\<close>

lemma cpy_cpy:
  assumes "k + j \<le> 4294967296"
    and dis: "\<And>x. x < j \<Longrightarrow> k \<le> unat (s + of_nat (k + x) - d)"
  shows "cpy (cpy m d s k) (d + of_nat k) (s + of_nat k) j = cpy m d s (k + j)"
proof (cases "j = 0")
  case False
  show ?thesis
  proof
  fix a
  have off: "unat (a - (d + of_nat k)) = (if k \<le> unat (a - d) then unat (a - d) - k
      else unat (a - d) + 4294967296 - k)"
    using unat_sub_of_nat [of k "a - d"] assms(1) False by (simp add: diff_diff_eq)
  show "cpy (cpy m d s k) (d + of_nat k) (s + of_nat k) j a = cpy m d s (k + j) a"
  proof (cases "unat (a - (d + of_nat k)) < j")
    case True
    define x where "x = unat (a - (d + of_nat k))"
    have "a - (d + of_nat k) = of_nat x" by (simp add: x_def)
    then have src: "s + of_nat k + (a - (d + of_nat k)) = s + of_nat (k + x)" by (simp add: add.assoc)
    have "k \<le> unat (s + of_nat (k + x) - d)" by (rule dis) (use True in \<open>simp add: x_def\<close>)
    moreover have "s + of_nat (k + x) = s + (a - d)" using src by (simp add: algebra_simps)
    moreover have "unat (a - d) < k + j" using True off assms(1) unat_less_u32 [of "a - d"]
      by (auto split: if_splits)
    ultimately show ?thesis using True src by (simp add: cpy_def)
  next
    case False
    then show ?thesis using off by (auto simp: cpy_def split: if_splits)
  qed
  qed
qed simp

lemma cpy_forward:
  assumes "unat (s - d) + (k + j) \<le> 4294967296"
  shows "cpy (cpy m d s k) (d + of_nat k) (s + of_nat k) j = cpy m d s (k + j)"
proof (rule cpy_cpy)
  fix x assume "x < j"
  have eq: "s + of_nat (k + x) - d = (s - d) + of_nat (k + x)" by (simp add: algebra_simps)
  have "unat (of_nat (k + x) :: u32) = k + x"
    by (rule unat_of_nat_u32) (use assms \<open>x < j\<close> in linarith)
  moreover from this have "unat ((s - d) + of_nat (k + x)) = unat (s - d) + (k + x)"
    using assms \<open>x < j\<close> by (subst unat_plus_if') auto
  ultimately show "k \<le> unat (s + of_nat (k + x) - d)" unfolding eq by simp
qed (use assms in linarith)

lemma unat_less_4: "unat (w :: u32) < 4 \<longleftrightarrow> w = 0 \<or> w = 1 \<or> w = 2 \<or> w = 3"
  by unat_arith

lemma fill_4: "fill m a 4 v = m(a := v, a + 1 := v, a + 2 := v, a + 3 := v)"
  by (auto simp: fill_def fun_eq_iff unat_less_4 algebra_simps)

lemma cpy_4: "cpy m d s 4 = movsl m d s"
  by (auto simp: cpy_def movsl_def fun_eq_iff unat_less_4 algebra_simps)

lemma rep_stosl_fill:
  assumes "\<And>k. k < 4 \<Longrightarrow> byte_of k eax = v" "4 * n \<le> 4294967296"
  shows "rep_stosl m edi eax n = (fill m edi (4 * n) v, edi + of_nat (4 * n))"
  using assms(2)
proof (induction n arbitrary: m edi)
  case (Suc n)
  have "store32 m edi eax = fill m edi 4 v"
    using assms(1) by (simp add: store32_def fill_4)
  with Suc fill_fill [of 4 "4 * n" m edi v] show ?case by (simp add: algebra_simps)
qed simp

lemma memset_bottom_fill:
  "n \<le> 4294967296 \<Longrightarrow> memset_bottom m edi al n = fill m edi n al"
proof (induction n arbitrary: m edi)
  case (Suc n)
  with fill_fill [of 1 n m edi al] show ?case by (simp add: fill_1 [symmetric])
qed simp

lemma memset_top_fill:
  "n \<le> 4294967296 \<Longrightarrow>
   \<exists>k \<le> n. memset_top m edi al n = (fill m edi k al, edi + of_nat k, n - k)"
proof (induction n arbitrary: m edi)
  case (Suc n)
  show ?case
  proof (cases "edi AND 3 = 0")
    case True
    then show ?thesis by (intro exI [of _ 0]) simp
  next
    case False
    from Suc obtain k where k: "k \<le> n"
      "memset_top (m(edi := al)) (edi + 1) al n =
         (fill (m(edi := al)) (edi + 1) k al, edi + 1 + of_nat k, n - k)"
      by fastforce
    with False fill_fill [of 1 k m edi al] Suc.prems show ?thesis
      by (intro exI [of _ "Suc k"]) (simp add: fill_1 [symmetric] add.assoc)
  qed
qed simp

lemma and_0xFF: "(c :: u32) AND 0xFF = take_bit 8 c"
  by (simp add: take_bit_eq_mask mask_eq_exp_minus_1)

lemma byte_of_replicated:
  assumes "k < 4"
  shows "byte_of k (push_bit 24 (c AND 0xFF) OR push_bit 16 (c AND 0xFF) OR
           push_bit 8 (c AND 0xFF) OR (c AND 0xFF)) = (ucast c :: u8)"
proof -
  consider "k = 0" | "k = 1" | "k = 2" | "k = 3" using assms by linarith
  then show ?thesis
    unfolding and_0xFF
    by cases (auto simp: byte_of_def bit_simps intro!: bit_word_eqI)
qed

lemma stos_rest_fill:
  assumes v: "\<And>k. k < 4 \<Longrightarrow> byte_of k eax = v" and k: "k \<le> N" and N: "N \<le> 4294967296"
  shows "(case rep_stosl (fill m s k v) (s + of_nat k) eax ((N - k) div 4) of
            (m2, edi2) \<Rightarrow> memset_bottom m2 edi2 v ((N - k) mod 4)) = fill m s N v"
proof -
  define q r where "q = (N - k) div 4" and "r = (N - k) mod 4"
  have sum: "k + 4 * q + r = N" using k by (simp add: q_def r_def)
  have "4 * q \<le> 4294967296" using sum N by linarith
  then have "rep_stosl (fill m s k v) (s + of_nat k) eax q =
      (fill (fill m s k v) (s + of_nat k) (4 * q) v, s + of_nat k + of_nat (4 * q))"
    by (intro rep_stosl_fill v)
  also have "\<dots> = (fill m s (k + 4 * q) v, s + of_nat (k + 4 * q))"
    using fill_fill [of k "4 * q" m s v] sum N by (simp add: add.assoc)
  finally have "rep_stosl (fill m s k v) (s + of_nat k) eax q =
      (fill m s (k + 4 * q) v, s + of_nat (k + 4 * q))" .
  moreover have "memset_bottom (fill m s (k + 4 * q) v) (s + of_nat (k + 4 * q)) v r = fill m s N v"
    using fill_fill [of "k + 4 * q" r m s v] memset_bottom_fill [of r] sum N
    by (simp del: of_nat_add)
  ultimately show ?thesis unfolding q_def [symmetric] r_def [symmetric] by simp
qed

lemma memset_spec: "memset m s c n = fill m s (unat n) (ucast c)"
proof -
  let ?c = "c AND 0xFF"
  define eax where "eax = push_bit 24 ?c OR push_bit 16 ?c OR push_bit 8 ?c OR ?c"
  have v: "\<And>k. k < 4 \<Longrightarrow> byte_of k eax = (ucast c :: u8)"
    unfolding eax_def by (rule byte_of_replicated)
  have n: "unat n \<le> 4294967296" using unat_less_u32 [of n] by simp
  obtain k where k: "k \<le> unat n"
    "memset_top m s (ucast c) (unat n) = (fill m s k (ucast c), s + of_nat k, unat n - k)"
    using memset_top_fill [OF n] by blast
  have "memset m s c n = (if unat n - k = 0 then fill m s k (ucast c)
      else case rep_stosl (fill m s k (ucast c)) (s + of_nat k) eax ((unat n - k) div 4) of
             (m2, edi2) \<Rightarrow> memset_bottom m2 edi2 (ucast c) ((unat n - k) mod 4))"
    unfolding memset_def Let_def eax_def [symmetric] by (simp add: v k(2))
  also have "\<dots> = fill m s (unat n) (ucast c)"
    using stos_rest_fill [OF v k(1) n, of m s] k(1) by simp
  finally show ?thesis .
qed

text \<open>\<^verbatim>\<open>rep stosw\<close> and \<^verbatim>\<open>rep stosl\<close> count 2- and 4-byte units, not bytes.\<close>

lemma store32_at: "store32 m s c (s + w) = (if unat w < 4 then byte_of (unat w) c else m (s + w))"
  by (auto simp: store32_def unat_less_4)

lemma rep_stosl_spec:
  "4 * n \<le> 4294967296 \<Longrightarrow> fst (rep_stosl m s c n) =
     (\<lambda>a. if unat (a - s) < 4 * n then byte_of (unat (a - s) mod 4) c else m a)"
proof (induction n arbitrary: m s)
  case (Suc n)
  show ?case
  proof
    fix a
    have off: "unat (a - (s + 4)) = (if 4 \<le> unat (a - s) then unat (a - s) - 4
        else unat (a - s) + 4294967296 - 4)"
      using unat_sub_of_nat [of 4 "a - s"] by (simp add: diff_diff_eq)
    have "store32 m s c a = (if unat (a - s) < 4 then byte_of (unat (a - s)) c else m a)"
      using store32_at [of m s c "a - s"] by simp
    with Suc off show "fst (rep_stosl m s c (Suc n)) a =
        (if unat (a - s) < 4 * Suc n then byte_of (unat (a - s) mod 4) c else m a)"
      by (auto simp: le_mod_geq)
  qed
qed simp

lemma memcpy_top_cpy:
  "unat (s - d) + n \<le> 4294967296 \<Longrightarrow>
   \<exists>k \<le> n. memcpy_top m d s n = (cpy m d s k, d + of_nat k, s + of_nat k, n - k)"
proof (induction n arbitrary: m d s)
  case (Suc n)
  show ?case
  proof (cases "d AND 3 = 0")
    case True
    then show ?thesis by (intro exI [of _ 0]) simp
  next
    case False
    have "unat (s + 1 - (d + 1)) + n \<le> 4294967296" using Suc.prems by simp
    from Suc.IH [OF this, of "m(d := m s)"] obtain k where k: "k \<le> n"
      "memcpy_top (m(d := m s)) (d + 1) (s + 1) n =
         (cpy (m(d := m s)) (d + 1) (s + 1) k, d + 1 + of_nat k, s + 1 + of_nat k, n - k)"
      by blast
    with False cpy_forward [of s d 1 k m] Suc.prems show ?thesis
      by (intro exI [of _ "Suc k"]) (simp add: cpy_1 [symmetric] add.assoc)
  qed
qed simp

lemma rep_movsl_cpy:
  "unat (s - d) + 4 * n \<le> 4294967296 \<Longrightarrow>
   rep_movsl m d s n = (cpy m d s (4 * n), d + of_nat (4 * n), s + of_nat (4 * n))"
proof (induction n arbitrary: m d s)
  case (Suc n)
  have "s + 4 - (d + 4) = s - d" by simp
  with Suc cpy_forward [of s d 4 "4 * n" m] show ?case
    by (simp add: cpy_4 [symmetric] algebra_simps)
qed simp

lemma memcpy_bottom_cpy:
  "unat (s - d) + n \<le> 4294967296 \<Longrightarrow> memcpy_bottom m d s n = cpy m d s n"
proof (induction n arbitrary: m d s)
  case (Suc n)
  have "s + 1 - (d + 1) = s - d" by simp
  with Suc cpy_forward [of s d 1 n m] show ?case by (simp add: cpy_1 [symmetric])
qed simp

text \<open>
  \<^verbatim>\<open>memcpy\<close> is a block copy unless the destination starts inside the source block: then
  \<open>unat (src - dest) + n\<close> passes the size of the address space.
\<close>

lemma memcpy_cpy:
  assumes ok: "unat (s - d) + unat n \<le> 4294967296"
  shows "memcpy m d s n = cpy m d s (unat n)"
proof -
  obtain k where k: "k \<le> unat n"
    "memcpy_top m d s (unat n) = (cpy m d s k, d + of_nat k, s + of_nat k, unat n - k)"
    using memcpy_top_cpy [OF ok] by blast
  define q r where "q = (unat n - k) div 4" and "r = (unat n - k) mod 4"
  have sum: "k + 4 * q + r = unat n" using k(1) by (simp add: q_def r_def)
  have same: "s + of_nat j - (d + of_nat j) = s - d" for j by simp
  have "rep_movsl (cpy m d s k) (d + of_nat k) (s + of_nat k) q =
      (cpy m d s (k + 4 * q), d + of_nat (k + 4 * q), s + of_nat (k + 4 * q))"
    using rep_movsl_cpy [of "s + of_nat k" "d + of_nat k" q "cpy m d s k"]
      cpy_forward [of s d k "4 * q" m] sum ok by (simp add: add.assoc)
  moreover have "memcpy_bottom (cpy m d s (k + 4 * q)) (d + of_nat (k + 4 * q))
      (s + of_nat (k + 4 * q)) r = cpy m d s (unat n)"
    using memcpy_bottom_cpy [of "s + of_nat (k + 4 * q)" "d + of_nat (k + 4 * q)" r]
      cpy_forward [of s d "k + 4 * q" r m] sum ok by (simp only: same)
  ultimately show ?thesis
    using k unfolding memcpy_def by (auto simp: q_def [symmetric] r_def [symmetric])
qed

lemma rep_movsb_forward:
  "unat (s - d) + n \<le> 4294967296 \<Longrightarrow> rep_movsb False m d s n = cpy m d s n"
proof (induction n arbitrary: m d s)
  case (Suc n)
  have "s + 1 - (d + 1) = s - d" by simp
  with Suc cpy_forward [of s d 1 n m] show ?case by (simp add: cpy_1 [symmetric])
qed simp

lemma cpy_last:
  assumes "unat (d - s) + n < 4294967296" "s \<noteq> d"
  shows "cpy (m(d + of_nat n := m (s + of_nat n))) d s n = cpy m d s (Suc n)"
proof
  fix a
  have n: "unat (of_nat n :: u32) = n" by (rule unat_of_nat_u32) (use assms(1) in linarith)
  have eq: "a = d + of_nat n \<longleftrightarrow> unat (a - d) = n"
  proof
    assume "unat (a - d) = n"
    then have "of_nat (unat (a - d)) = (of_nat n :: u32)" by simp
    then have "a - d = of_nat n" by simp
    then show "a = d + of_nat n" by (simp add: algebra_simps)
  qed (simp add: n)
  have "s + (a - d) \<noteq> d + of_nat n" if "unat (a - d) < n"
  proof
    assume "s + (a - d) = d + of_nat n"
    then have "a - d = (d - s) + of_nat n" by (simp add: algebra_simps)
    moreover have "unat ((d - s) + of_nat n) = unat (d - s) + n"
      using assms(1) n by (subst unat_plus_if') auto
    ultimately have "unat (a - d) = unat (d - s) + n" by metis
    with that show False by linarith
  qed
  with eq show "cpy (m(d + of_nat n := m (s + of_nat n))) d s n a = cpy m d s (Suc n) a"
    by (auto simp: cpy_def less_Suc_eq)
qed

lemma rep_movsb_backward:
  "unat (d - s) + n \<le> 4294967296 \<Longrightarrow> s \<noteq> d \<Longrightarrow>
   rep_movsb True m (d + of_nat n - 1) (s + of_nat n - 1) n = cpy m d s n"
proof (induction n arbitrary: m)
  case (Suc n)
  then show ?case using cpy_last [of d s n m] by (simp add: algebra_simps)
qed simp

lemma memmove_cpy:
  assumes "unat s + unat n \<le> 4294967296" "unat d + unat n \<le> 4294967296"
  shows "memmove m d s n = (cpy m d s (unat n), s < d)"
proof (cases "d \<le> s")
  case True
  then have "unat (s - d) \<le> unat s" by (simp add: unat_sub word_le_nat_alt)
  with assms True show ?thesis by (simp add: memmove_def rep_movsb_forward not_less)
next
  case False
  then have "unat (d - s) \<le> unat d" by (simp add: unat_sub word_le_nat_alt not_le word_less_nat_alt)
  moreover have "rep_movsb True m (d + n - 1) (s + n - 1) (unat n) =
      rep_movsb True m (d + of_nat (unat n) - 1) (s + of_nat (unat n) - 1) (unat n)" by simp
  ultimately show ?thesis
    using assms False rep_movsb_backward [of d s "unat n" m] by (auto simp: memmove_def)
qed

lemma unat_byte_of: "unat (byte_of k v) = unat v div 2 ^ (8 * k) mod 256"
proof -
  have "unat (drop_bit (8 * k) v) = drop_bit (8 * k) (unat v)"
    using unat_less_u32 [of v] by (simp add: unsigned_drop_bit_eq take_bit_nat_eq_self)
  then show ?thesis
    by (simp add: byte_of_def unsigned_ucast_eq take_bit_eq_mod drop_bit_eq_div [of _ "unat v"])
qed

lemma bytes_value:
  assumes "(n :: nat) < 4294967296"
  shows "n mod 256 + 256 * (n div 256 mod 256) + 65536 * (n div 65536 mod 256)
           + 16777216 * (n div 16777216 mod 256) = n"
proof -
  define a b c where "a = n div 256" and "b = a div 256" and "c = b div 256"
  have b: "n div 65536 = b" and c: "n div 16777216 = c"
    by (simp_all add: a_def b_def c_def div_mult2_eq [symmetric])
  have "n = 256 * a + n mod 256" "a = 256 * b + a mod 256" "b = 256 * c + b mod 256"
    by (simp_all add: a_def b_def c_def)
  moreover have "c mod 256 = c" using assms c by simp
  ultimately show ?thesis unfolding b c a_def [symmetric] by linarith
qed

lemma word_of_bytes:
  "of_nat (unat (byte_of 0 v) + 256 * unat (byte_of 1 v) + 65536 * unat (byte_of 2 v) + 16777216 * unat (byte_of 3 v)) = (v :: u32)"
proof -
  have "unat (byte_of 0 v) + 256 * unat (byte_of 1 v) + 65536 * unat (byte_of 2 v) + 16777216 * unat (byte_of 3 v) =
      unat v mod 256 + 256 * (unat v div 256 mod 256) + 65536 * (unat v div 65536 mod 256) + 16777216 * (unat v div 16777216 mod 256)"
    by (simp add: unat_byte_of)
  then show ?thesis unfolding bytes_value [OF unat_less_u32] by simp
qed

lemma load32_store32: "load32 (store32 m a v) a = v"
  using word_of_bytes [of v] by (simp add: load32_def store32_def)

end
