(* ===== verification/Kernel_State.thy ===== *)
theory Kernel_State
  imports Cstring Cmem
begin

text \<open>
  The state of the kernel: the C structures of \<^verbatim>\<open>student-distrib/lib.h\<close> and one record with
  the global variables of the kernel's files, physical memory and the processor registers the
  code touches. A global array indexed by a small number is a function of the index. The PCB of
  process \<open>p\<close> lives at \<open>KERNEL_BOT_ADDR - (p + 1) * EIGHT_KB\<close>; the record keeps it under \<open>p\<close>,
  and the lemmas at the end show that these addresses never clash.
\<close>

section \<open>Structures of lib.h\<close>

text \<open>The functions a descriptor's jump table can point at; a NULL pointer is \<open>None\<close>.\<close>

datatype fop =
    Null_func
  | Terminal_read | Terminal_write
  | Open_RTC | Read_RTC | Write_RTC | Close_RTC
  | Open_file | Read_file | Write_file | Close_file
  | Open_directory | Read_directory | Write_directory | Close_directory

record fd_entry_t =
  operations_pointer :: "fop option list"
  inode_index :: u32
  file_position :: u32
  flags :: u32

record pcb_t =
  fd_entry :: "nat \<Rightarrow> fd_entry_t"
  process_id :: u32
  parent_id :: u32
  parent_esp :: u32
  parent_ebp :: u32
  parent_esp0 :: u32
  return_value :: u32
  args :: "u8 list"
  sched_ebp :: u32
  sched_esp :: u32
  sched_esp0 :: u32
  tty :: u8

section \<open>Constants\<close>

abbreviation (input) KERNEL_BOT_ADDR :: u32 where "KERNEL_BOT_ADDR \<equiv> 0x800000"
abbreviation (input) EIGHT_KB :: u32 where "EIGHT_KB \<equiv> 0x2000"
abbreviation (input) FOUR_MB :: u32 where "FOUR_MB \<equiv> 0x400000"
abbreviation (input) MAX_FD_NUM :: nat where "MAX_FD_NUM \<equiv> 8"
abbreviation (input) MAX_PID :: nat where "MAX_PID \<equiv> 6"
abbreviation (input) MAX_LENGTH_ARG :: nat where "MAX_LENGTH_ARG \<equiv> 128"
abbreviation (input) TERMINAL_COUNT :: nat where "TERMINAL_COUNT \<equiv> 3"
abbreviation (input) FREE :: u32 where "FREE \<equiv> 0"
abbreviation (input) IN_USE :: u32 where "IN_USE \<equiv> 1"
abbreviation (input) OPEN :: nat where "OPEN \<equiv> 0"
abbreviation (input) READ :: nat where "READ \<equiv> 1"
abbreviation (input) WRITE :: nat where "WRITE \<equiv> 2"
abbreviation (input) CLOSE :: nat where "CLOSE \<equiv> 3"
abbreviation (input) STDIN :: nat where "STDIN \<equiv> 0"
abbreviation (input) STDOUT :: nat where "STDOUT \<equiv> 1"
abbreviation (input) VIDEO :: u32 where "VIDEO \<equiv> 0xB8000"
abbreviation (input) NUM_COLS :: int where "NUM_COLS \<equiv> 80"
abbreviation (input) NUM_ROWS :: int where "NUM_ROWS \<equiv> 25"

section \<open>The kernel state\<close>

record kernel =
  \<comment> \<open>physical memory\<close>
  mem :: mem
  \<comment> \<open>lib.c\<close>
  screen_x :: "nat \<Rightarrow> int"
  screen_y :: "nat \<Rightarrow> int"
  execute_pid :: "nat \<Rightarrow> int"
  video_mem :: "nat \<Rightarrow> u32"
  RTC_STATUS :: int
  terminal_num :: nat
  current_pid :: int
  \<comment> \<open>filesystem.c\<close>
  fs_start :: u32
  dentry_table_flags :: "nat \<Rightarrow> int"
  \<comment> \<open>keyboard.c\<close>
  shift_flag :: u8
  ctrl_flag :: u8
  capslock_flag :: u8
  release_caps :: u8
  enter_flag :: u8
  alt_flag :: u8
  isAdd :: u8
  buf_index :: "nat \<Rightarrow> int"
  char_buf :: "u8 list"
  \<comment> \<open>terminal.c and terminal.h\<close>
  t_enter_flag :: "nat \<Rightarrow> u8"
  command_buf :: "nat \<Rightarrow> u8 list"
  \<comment> \<open>rtc.c\<close>
  rtc_interrupt_occured :: "nat \<Rightarrow> int"
  \<comment> \<open>i8259.c\<close>
  master_mask :: u8
  slave_mask :: u8
  \<comment> \<open>system_call.c\<close>
  pid_flags :: "nat \<Rightarrow> int"
  \<comment> \<open>sched.c\<close>
  terminals_initialized :: int
  pit_terminal_num :: nat
  \<comment> \<open>paging.c: the three static tables and their addresses\<close>
  PDT :: "nat \<Rightarrow> u32"
  PT0 :: "nat \<Rightarrow> u32"
  PT1 :: "nat \<Rightarrow> u32"
  PDT_addr :: u32
  PT0_addr :: u32
  PT1_addr :: u32
  \<comment> \<open>the PCBs at the bottom of the kernel stacks\<close>
  pcbs :: "int \<Rightarrow> pcb_t"
  \<comment> \<open>processor: stack registers, TSS fields, control registers, interrupt flag\<close>
  esp :: u32
  ebp :: u32
  tss_esp0 :: u32
  tss_ss0 :: u32
  cr0 :: u32
  cr3 :: u32
  cr4 :: u32
  iflag :: bool
  \<comment> \<open>bytes written to I/O ports, oldest first\<close>
  outs :: "(u16 \<times> u8) list"

section \<open>Machine primitives of lib.h\<close>

definition outb :: "u8 \<Rightarrow> u16 \<Rightarrow> kernel \<Rightarrow> kernel" where
  "outb data port s = s\<lparr>outs := outs s @ [(port, data)]\<rparr>"

definition cli :: "kernel \<Rightarrow> kernel" where
  "cli s = s\<lparr>iflag := False\<rparr>"

definition sti :: "kernel \<Rightarrow> kernel" where
  "sti s = s\<lparr>iflag := True\<rparr>"

text \<open>The TLB flush the kernel inlines: reload CR3 with the page directory's address.\<close>

definition flush_tlb :: "kernel \<Rightarrow> kernel" where
  "flush_tlb s = s\<lparr>cr3 := (cr3 s AND 0xFFF) + PDT_addr s\<rparr>"

lemmas machine_defs [c_simps] = outb_def cli_def sti_def flush_tlb_def

section \<open>Busy waiting\<close>

text \<open>
  A loop \<^verbatim>\<open>while (flag);\<close> waits for an interrupt handler to change what it tests. The handlers
  that run meanwhile are given as the list of their effects on the state, as the waiting code
  sees them when it is resumed; \<open>None\<close> means that it is still waiting after all of them.
\<close>

fun spin :: "(kernel \<Rightarrow> bool) \<Rightarrow> (kernel \<Rightarrow> kernel) list \<Rightarrow> kernel \<Rightarrow> kernel option" where
  "spin waiting [] s = (if waiting s then None else Some s)"
| "spin waiting (h # hs) s = (if waiting s then spin waiting hs (h s) else Some s)"

lemma spin_done: "spin waiting hs s = Some s' \<Longrightarrow> \<not> waiting s'"
  by (induction hs arbitrary: s) (auto split: if_splits)

section \<open>PCBs\<close>

definition pcb_addr :: "int \<Rightarrow> u32" where
  "pcb_addr pid = KERNEL_BOT_ADDR - (word_of_int pid + 1) * EIGHT_KB"

definition cur_pcb :: "kernel \<Rightarrow> pcb_t" where
  "cur_pcb s = pcbs s (current_pid s)"

definition set_pcb :: "int \<Rightarrow> pcb_t \<Rightarrow> kernel \<Rightarrow> kernel" where
  "set_pcb pid p s = s\<lparr>pcbs := (pcbs s)(pid := p)\<rparr>"

definition set_cur_pcb :: "pcb_t \<Rightarrow> kernel \<Rightarrow> kernel" where
  "set_cur_pcb p s = set_pcb (current_pid s) p s"

definition set_fd :: "nat \<Rightarrow> fd_entry_t \<Rightarrow> kernel \<Rightarrow> kernel" where
  "set_fd fd e s = set_cur_pcb ((cur_pcb s)\<lparr>fd_entry := (fd_entry (cur_pcb s))(fd := e)\<rparr>) s"

definition get_tty :: "kernel \<Rightarrow> nat" where
  "get_tty s = unat (tty (cur_pcb s))"

lemma cur_pcb_set_cur_pcb [simp]: "cur_pcb (set_cur_pcb p s) = p"
  by (simp add: cur_pcb_def set_cur_pcb_def set_pcb_def)

lemma cur_pcb_set_fd [simp]:
  "cur_pcb (set_fd fd e s) = (cur_pcb s)\<lparr>fd_entry := (fd_entry (cur_pcb s))(fd := e)\<rparr>"
  by (simp add: set_fd_def)

lemma set_fd_current_pid [simp, frame_simps]: "current_pid (set_fd fd e s) = current_pid s"
  by (simp add: set_fd_def set_cur_pcb_def set_pcb_def)

lemma set_fd_other_pcb [frame_simps]: "pid \<noteq> current_pid s \<Longrightarrow> pcbs (set_fd fd e s) pid = pcbs s pid"
  by (simp add: set_fd_def set_cur_pcb_def set_pcb_def)

text \<open>
  The 8 KB blocks that hold a process's PCB and kernel stack: distinct processes have
  disjoint blocks, all inside the 4 MB kernel page \<open>[0x400000, 0x800000)\<close>.
\<close>

lemma pcb_addr_value:
  assumes "0 \<le> pid" "pid < 512"
  shows "unat (pcb_addr pid) = 0x800000 - (nat pid + 1) * 0x2000"
proof -
  have w: "word_of_int pid = (of_nat (nat pid) :: u32)" using assms by simp
  have "nat pid + 1 \<le> 512" using assms by simp
  define k :: u32 where "k = (of_nat (nat pid) + 1) * 0x2000"
  have k: "unat k = (nat pid + 1) * 0x2000"
    using \<open>nat pid + 1 \<le> 512\<close> by (simp add: k_def unat_word_ariths unat_of_nat)
  then have "k \<le> KERNEL_BOT_ADDR" using \<open>nat pid + 1 \<le> 512\<close> by (simp add: word_le_nat_alt)
  then show ?thesis
    unfolding pcb_addr_def w k_def [symmetric] by (simp add: unat_sub k)
qed

lemma pcb_blocks_disjoint:
  assumes "0 \<le> p" "p < q" "q < 512"
  shows "unat (pcb_addr q) + 0x2000 \<le> unat (pcb_addr p)"
proof -
  have "nat p < nat q" "nat q < 512" using assms by auto
  moreover have "(nat q + 1) * 0x2000 \<le> 0x800000" using \<open>nat q < 512\<close> by simp
  ultimately show ?thesis
    using assms by (simp add: pcb_addr_value algebra_simps)
qed

section \<open>The state at boot\<close>

text \<open>
  The globals as the C initialisers leave them (uninitialised statics are zero), for a given
  content of physical memory and given addresses of the three paging tables. The control
  registers and the stack registers are those of a zeroed machine.
\<close>

definition zero_pcb :: pcb_t where
  "zero_pcb =
     \<lparr>fd_entry = (\<lambda>_. \<lparr>operations_pointer = [None, None, None, None], inode_index = 0, file_position = 0, flags = 0\<rparr>),
      process_id = 0, parent_id = 0, parent_esp = 0, parent_ebp = 0, parent_esp0 = 0, return_value = 0,
      args = replicate MAX_LENGTH_ARG 0, sched_ebp = 0, sched_esp = 0, sched_esp0 = 0, tty = 0\<rparr>"

definition boot_kernel :: "mem \<Rightarrow> u32 \<Rightarrow> u32 \<Rightarrow> u32 \<Rightarrow> kernel" where
  "boot_kernel m pdt pt0 pt1 =
     \<lparr>mem = m, screen_x = (\<lambda>_. 0), screen_y = (\<lambda>_. 0), execute_pid = (\<lambda>_. -1),
      video_mem = (\<lambda>t. [VIDEO, 0xBA000, 0xBB000] ! t), RTC_STATUS = 0, terminal_num = 0, current_pid = 0,
      fs_start = 0, dentry_table_flags = (\<lambda>_. 0),
      shift_flag = 0, ctrl_flag = 0, capslock_flag = 0, release_caps = 1, enter_flag = 0, alt_flag = 0, isAdd = 0,
      buf_index = (\<lambda>_. -1), char_buf = replicate 128 0,
      t_enter_flag = (\<lambda>_. 0), command_buf = (\<lambda>_. replicate 128 0),
      rtc_interrupt_occured = (\<lambda>_. 1), master_mask = 0xFF, slave_mask = 0xFF,
      pid_flags = (\<lambda>_. 0), terminals_initialized = 0, pit_terminal_num = 0,
      PDT = (\<lambda>_. 0), PT0 = (\<lambda>_. 0), PT1 = (\<lambda>_. 0), PDT_addr = pdt, PT0_addr = pt0, PT1_addr = pt1,
      pcbs = (\<lambda>_. zero_pcb), esp = 0, ebp = 0, tss_esp0 = 0, tss_ss0 = 0, cr0 = 0, cr3 = 0, cr4 = 0,
      iflag = False, outs = []\<rparr>"

end
