(* ===== verification/I8259.thy ===== *)
theory I8259
  imports Kernel_State
begin

text \<open>
  The two cascaded 8259 interrupt controllers, \<^verbatim>\<open>student-distrib/i8259.c\<close>: the initialisation
  words, masking and unmasking of one of the 16 IRQ lines, end-of-interrupt. The interface
  \<open>irq_mask\<close> states what the drivers rely on.
\<close>

section \<open>Operations\<close>

abbreviation (input) MASTER_8259_PORT :: u16 where "MASTER_8259_PORT \<equiv> 0x20"
abbreviation (input) SLAVE_8259_PORT :: u16 where "SLAVE_8259_PORT \<equiv> 0xA0"
abbreviation (input) ACT_LOW :: u8 where "ACT_LOW \<equiv> 0xFF"
abbreviation (input) EOI :: u8 where "EOI \<equiv> 0x60"

definition i8259_init :: "kernel \<Rightarrow> kernel" where
  "i8259_init s =
     (let s = outb ACT_LOW (MASTER_8259_PORT + 1) s;
          s = outb ACT_LOW (SLAVE_8259_PORT + 1) s;
          s = outb 0x11 MASTER_8259_PORT s;
          s = outb 0x11 SLAVE_8259_PORT s;
          s = outb 0x20 (MASTER_8259_PORT + 1) s;
          s = outb 0x28 (SLAVE_8259_PORT + 1) s;
          s = outb 0x04 (MASTER_8259_PORT + 1) s;
          s = outb 0x02 (SLAVE_8259_PORT + 1) s;
          s = outb 0x01 (MASTER_8259_PORT + 1) s
      in outb 0x01 (SLAVE_8259_PORT + 1) s)"

definition enable_irq :: "u32 \<Rightarrow> kernel \<Rightarrow> kernel" where
  "enable_irq irq_num s =
     (if irq_num < 8
      then let m = master_mask s AND NOT (push_bit (unat irq_num) 1)
           in outb m (MASTER_8259_PORT + 1) (s\<lparr>master_mask := m\<rparr>)
      else let m = slave_mask s AND NOT (push_bit (unat (irq_num - 8)) 1)
           in outb m (SLAVE_8259_PORT + 1) (s\<lparr>slave_mask := m\<rparr>))"

definition disable_irq :: "u32 \<Rightarrow> kernel \<Rightarrow> kernel" where
  "disable_irq irq_num s =
     (if irq_num < 8
      then let m = master_mask s OR push_bit (unat irq_num) 1
           in outb m (MASTER_8259_PORT + 1) (s\<lparr>master_mask := m\<rparr>)
      else let m = slave_mask s OR push_bit (unat (irq_num - 8)) 1
           in outb m (SLAVE_8259_PORT + 1) (s\<lparr>slave_mask := m\<rparr>))"

definition send_eoi :: "u32 \<Rightarrow> kernel \<Rightarrow> kernel" where
  "send_eoi irq_num s =
     (if 8 \<le> irq_num
      then outb (EOI OR 2) MASTER_8259_PORT
             (outb (ucast ((0x60 :: u32) OR (irq_num - 8))) SLAVE_8259_PORT s)
      else outb (ucast ((0x60 :: u32) OR irq_num)) MASTER_8259_PORT s)"

section \<open>Interface: a mask over the IRQ lines\<close>

text \<open>Which of the lines 0 to 15 the kernel's mask variables hold masked.\<close>

definition irq_masked :: "kernel \<Rightarrow> u32 \<Rightarrow> bool" where
  "irq_masked s n = (if n < 8 then bit (master_mask s) (unat n) else bit (slave_mask s) (unat (n - 8)))"

locale irq_mask =
  fixes unmask :: "'n \<Rightarrow> 's \<Rightarrow> 's" and mask :: "'n \<Rightarrow> 's \<Rightarrow> 's"
    and masked :: "'s \<Rightarrow> 'n \<Rightarrow> bool" and valid :: "'n \<Rightarrow> bool"
  assumes masked_unmask: "valid n \<Longrightarrow> valid k \<Longrightarrow> masked (unmask n s) k \<longleftrightarrow> k \<noteq> n \<and> masked s k"
    and masked_mask: "valid n \<Longrightarrow> valid k \<Longrightarrow> masked (mask n s) k \<longleftrightarrow> k = n \<or> masked s k"
begin

lemma masked_unmask_all:
  "\<forall>n \<in> set ns. valid n \<Longrightarrow> valid k \<Longrightarrow> masked (fold unmask ns s) k \<longleftrightarrow> k \<notin> set ns \<and> masked s k"
  by (induction ns arbitrary: s) (auto simp: masked_unmask)

lemma mask_unmask_restores:
  "valid n \<Longrightarrow> valid k \<Longrightarrow> masked s n \<Longrightarrow> masked (mask n (unmask n s)) k \<longleftrightarrow> masked s k"
  by (auto simp: masked_unmask masked_mask)

end

lemma unat_irq: "\<not> n < 8 \<Longrightarrow> n < 16 \<Longrightarrow> unat (n - 8 :: u32) < 8"
  by unat_arith

lemma irq_eq: "\<not> n < 8 \<Longrightarrow> \<not> k < 8 \<Longrightarrow> unat (n - 8 :: u32) = unat (k - 8) \<longleftrightarrow> n = k"
  by unat_arith

lemma irq_masked_enable:
  assumes "n < 16" "k < 16"
  shows "irq_masked (enable_irq n s) k \<longleftrightarrow> k \<noteq> n \<and> irq_masked s k"
  using assms irq_eq [of k n]
  by (auto simp: irq_masked_def enable_irq_def outb_def Let_def bit_simps unat_irq word_less_nat_alt unat_inj_u32)

lemma irq_masked_disable:
  assumes "n < 16" "k < 16"
  shows "irq_masked (disable_irq n s) k \<longleftrightarrow> k = n \<or> irq_masked s k"
  using assms irq_eq [of k n] unat_irq [of k]
  by (auto simp: irq_masked_def disable_irq_def outb_def Let_def bit_simps word_less_nat_alt unat_inj_u32)

interpretation pic: irq_mask enable_irq disable_irq irq_masked "\<lambda>n. n < 16"
  by unfold_locales (simp_all add: irq_masked_enable irq_masked_disable)

end
