(* ===== verification/Console.thy ===== *)
theory Console
  imports I8259 "HOL-Library.Signed_Division"
begin

text \<open>
  The text console of \<^verbatim>\<open>student-distrib/lib.c\<close>: \<^verbatim>\<open>clear\<close>, \<^verbatim>\<open>putc\<close>, \<^verbatim>\<open>puts\<close>, \<^verbatim>\<open>scroll_screen\<close>,
  \<^verbatim>\<open>backspace_pressed\<close>, the hardware cursor. Each terminal has a screen of 25 rows of 80
  cells, two bytes per cell (character, attribute), in the 4 KB page \<open>video_mem\<close> points at.
  The lemmas give the cells an operation changes and that it stays inside the page.
\<close>

section \<open>Operations\<close>

definition SCREEN_COLOR :: "nat \<Rightarrow> u8" where
  "SCREEN_COLOR t = [0x9, 0xA, 0xC] ! t"

definition cell :: "u32 \<Rightarrow> int \<Rightarrow> u32" where
  "cell b k = b + word_of_int k"

definition clear :: "kernel \<Rightarrow> kernel" where
  "clear s =
     (let b = video_mem s (terminal_num s); col = SCREEN_COLOR (terminal_num s)
      in s\<lparr>mem := fold (\<lambda>i m. m(cell b (2 * int i) := 0x20, cell b (2 * int i + 1) := col))
                    [0..<2000] (mem s)\<rparr>)"

definition putc :: "u8 \<Rightarrow> kernel \<Rightarrow> kernel" where
  "putc c s =
     (let t = terminal_num s; x = screen_x s t; y = screen_y s t in
      if c = 0x0A \<or> c = 0x0D
      then s\<lparr>screen_y := (screen_y s)(t := y + 1), screen_x := (screen_x s)(t := 0)\<rparr>
      else
        let b = video_mem s t; pos = NUM_COLS * y + x; col = SCREEN_COLOR t;
            m = (mem s)(cell b (2 * pos) := c,
                        cell b (2 * pos + 1) := col,
                        cell b (2 * (pos + 1) + 1) := col);
            x1 = x + 1
        in s\<lparr>mem := m,
             screen_y := (screen_y s)(t := (y + x1 sdiv NUM_COLS) smod NUM_ROWS),
             screen_x := (screen_x s)(t := x1 smod NUM_COLS)\<rparr>)"

partial_function (option) puts_loop :: "rptr \<Rightarrow> u32 \<Rightarrow> kernel \<Rightarrow> (u32 \<times> kernel) option" where
  "puts_loop str index s =
     do { c \<leftarrow> str index;
          if c \<noteq> 0 then puts_loop str (index + 1) (putc c s) else Some (index, s) }"

definition puts :: "rptr \<Rightarrow> kernel \<Rightarrow> (u32 \<times> kernel) option" where
  "puts str s = puts_loop str 0 s"

definition update_cursor :: "int \<Rightarrow> int \<Rightarrow> kernel \<Rightarrow> kernel" where
  "update_cursor x y s =
     (let pos = (word_of_int (y * NUM_COLS + x) :: u16) in
      if terminal_num s \<noteq> get_tty s then s
      else outb (ucast (drop_bit 8 pos AND 0xFF)) 0x3D5
             (outb 0xE 0x3D4 (outb (ucast (pos AND 0xFF)) 0x3D5 (outb 0xF 0x3D4 s))))"

definition reset_screen :: "kernel \<Rightarrow> kernel" where
  "reset_screen s =
     (let t = terminal_num s;
          s = s\<lparr>screen_x := (screen_x s)(t := 0), screen_y := (screen_y s)(t := 0)\<rparr>
      in update_cursor (screen_x s t) (screen_y s t) s)"

definition backspace_pressed :: "kernel \<Rightarrow> kernel" where
  "backspace_pressed s =
     (let t = terminal_num s;
          x = screen_x s t - 1; y = screen_y s t;
          (x', y') = (if x < 0 \<and> y = 0 then (x + 1, y)
                      else if x < 0 \<and> 0 < y then (x + NUM_COLS, y - 1)
                      else (x, y));
          b = video_mem s t; pos = NUM_COLS * y' + x';
          s = s\<lparr>screen_x := (screen_x s)(t := x'), screen_y := (screen_y s)(t := y'),
                mem := (mem s)(cell b (2 * pos) := 0x20, cell b (2 * pos + 1) := 0x7)\<rparr>
      in update_cursor (screen_x s t) (screen_y s t) s)"

definition check_out_of_bound :: "kernel \<Rightarrow> int" where
  "check_out_of_bound s =
     (let t = terminal_num s in
      if screen_y s t = NUM_ROWS - 1
      then if screen_x s t = NUM_COLS - 1 then 2 else 1
      else 0)"

definition scroll_cell :: "u32 \<Rightarrow> nat \<Rightarrow> nat \<Rightarrow> mem \<Rightarrow> mem" where
  "scroll_cell b y x m =
     (let m1 = m(cell b (2 * (NUM_COLS * (int y - 1) + int x)) := m (cell b (2 * (NUM_COLS * int y + int x))))
      in if y = 24 then m1(cell b (2 * (NUM_COLS * int y + int x)) := 0x20) else m1)"

definition scroll_screen :: "kernel \<Rightarrow> kernel" where
  "scroll_screen s =
     (let t = terminal_num s; b = video_mem s t
      in s\<lparr>mem := fold (\<lambda>y. fold (scroll_cell b y) [0..<80]) [1..<25] (mem s),
           screen_y := (screen_y s)(t := screen_y s t - 1)\<rparr>)"

section \<open>Cells and pages\<close>

lemma uint_cell_offset: "0 \<le> k \<Longrightarrow> k < 4294967296 \<Longrightarrow> uint (cell b k - b) = k"
  by (simp add: cell_def uint_word_of_int)

lemma cell_eq_iff: "0 \<le> k \<Longrightarrow> k < 4294967296 \<Longrightarrow> a = cell b k \<longleftrightarrow> uint (a - b) = k"
  by (metis (no_types, opaque_lifting) add.commute cell_def diff_add_cancel uint_cell_offset
      word_of_int_uint)

lemma cell_inj:
  "0 \<le> k \<Longrightarrow> k < 4294967296 \<Longrightarrow> 0 \<le> l \<Longrightarrow> l < 4294967296 \<Longrightarrow> cell b k = cell b l \<longleftrightarrow> k = l"
  by (simp add: cell_eq_iff uint_cell_offset)

text \<open>A page-aligned base, and that cells of different pages differ.\<close>

definition page_base :: "u32 \<Rightarrow> bool" where
  "page_base a \<longleftrightarrow> uint a mod 4096 = 0"

lemma page_baseE:
  assumes "page_base a"
  obtains q where "uint a = 4096 * q" "0 \<le> q" "q < 1048576"
proof -
  from assms obtain q where q: "uint a = 4096 * q"
    unfolding page_base_def by (metis dvdE mod_0_imp_dvd)
  moreover have "0 \<le> uint a" by simp
  moreover have "uint a < 4294967296" using uint_lt2p [of a] by simp
  ultimately show thesis using that by simp
qed

lemma uint_cell:
  assumes "page_base a" "0 \<le> k" "k < 4096"
  shows "uint (cell a k) = uint a + k"
proof -
  obtain q where "uint a = 4096 * q" "0 \<le> q" "q < 1048576" using assms(1) by (rule page_baseE)
  then have "0 \<le> uint a + k" "uint a + k < 4294967296" using assms(2,3) by linarith+
  then have "(uint a + k) mod 4294967296 = uint a + k" by (rule mod_pos_pos_trivial)
  then show ?thesis using assms by (simp add: cell_def uint_word_ariths uint_word_of_int)
qed

lemma cell_pages_neq:
  assumes "page_base a" "page_base b" "a \<noteq> b" "0 \<le> k" "k < 4096" "0 \<le> l" "l < 4096"
  shows "cell a k \<noteq> cell b l"
proof
  assume eq: "cell a k = cell b l"
  obtain q where q: "uint a = 4096 * q" using assms(1) by (rule page_baseE)
  obtain r where r: "uint b = 4096 * r" using assms(2) by (rule page_baseE)
  have "4096 * q + k = 4096 * r + l"
    using eq assms uint_cell [of a k] uint_cell [of b l] q r by simp
  then have "(4096 * q + k) div 4096 = (4096 * r + l) div 4096" by simp
  then have "q = r" using assms(4-7) by simp
  then show False using assms(3) q r by (metis word_uint_eqI)
qed

section \<open>Scrolling as one shift\<close>

text \<open>
  The two nested loops of \<^verbatim>\<open>scroll_screen\<close> visit the cells in address order, so they are
  one loop over the first 24 rows; its effect is a simultaneous shift by one row.
\<close>

definition scroll_linear :: "u32 \<Rightarrow> nat \<Rightarrow> mem \<Rightarrow> mem" where
  "scroll_linear b i m =
     (let m1 = m(cell b (2 * int i) := m (cell b (2 * int i + 160)))
      in if 1840 \<le> i then m1(cell b (2 * int i + 160) := 0x20) else m1)"

definition shifted :: "u32 \<Rightarrow> int \<Rightarrow> mem \<Rightarrow> mem" where
  "shifted b n m = (\<lambda>a. let off = uint (a - b) in
     if even off \<and> off < 2 * n then m (a + 160)
     else if even off \<and> 3840 \<le> off \<and> off < 2 * n + 160 then 0x20 else m a)"

lemma scroll_cell_linear:
  assumes "k < 24" "x < 80"
  shows "scroll_cell b (Suc k) x = scroll_linear b (80 * k + x)"
proof -
  have "Suc k = 24 \<longleftrightarrow> 1840 \<le> 80 * k + x" using assms by linarith
  moreover have "2 * (80 * int (Suc k) + int x) = 2 * int (80 * k + x) + 160" by simp
  moreover have "2 * (80 * (int (Suc k) - 1) + int x) = 2 * int (80 * k + x)" by simp
  ultimately show ?thesis unfolding scroll_cell_def scroll_linear_def by presburger
qed

lemma scroll_row_linear:
  assumes "k < 24"
  shows "fold (scroll_cell b (Suc k)) [0..<80] m = fold (scroll_linear b) [80 * k..<80 * Suc k] m"
proof -
  have "[80 * k..<80 * Suc k] = map (\<lambda>x. x + 80 * k) [0..<80]"
    by (simp add: map_add_upt add.commute)
  then have "fold (scroll_linear b) [80 * k..<80 * Suc k] m
      = fold (\<lambda>x. scroll_linear b (80 * k + x)) [0..<80] m"
    by (simp add: fold_map comp_def add.commute)
  also have "\<dots> = fold (scroll_cell b (Suc k)) [0..<80] m"
    using assms by (intro fold_cong) (auto simp: scroll_cell_linear)
  finally show ?thesis by simp
qed

lemma scroll_rows_linear:
  "k \<le> 24 \<Longrightarrow> fold (\<lambda>y. fold (scroll_cell b y) [0..<80]) [1..<Suc k] m
     = fold (scroll_linear b) [0..<80 * k] m"
proof (induction k)
  case (Suc k)
  have "[0..<80 * Suc k] = [0..<80 * k] @ [80 * k..<80 * Suc k]"
    using upt_add_eq_append [of 0 "80 * k" 80] by (simp add: add.commute)
  with Suc show ?case by (simp add: scroll_row_linear [of k] del: upt_Suc_append add: upt_Suc_append)
qed simp

lemma cell_plus_160: "cell b k + 160 = cell b (k + 160)"
  by (simp add: cell_def)

lemma scroll_linear_shifted:
  assumes "n < 1920"
  shows "scroll_linear b n (shifted b (int n) m) = shifted b (int (Suc n)) m"
proof
  fix a
  let ?M = "shifted b (int n) m" and ?off = "uint (a - b)"
  have src: "?M (cell b (2 * int n + 160)) = m (cell b (2 * int n + 160))"
    using assms by (simp add: shifted_def uint_cell_offset)
  have d: "a = cell b (2 * int n) \<longleftrightarrow> ?off = 2 * int n"
    and e: "a = cell b (2 * int n + 160) \<longleftrightarrow> ?off = 2 * int n + 160"
    using assms by (simp_all add: cell_eq_iff)
  have below: "even ?off \<and> ?off < 2 * int (Suc n) \<longleftrightarrow> even ?off \<and> ?off < 2 * int n \<or> ?off = 2 * int n"
    by presburger
  have last: "even ?off \<and> ?off < 2 * int (Suc n) + 160 \<longleftrightarrow>
      even ?off \<and> ?off < 2 * int n + 160 \<or> ?off = 2 * int n + 160"
    by presburger
  consider "?off = 2 * int n" | "?off = 2 * int n + 160" | "?off \<noteq> 2 * int n" "?off \<noteq> 2 * int n + 160"
    by blast
  then show "scroll_linear b n ?M a = shifted b (int (Suc n)) m a"
  proof cases
    case 1
    then have "a = cell b (2 * int n)" using d by simp
    moreover have "a \<noteq> cell b (2 * int n + 160)" using e 1 by simp
    ultimately show ?thesis
      using src 1 by (simp add: scroll_linear_def shifted_def Let_def cell_plus_160)
  next
    case 2
    then show ?thesis using src d e assms
      by (simp add: scroll_linear_def Let_def) (simp add: shifted_def)
  next
    case 3
    then have "scroll_linear b n ?M a = ?M a" using d e by (simp add: scroll_linear_def Let_def)
    with 3 below last show ?thesis by (auto simp: shifted_def Let_def)
  qed
qed

lemma shifted_0: "shifted b 0 m = m"
  by (auto simp: shifted_def fun_eq_iff Let_def)

lemma scroll_fold_shifted: "n \<le> 1920 \<Longrightarrow> fold (scroll_linear b) [0..<n] m = shifted b (int n) m"
  by (induction n) (simp_all add: shifted_0 scroll_linear_shifted del: of_nat_Suc)

lemma scroll_screen_eq:
  "scroll_screen s = s\<lparr>mem := shifted (video_mem s (terminal_num s)) 1920 (mem s),
     screen_y := (screen_y s)(terminal_num s := screen_y s (terminal_num s) - 1)\<rparr>"
  using scroll_rows_linear [of 24] scroll_fold_shifted [of 1920]
  by (simp add: scroll_screen_def Let_def)

section \<open>What an operation may touch\<close>

text \<open>
  \<open>confined b m m'\<close>: \<open>m'\<close> differs from \<open>m\<close> only in the 4 KB that start at \<open>b\<close>.
  \<open>cursor_ok s t\<close>: terminal \<open>t\<close>'s cursor is on the screen.
\<close>

definition confined :: "u32 \<Rightarrow> mem \<Rightarrow> mem \<Rightarrow> bool" where
  "confined b m m' \<longleftrightarrow> (\<forall>a. 4096 \<le> uint (a - b) \<longrightarrow> m' a = m a)"

definition cursor_ok :: "kernel \<Rightarrow> nat \<Rightarrow> bool" where
  "cursor_ok s t \<longleftrightarrow> 0 \<le> screen_x s t \<and> screen_x s t < NUM_COLS \<and>
                    0 \<le> screen_y s t \<and> screen_y s t < NUM_ROWS"

definition char_at :: "kernel \<Rightarrow> nat \<Rightarrow> int \<Rightarrow> int \<Rightarrow> u8" where
  "char_at s t x y = mem s (cell (video_mem s t) (2 * (NUM_COLS * y + x)))"

lemma confined_refl [simp]: "confined b m m"
  by (simp add: confined_def)

lemma confined_trans: "confined b m m' \<Longrightarrow> confined b m' m'' \<Longrightarrow> confined b m m''"
  by (simp add: confined_def)

lemma confined_upd:
  "confined b m m' \<Longrightarrow> 0 \<le> k \<Longrightarrow> k < 4096 \<Longrightarrow> confined b m (m'(cell b k := v))"
  by (auto simp: confined_def uint_cell_offset)

lemma confined_fold:
  "(\<And>i m. i \<in> set xs \<Longrightarrow> confined b m (f i m)) \<Longrightarrow> confined b m (fold f xs m)"
proof (induction xs arbitrary: m)
  case (Cons i xs)
  then have "confined b m (f i m)" "confined b (f i m) (fold f xs (f i m))" by simp_all
  then show ?case by (auto intro: confined_trans)
qed simp

lemma confined_other_page:
  assumes "confined b m m'" "page_base b" "page_base b'" "b' \<noteq> b" "0 \<le> k" "k < 4096"
  shows "m' (cell b' k) = m (cell b' k)"
proof -
  have "4096 \<le> uint (cell b' k - b)"
  proof (rule ccontr)
    assume "\<not> 4096 \<le> uint (cell b' k - b)"
    then have "uint (cell b' k - b) < 4096" by simp
    moreover have "cell b' k = cell b (uint (cell b' k - b))"
      by (simp add: cell_def [of b])
    ultimately show False
      using cell_pages_neq [of b' b k "uint (cell b' k - b)"] assms by auto
  qed
  then show ?thesis using assms(1) by (simp add: confined_def)
qed

lemma confined_outside: "confined b m m' \<Longrightarrow> 4096 \<le> uint (a - b) \<Longrightarrow> m' a = m a"
  by (simp add: confined_def)

lemma c_div_mod: "0 \<le> x \<Longrightarrow> 0 < n \<Longrightarrow> x sdiv n = x div n \<and> x smod n = x mod (n :: int)"
  by (simp add: signed_divide_int_def signed_modulo_int_def sgn_if minus_mult_div_eq_mod mult.commute)

lemma putc_terminal_num [simp, frame_simps]: "terminal_num (putc c s) = terminal_num s"
  and putc_video_mem [simp, frame_simps]: "video_mem (putc c s) = video_mem s"
  and putc_pcbs [simp, frame_simps]: "pcbs (putc c s) = pcbs s"
  and putc_current_pid [simp, frame_simps]: "current_pid (putc c s) = current_pid s"
  by (simp_all add: putc_def Let_def)

lemma scroll_terminal_num [simp, frame_simps]: "terminal_num (scroll_screen s) = terminal_num s"
  and scroll_video_mem [simp, frame_simps]: "video_mem (scroll_screen s) = video_mem s"
  and scroll_pcbs [simp, frame_simps]: "pcbs (scroll_screen s) = pcbs s"
  and scroll_current_pid [simp, frame_simps]: "current_pid (scroll_screen s) = current_pid s"
  and scroll_screen_x [simp, frame_simps]: "screen_x (scroll_screen s) = screen_x s"
  by (simp_all add: scroll_screen_def Let_def)

lemma update_cursor_frame [simp, frame_simps]:
  "mem (update_cursor x y s) = mem s" "terminal_num (update_cursor x y s) = terminal_num s"
  "video_mem (update_cursor x y s) = video_mem s" "pcbs (update_cursor x y s) = pcbs s"
  "screen_x (update_cursor x y s) = screen_x s" "screen_y (update_cursor x y s) = screen_y s"
  "current_pid (update_cursor x y s) = current_pid s" "PT1 (update_cursor x y s) = PT1 s"
  "PDT (update_cursor x y s) = PDT s" "PT0 (update_cursor x y s) = PT0 s"
  "buf_index (update_cursor x y s) = buf_index s" "char_buf (update_cursor x y s) = char_buf s"
  "command_buf (update_cursor x y s) = command_buf s" "t_enter_flag (update_cursor x y s) = t_enter_flag s"
  "pid_flags (update_cursor x y s) = pid_flags s" "execute_pid (update_cursor x y s) = execute_pid s"
  "fs_start (update_cursor x y s) = fs_start s" "rtc_interrupt_occured (update_cursor x y s) = rtc_interrupt_occured s"
  "pit_terminal_num (update_cursor x y s) = pit_terminal_num s"
  "terminals_initialized (update_cursor x y s) = terminals_initialized s"
  "esp (update_cursor x y s) = esp s" "ebp (update_cursor x y s) = ebp s" "tss_esp0 (update_cursor x y s) = tss_esp0 s"
  by (simp_all add: update_cursor_def outb_def Let_def)

lemma putc_confined:
  assumes "cursor_ok s (terminal_num s)"
  shows "confined (video_mem s (terminal_num s)) (mem s) (mem (putc c s))"
  using assms unfolding putc_def cursor_ok_def Let_def by (auto intro!: confined_upd)

lemma scroll_confined: "confined (video_mem s (terminal_num s)) (mem s) (mem (scroll_screen s))"
proof -
  have "shifted b 1920 m a = m a" if "4096 \<le> uint (a - b)" for b m a
    using that by (simp add: shifted_def)
  then show ?thesis by (simp add: scroll_screen_eq confined_def)
qed

lemma clear_confined: "confined (video_mem s (terminal_num s)) (mem s) (mem (clear s))"
  unfolding clear_def Let_def by (auto intro!: confined_fold confined_upd)

lemma putc_newline:
  "c = 0x0A \<or> c = 0x0D \<Longrightarrow>
   putc c s = s\<lparr>screen_y := (screen_y s)(terminal_num s := screen_y s (terminal_num s) + 1),
                screen_x := (screen_x s)(terminal_num s := 0)\<rparr>"
  by (auto simp: putc_def Let_def)

lemma putc_screen_xy:
  assumes "cursor_ok s (terminal_num s)" "c \<noteq> 0x0A" "c \<noteq> 0x0D"
  shows "screen_x (putc c s) (terminal_num s) = (screen_x s (terminal_num s) + 1) mod 80"
    and "screen_y (putc c s) (terminal_num s) =
           (screen_y s (terminal_num s) + (screen_x s (terminal_num s) + 1) div 80) mod 25"
proof -
  let ?x = "screen_x s (terminal_num s)" and ?y = "screen_y s (terminal_num s)"
  have d: "(?x + 1) sdiv 80 = (?x + 1) div 80" "(?x + 1) smod 80 = (?x + 1) mod 80"
    using assms by (simp_all add: cursor_ok_def c_div_mod)
  have "0 \<le> (?x + 1) div 80" using assms by (simp add: cursor_ok_def pos_imp_zdiv_nonneg_iff)
  then have "0 \<le> ?y + (?x + 1) div 80" using assms by (simp add: cursor_ok_def)
  then have m: "(?y + (?x + 1) div 80) smod 25 = (?y + (?x + 1) div 80) mod 25"
    by (simp add: c_div_mod)
  show "screen_x (putc c s) (terminal_num s) = (?x + 1) mod 80"
    and "screen_y (putc c s) (terminal_num s) = (?y + (?x + 1) div 80) mod 25"
    using assms d m by (simp_all add: putc_def Let_def)
qed

lemma pos_eq:
  assumes "0 \<le> x" "x < 80" "0 \<le> x'" "x' < 80"
  shows "80 * y + x = 80 * y' + x' \<longleftrightarrow> x = x' \<and> y = (y' :: int)"
proof
  assume eq: "80 * y + x = 80 * y' + x'"
  then have "(80 * y + x) div 80 = (80 * y' + x') div 80" by simp
  with assms have "y = y'" by simp
  with eq show "x = x' \<and> y = y'" by simp
qed simp

lemma even_neq_odd: "2 * (a :: int) \<noteq> 2 * b + 1"
  by presburger

lemma char_plane_upd:
  assumes "0 \<le> p" "p < 2000" "0 \<le> q" "q < 2000"
  shows "(m(cell b (2 * p) := c, cell b (2 * p + 1) := k, cell b (2 * (p + 1) + 1) := k))
           (cell b (2 * q)) = (if q = p then c else m (cell b (2 * q)))"
proof -
  have "cell b (2 * q) \<noteq> cell b (2 * p + 1)" "cell b (2 * q) \<noteq> cell b (2 * (p + 1) + 1)"
    using assms even_neq_odd [of q p] even_neq_odd [of q "p + 1"] by (simp_all add: cell_inj)
  then show ?thesis using assms by (simp add: cell_inj)
qed

lemma char_at_putc:
  assumes "cursor_ok s (terminal_num s)" "c \<noteq> 0x0A" "c \<noteq> 0x0D"
    and "0 \<le> x" "x < 80" "0 \<le> y" "y < 25"
  shows "char_at (putc c s) (terminal_num s) x y =
    (if x = screen_x s (terminal_num s) \<and> y = screen_y s (terminal_num s) then c
     else char_at s (terminal_num s) x y)"
proof -
  let ?t = "terminal_num s"
  let ?p = "80 * screen_y s ?t + screen_x s ?t"
  have b: "0 \<le> ?p" "?p < 2000" using assms(1) by (simp_all add: cursor_ok_def)
  have same: "80 * y + x = ?p \<longleftrightarrow> x = screen_x s ?t \<and> y = screen_y s ?t"
    using pos_eq [of x "screen_x s ?t" y "screen_y s ?t"] assms by (simp add: cursor_ok_def)
  have "char_at (putc c s) ?t x y = (if 80 * y + x = ?p then c else char_at s ?t x y)"
    using char_plane_upd [OF b, of "80 * y + x" "mem s" "video_mem s ?t" c] assms(2-7)
    by (simp add: char_at_def putc_def Let_def)
  then show ?thesis unfolding same .
qed

lemma char_at_scroll:
  assumes "0 \<le> x" "x < 80" "0 \<le> y" "y < 25"
  shows "char_at (scroll_screen s) (terminal_num s) x y =
    (if y < 24 then char_at s (terminal_num s) x (y + 1) else 0x20)"
proof -
  let ?b = "video_mem s (terminal_num s)" and ?k = "2 * (80 * y + x)"
  have "uint (cell ?b ?k - ?b) = ?k" using assms by (simp add: uint_cell_offset)
  then have "shifted ?b 1920 (mem s) (cell ?b ?k) =
      (if ?k < 3840 then mem s (cell ?b ?k + 160) else 0x20)"
    using assms by (simp add: shifted_def Let_def)
  moreover have "?k < 3840 \<longleftrightarrow> y < 24" using assms by auto
  moreover have "cell ?b ?k + 160 = cell ?b (2 * (80 * (y + 1) + x))" unfolding cell_plus_160 by (simp add: algebra_simps)
  ultimately show ?thesis unfolding char_at_def scroll_screen_eq by simp
qed

lemma backspace_cursor_ok:
  "cursor_ok s t \<Longrightarrow> cursor_ok (backspace_pressed s) t"
  by (auto simp: backspace_pressed_def cursor_ok_def update_cursor_def outb_def Let_def)

end
