(* ===== verification/Printf.thy ===== *)
theory Printf
  imports Console
begin

text \<open>
  \<^verbatim>\<open>printf\<close> of \<^verbatim>\<open>student-distrib/lib.c\<close>. The variadic arguments are the 32-bit words on the
  stack; \<^verbatim>\<open>%s\<close> reads its word as an address. \<open>None\<close> is an access outside an array (or the
  argument words) or a loop that does not return.
\<close>

section \<open>Operations\<close>

partial_function (option) skip_hash :: "rptr \<Rightarrow> u32 \<Rightarrow> bool \<Rightarrow> (u8 \<times> u32 \<times> bool) option" where
  "skip_hash fmt buf alternate =
     do { c \<leftarrow> fmt buf;
          if c = 0x23 then skip_hash fmt (buf + 1) True else Some (c, buf, alternate) }"

text \<open>
  The conversions. The local \<^verbatim>\<open>conv_buf\<close> arrays are uninitialised in C; only bytes that
  \<^verbatim>\<open>itoa\<close> has written are read, so their initial contents do not matter.
\<close>

fun printf_conv :: "bool \<Rightarrow> u8 \<Rightarrow> u32 list \<Rightarrow> kernel \<Rightarrow> (u32 list \<times> kernel) option" where
  "printf_conv alternate c [] s =
     (if c = 0x25 then Some ([], putc 0x25 s)
      else if c \<in> {0x78, 0x75, 0x64, 0x63, 0x73} then None
      else Some ([], s))"
| "printf_conv alternate c (v # vargs) s =
     (if c = 0x25 then Some (v # vargs, putc 0x25 s)
      else if c = 0x78 then
        (if \<not> alternate
         then do { conv_buf \<leftarrow> itoa v (replicate 64 0) 16;
                   (n, s') \<leftarrow> puts (arr_ptr conv_buf) s;
                   Some (vargs, s') }
         else do { hex \<leftarrow> itoa v (replicate 56 0) 16;
                   starting_index \<leftarrow> strlen (arr_ptr hex);
                   let conv_buf = fold (\<lambda>i b. b[i := 0x30]) [unat starting_index..<8]
                                    (replicate 8 0 @ hex);
                   (n, s') \<leftarrow> puts (arr_ptr (drop (unat starting_index) conv_buf)) s;
                   Some (vargs, s') })
      else if c = 0x75 then
        do { conv_buf \<leftarrow> itoa v (replicate 36 0) 10;
             (n, s') \<leftarrow> puts (arr_ptr conv_buf) s;
             Some (vargs, s') }
      else if c = 0x64 then
        (if sint v < 0
         then do { dec \<leftarrow> itoa (- v) (replicate 35 0) 10;
                   (n, s') \<leftarrow> puts (arr_ptr (0x2D # dec)) s;
                   Some (vargs, s') }
         else do { conv_buf \<leftarrow> itoa v (replicate 36 0) 10;
                   (n, s') \<leftarrow> puts (arr_ptr conv_buf) s;
                   Some (vargs, s') })
      else if c = 0x63 then Some (vargs, putc (ucast v) s)
      else if c = 0x73 then
        do { (n, s') \<leftarrow> puts (mem_ptr (mem s) v) s; Some (vargs, s') }
      else Some (v # vargs, s))"

partial_function (option) printf_loop ::
    "rptr \<Rightarrow> u32 \<Rightarrow> u32 list \<Rightarrow> kernel \<Rightarrow> (u32 \<times> kernel) option" where
  "printf_loop fmt buf vargs s =
     do { c \<leftarrow> fmt buf;
          if c = 0 then Some (buf, s)
          else if c = 0x25
          then do { r \<leftarrow> skip_hash fmt (buf + 1) False;
                    q \<leftarrow> printf_conv (snd (snd r)) (fst r) vargs s;
                    printf_loop fmt (fst (snd r) + 1) (fst q) (snd q) }
          else printf_loop fmt (buf + 1) vargs (putc c s) }"

definition printf :: "rptr \<Rightarrow> u32 list \<Rightarrow> kernel \<Rightarrow> (u32 \<times> kernel) option" where
  "printf format vargs s =
     printf_loop format 0 vargs (if check_out_of_bound s \<noteq> 0 then scroll_screen s else s)"

text \<open>A message printed from a string literal of the source.\<close>

definition kprintf :: "u8 list \<Rightarrow> u32 list \<Rightarrow> kernel \<Rightarrow> kernel option" where
  "kprintf msg vargs s = map_option snd (printf (arr_ptr (msg @ [0])) vargs s)"

section \<open>Output of a string\<close>

definition out_text :: "u8 list \<Rightarrow> kernel \<Rightarrow> kernel" where
  "out_text xs s = fold putc xs s"

lemma puts_loop_cstr:
  "cstr str xs \<Longrightarrow> k \<le> length xs \<Longrightarrow>
   puts_loop str (of_nat k) s = Some (of_nat (length xs), out_text (drop k xs) s)"
proof (induction "length xs - k" arbitrary: k s)
  case 0
  then have "k = length xs" by simp
  then show ?case using cstr_nul [OF 0(2)] by (subst puts_loop.simps) (simp add: out_text_def)
next
  case (Suc d)
  then have k: "k < length xs" by simp
  have "puts_loop str (of_nat (Suc k)) (putc (xs ! k) s) =
      Some (of_nat (length xs), out_text (drop (Suc k) xs) (putc (xs ! k) s))"
    using Suc by (intro Suc.hyps(1)) simp_all
  then show ?case
    using cstr_char [OF Suc.prems(1) k] k
    by (subst puts_loop.simps)
       (simp add: add.commute out_text_def Cons_nth_drop_Suc [symmetric])
qed

lemma puts_cstr: "cstr str xs \<Longrightarrow> puts str s = Some (of_nat (length xs), out_text xs s)"
  using puts_loop_cstr [of str xs 0 s] by (simp add: puts_def)

lemma printf_loop_plain:
  "cstr fmt xs \<Longrightarrow> 0x25 \<notin> set xs \<Longrightarrow> k \<le> length xs \<Longrightarrow>
   printf_loop fmt (of_nat k) vargs s = Some (of_nat (length xs), out_text (drop k xs) s)"
proof (induction "length xs - k" arbitrary: k s)
  case 0
  then have "k = length xs" by simp
  then show ?case using cstr_nul [OF 0(2)] by (subst printf_loop.simps) (simp add: out_text_def)
next
  case (Suc d)
  then have k: "k < length xs" by simp
  then have "xs ! k \<noteq> 0x25" using Suc.prems(2) nth_mem by metis
  moreover have "printf_loop fmt (of_nat (Suc k)) vargs (putc (xs ! k) s) =
      Some (of_nat (length xs), out_text (drop (Suc k) xs) (putc (xs ! k) s))"
    using Suc by (intro Suc.hyps(1)) simp_all
  ultimately show ?case
    using cstr_char [OF Suc.prems(1) k] k
    by (subst printf_loop.simps)
       (simp add: add.commute out_text_def Cons_nth_drop_Suc [symmetric])
qed

section \<open>Number conversions\<close>

lemma digit_chars:
  assumes "2 \<le> r" "r \<le> 36"
  shows "0 \<notin> set (map dig (digits r n))"
proof -
  have "\<forall>d \<in> set (digits r n). dig d \<noteq> 0"
    using digits_less [OF assms(1), of n] assms(2) dig_nonzero by (meson less_le_trans)
  then show ?thesis by force
qed

lemma digits_u32_length:
  assumes "4294967296 \<le> r ^ k" "2 \<le> r" "0 < k"
  shows "length (digits r (unat (v :: u32))) \<le> k"
  by (rule digits_length) (use assms unat_less_u32 [of v] in simp_all)

lemma puts_itoa:
  assumes "2 \<le> unat r" "unat r \<le> 36" "4294967296 \<le> unat r ^ k" "0 < k" "k < n"
  shows "\<exists>b. itoa v (replicate n 0) r = Some b \<and>
    puts (arr_ptr b) s = Some (of_nat (length (digits (unat r) (unat v))),
      out_text (map dig (digits (unat r) (unat v))) s)"
proof -
  let ?ds = "map dig (digits (unat r) (unat v))"
  have len: "length ?ds \<le> k" using digits_u32_length [OF assms(3) assms(1,4)] by simp
  have "unat v < unat r ^ 32" using power_mono [of 2 "unat r" 32] assms(1) unat_less_u32 [of v] by simp
  then have "length ?ds < 4294967296" using digits_length [of "unat r" 32 "unat v"] assms(1) by simp
  moreover have "itoa v (replicate n 0) r = Some (?ds @ 0 # drop (Suc (length ?ds)) (replicate n 0))"
    using itoa_spec [OF assms(1,2), of v "replicate n 0"] len assms(5) by simp
  ultimately show ?thesis
    using puts_cstr [OF cstr_arr_ptr [OF digit_chars [OF assms(1,2)]]] by fastforce
qed

lemma fold_set_range:
  "l \<le> n \<Longrightarrow> n \<le> length xs \<Longrightarrow>
   fold (\<lambda>i b. b[i := c]) [l..<n] xs = take l xs @ replicate (n - l) c @ drop n xs"
proof (induction n)
  case (Suc n)
  show ?case
  proof (cases "l = Suc n")
    case False
    with Suc have ln: "l \<le> n" and "n < length xs" by simp_all
    then obtain y ys where drop: "drop n xs = y # ys"
      by (metis Cons_nth_drop_Suc)
    then have ys: "drop (Suc n) xs = ys" by (metis drop_Suc list.sel(3) tl_drop)
    let ?p = "take l xs @ replicate (n - l) c"
    have "length ?p = n" using ln \<open>n < length xs\<close> by simp
    then have "(?p @ y # ys)[n := c] = ?p @ c # ys" by (metis list_update_at_length)
    moreover have "replicate (Suc n - l) c = replicate (n - l) c @ [c]"
      using ln by (simp add: Suc_diff_le replicate_append_same)
    ultimately show ?thesis using Suc ln drop ys by (simp add: \<open>n < length xs\<close>)
  qed simp
qed simp

lemma printf_hex_alternate:
  defines "hex \<equiv> \<lambda>v. map dig (digits 16 (unat (v :: u32)))"
  shows "printf_conv True 0x78 (v # vargs) s =
    Some (vargs, out_text (replicate (8 - length (hex v)) 0x30 @ hex v) s)"
proof -
  let ?h = "hex v"
  have len: "length ?h \<le> 8" unfolding hex_def using digits_u32_length [of 16 8 v] by simp
  have nz: "0 \<notin> set ?h" unfolding hex_def by (rule digit_chars) simp_all
  let ?b = "?h @ 0 # drop (Suc (length ?h)) (replicate 56 0)"
  have itoa: "itoa v (replicate 56 0) 16 = Some ?b"
    using itoa_spec [of 16 v "replicate 56 0"] len by (simp add: hex_def)
  have strlen: "strlen (arr_ptr ?b) = Some (of_nat (length ?h))"
    using len by (intro strlen_cstr cstr_arr_ptr nz) simp
  have idx: "unat (of_nat (length ?h) :: u32) = length ?h" using len by (simp add: unat_of_nat_u32)
  have "fold (\<lambda>i b. b[i := 0x30]) [length ?h..<8] (replicate 8 0 @ ?b) =
      take (length ?h) (replicate 8 0) @ replicate (8 - length ?h) 0x30 @ ?b"
    using fold_set_range [of "length ?h" 8 "replicate 8 0 @ ?b"] len by simp
  then have buf: "drop (length ?h) (fold (\<lambda>i b. b[i := 0x30]) [length ?h..<8] (replicate 8 0 @ ?b)) =
      (replicate (8 - length ?h) 0x30 @ ?h) @ 0 # drop (Suc (length ?h)) (replicate 56 0)"
    using len by simp
  have "puts (arr_ptr ((replicate (8 - length ?h) 0x30 @ ?h) @ 0 # drop (Suc (length ?h)) (replicate 56 0))) s
      = Some (of_nat (length (replicate (8 - length ?h) 0x30 @ ?h)),
          out_text (replicate (8 - length ?h) 0x30 @ ?h) s)"
    using nz len by (intro puts_cstr cstr_arr_ptr) auto
  with itoa strlen idx buf show ?thesis by simp
qed

lemma number_zeros: "number r (replicate k 0x30 @ cs) = number r cs"
proof -
  have "foldl (\<lambda>acc c. acc * r + undig c) 0 (replicate k 0x30) = 0"
    by (induction k) (simp_all add: undig_def)
  then show ?thesis by (simp add: number_def)
qed

section \<open>A reference formatter\<close>

text \<open>
  The text a format stands for, without \<^verbatim>\<open>%s\<close>: \<open>None\<close> if an argument is missing or the format ends
  inside a conversion.
\<close>

definition number_text :: "nat \<Rightarrow> u32 \<Rightarrow> u8 list" where
  "number_text r v = map dig (digits r (unat v))"

definition conv_text :: "bool \<Rightarrow> u8 \<Rightarrow> u32 list \<Rightarrow> (u8 list \<times> u32 list) option" where
  "conv_text alternate d vs =
     (if d = 0x25 then Some ([0x25], vs)
      else if d = 0x73 then None
      else if d \<notin> {0x78, 0x75, 0x64, 0x63} then Some ([], vs)
      else case vs of
             [] \<Rightarrow> None
           | v # vs \<Rightarrow>
               Some (if d = 0x78 then if alternate then replicate (8 - length (number_text 16 v)) 0x30 @ number_text 16 v
                                      else number_text 16 v
                     else if d = 0x75 then number_text 10 v
                     else if d = 0x64 then if sint v < 0 then 0x2D # number_text 10 (- v) else number_text 10 v
                     else [ucast v], vs))"

function render :: "u8 list \<Rightarrow> u32 list \<Rightarrow> u8 list option" where
  "render [] vs = Some []"
| "render (c # cs) vs =
     (if c \<noteq> 0x25 then map_option ((#) c) (render cs vs)
      else case dropWhile (\<lambda>d. d = 0x23) cs of
             [] \<Rightarrow> None
           | d # ds \<Rightarrow> do { (out, vs') \<leftarrow> conv_text (hd cs = 0x23) d vs;
                            rest \<leftarrow> render ds vs'; Some (out @ rest) })"
  by pat_completeness auto
termination
proof (relation "measure (length \<circ> fst)")
  fix c and cs ds :: "u8 list" and vs vs' :: "u32 list" and d and x :: "u8 list \<times> u32 list" and y
  assume "dropWhile (\<lambda>d. d = 0x23) cs = d # ds"
  then have "length (d # ds) \<le> length cs" by (metis length_dropWhile_le)
  then show "((ds, vs'), c # cs, vs) \<in> measure (length \<circ> fst)" by simp
qed auto

lemma out_text_append: "out_text (xs @ ys) s = out_text ys (out_text xs s)"
  by (simp add: out_text_def)

lemma printf_number:
  assumes "r = 10 \<or> r = 16" "10 < n"
  shows "\<exists>b. itoa v (replicate n 0) r = Some b \<and>
    puts (arr_ptr b) s = Some (of_nat (length (number_text (unat r) v)), out_text (number_text (unat r) v) s)"
  using puts_itoa [of r 10 n v s] assms by (auto simp: number_text_def)

lemma printf_negative:
  "\<exists>b. itoa v (replicate 35 0) 10 = Some b \<and>
     puts (arr_ptr (0x2D # b)) s = Some (of_nat (length (0x2D # number_text 10 v)), out_text (0x2D # number_text 10 v) s)"
proof -
  let ?ds = "map dig (digits 10 (unat v))"
  have len: "length ?ds \<le> 10" using digits_u32_length [of 10 10 v] by simp
  have nz: "0 \<notin> set (0x2D # ?ds)" using digit_chars [of 10 "unat v"] by simp
  have "itoa v (replicate 35 0) 10 = Some (?ds @ 0 # drop (Suc (length ?ds)) (replicate 35 0))"
    using itoa_spec [of 10 v "replicate 35 0"] len by simp
  then show ?thesis
    using puts_cstr [OF cstr_arr_ptr [OF nz, of "drop (Suc (length ?ds)) (replicate 35 0)"], of s] len
    by (simp add: number_text_def)
qed

lemma printf_conv_text:
  assumes "conv_text alternate d vs = Some (out, vs')"
  shows "printf_conv alternate d vs s = Some (vs', out_text out s)"
proof (cases "d \<in> {0x78, 0x75, 0x64, 0x63}")
  case False
  then show ?thesis using assms by (cases vs) (auto simp: conv_text_def out_text_def split: if_splits)
next
  case True
  then obtain v where vs: "vs = v # vs'" using assms by (auto simp: conv_text_def split: list.splits)
  have hex: "printf_conv True 0x78 (v # vs') s = Some (vs', out_text (replicate (8 - length (number_text 16 v)) 0x30 @ number_text 16 v) s)"
    unfolding number_text_def by (rule printf_hex_alternate)
  show ?thesis
    using True assms hex printf_number [of 16 64 v s] printf_number [of 10 36 v s] printf_negative [of "- v" s]
    unfolding vs conv_text_def by (cases alternate) (auto simp: out_text_def [of "[_]"])
qed

lemma cstr_at:
  assumes "cstr fmt (pre @ c # cs)"
  shows "fmt (of_nat (length pre)) = Some c"
  using cstr_char [OF assms, of "length pre"] by simp

lemma skip_hash_spec:
  "cstr fmt (pre @ replicate n 0x23 @ d # ds) \<Longrightarrow> d \<noteq> 0x23 \<Longrightarrow>
   skip_hash fmt (of_nat (length pre)) alternate = Some (d, of_nat (length pre + n), alternate \<or> 0 < n)"
proof (induction n arbitrary: pre alternate)
  case 0
  then show ?case using cstr_at [of fmt pre d ds] by (subst skip_hash.simps) simp
next
  case (Suc n)
  have c: "fmt (of_nat (length pre)) = Some 0x23"
    using cstr_at [of fmt pre "0x23" "replicate n 0x23 @ d # ds"] Suc.prems by simp
  have "skip_hash fmt (of_nat (length (pre @ [0x23]))) True = Some (d, of_nat (length (pre @ [0x23]) + n), True \<or> 0 < n)"
    using Suc.prems by (intro Suc.IH) simp_all
  then show ?case using c by (subst skip_hash.simps) (simp add: add.commute)
qed

lemma printf_loop_render:
  "cstr fmt (pre @ xs) \<Longrightarrow> render xs vs = Some out \<Longrightarrow>
   printf_loop fmt (of_nat (length pre)) vs s = Some (of_nat (length (pre @ xs)), out_text out s)"
proof (induction xs vs arbitrary: pre out s rule: render.induct)
  case (1 vs)
  then show ?case using cstr_nul [of fmt pre] by (subst printf_loop.simps) (simp add: out_text_def)
next
  case (2 c cs vs)
  have c: "fmt (of_nat (length pre)) = Some c" "c \<noteq> 0"
    using cstr_at [OF 2(3)] 2(3) by (auto simp: cstr_def)
  show ?case
  proof (cases "c = 0x25")
    case False
    then obtain t where t: "render cs vs = Some t" "out = c # t" using 2(4) by auto
    then have "printf_loop fmt (of_nat (length (pre @ [c]))) vs (putc c s) =
        Some (of_nat (length ((pre @ [c]) @ cs)), out_text t (putc c s))"
      using 2(1) [OF False, of "pre @ [c]" t] 2(3) by simp
    then show ?thesis using c False t by (subst printf_loop.simps) (simp add: out_text_def add.commute)
  next
    case True
    then obtain d ds where d: "dropWhile (\<lambda>d. d = 0x23) cs = d # ds"
      using 2(4) by (auto split: list.splits)
    define n where "n = length (takeWhile (\<lambda>d. d = 0x23) cs)"
    have tw: "takeWhile (\<lambda>d. d = 0x23) cs = replicate n 0x23"
      unfolding n_def by (rule replicate_eqI) (auto dest: set_takeWhileD)
    then have cs: "cs = replicate n 0x23 @ d # ds" using d takeWhile_dropWhile_id [of "\<lambda>d. d = 0x23" cs] by simp
    have dn: "d \<noteq> 0x23" using d by (simp add: dropWhile_eq_Cons_conv)
    obtain t1 vs' t2 where t: "conv_text (hd cs = 0x23) d vs = Some (t1, vs')" "render ds vs' = Some t2" "out = t1 @ t2"
      using 2(4) True d by (auto split: Option.bind_splits)
    have hd: "(hd cs = 0x23) = (0 < n)" using dn by (cases n) (simp_all add: cs)
    let ?pre = "pre @ [c] @ replicate n 0x23 @ [d]"
    have skip: "skip_hash fmt (of_nat (length (pre @ [c]))) False = Some (d, of_nat (length (pre @ [c]) + n), 0 < n)"
      using skip_hash_spec [of fmt "pre @ [c]" n d ds False] 2(3) dn by (simp add: cs)
    have "printf_loop fmt (of_nat (length ?pre)) vs' (out_text t1 s) = Some (of_nat (length (?pre @ ds)), out_text t2 (out_text t1 s))"
      using 2(2) [of d ds "(t1, vs')" t1 vs' ?pre t2] True d t(1,2) 2(3) by (simp add: cs)
    then show ?thesis
      using c True skip printf_conv_text [OF t(1), of s, unfolded hd]
      by (subst printf_loop.simps) (simp add: t(3) cs out_text_append add.commute add.left_commute)
  qed
qed

lemma printf_render:
  assumes "cstr fmt xs" "render xs vs = Some out"
  shows "printf fmt vs s = Some (of_nat (length xs), out_text out (if check_out_of_bound s \<noteq> 0 then scroll_screen s else s))"
  using printf_loop_render [of fmt "[]" xs vs out] assms by (simp add: printf_def)

end
