(* ===== verification/Paging.thy ===== *)
theory Paging
  imports Printf
begin

text \<open>
  \<^verbatim>\<open>student-distrib/paging.c\<close>: the page directory, the page tables for video memory, and
  \<^verbatim>\<open>init_paging\<close>. \<open>mmu\<close> states the documented address translation of the processor (4 MB
  pages through the directory, 4 KB pages through a table) on these tables; the lemmas say
  what the kernel and user programs can reach.
\<close>

section \<open>Operations\<close>

abbreviation (input) PAGE_SIZE :: nat where "PAGE_SIZE \<equiv> 1024"
abbreviation (input) VID_MEM_INDEX :: nat where "VID_MEM_INDEX \<equiv> 184"
abbreviation (input) USER_VID_INDEX :: nat where "USER_VID_INDEX \<equiv> 25"
abbreviation (input) USER_VID_MEM_ENTRY :: u32 where "USER_VID_MEM_ENTRY \<equiv> 0xB8007"
abbreviation (input) PROGRAM_PDT_INDEX :: nat where "PROGRAM_PDT_INDEX \<equiv> 32"
abbreviation (input) PROGRAM_PROPERTIES :: u32 where "PROGRAM_PROPERTIES \<equiv> 0x97"

definition VID_MEM_BACKUP :: "nat \<Rightarrow> u32" where
  "VID_MEM_BACKUP t = [0xB9007, 0xBA007, 0xBB007] ! t"

definition KERNEL_VID_MEM_BACKUP :: "nat \<Rightarrow> u32" where
  "KERNEL_VID_MEM_BACKUP t = [0xB9003, 0xBA003, 0xBB003] ! t"

definition video_page_entry :: "nat \<Rightarrow> kernel \<Rightarrow> kernel" where
  "video_page_entry i s =
     s\<lparr>PT0 := (PT0 s)(VID_MEM_INDEX + i := KERNEL_VID_MEM_BACKUP (i - 1)),
       PT1 := (PT1 s)(i - 1 := if i = 1 then USER_VID_MEM_ENTRY else VID_MEM_BACKUP (i - 1))\<rparr>"

definition paging_tables :: "kernel \<Rightarrow> kernel" where
  "paging_tables s =
     (let s = fold (\<lambda>i s. s\<lparr>PDT := (PDT s)(i := 0), PT0 := (PT0 s)(i := 0), PT1 := (PT1 s)(i := 0)\<rparr>)
                [0..<PAGE_SIZE] s;
          s = s\<lparr>PDT := (PDT s)(1 := 0x400083)\<rparr>;
          s = s\<lparr>PDT := (PDT s)(0 := PT0_addr s OR 0x17)\<rparr>;
          s = s\<lparr>PDT := (PDT s)(USER_VID_INDEX := PT1_addr s OR 0x7)\<rparr>;
          s = s\<lparr>PT0 := (PT0 s)(VID_MEM_INDEX := 0xB8117)\<rparr>
      in fold video_page_entry [1, 2, 3] s)"

definition init_paging :: "kernel \<Rightarrow> kernel option" where
  "init_paging s =
     do { s \<leftarrow> kprintf (cbytes ''Initializing Paging... '' @ [0x0A]) [] s;
          let s = flush_tlb (paging_tables s);
          let s = s\<lparr>cr4 := cr4 s OR 0x10\<rparr>;
          Some (s\<lparr>cr0 := cr0 s OR 0x80000001\<rparr>) }"

text \<open>
  The directory entry of the 4 MB program page at virtual address \<open>0x08000000\<close>, as \<^verbatim>\<open>execute\<close>,
  \<^verbatim>\<open>halt_256\<close> and \<^verbatim>\<open>task_switch\<close> write it before they flush the TLB.
\<close>

definition map_program_page :: "int \<Rightarrow> kernel \<Rightarrow> kernel" where
  "map_program_page pid s =
     flush_tlb (s\<lparr>PDT := (PDT s)(PROGRAM_PDT_INDEX :=
       (KERNEL_BOT_ADDR + FOUR_MB * word_of_int pid) OR PROGRAM_PROPERTIES)\<rparr>)"

section \<open>Address translation\<close>

definition page_table :: "kernel \<Rightarrow> u32 \<Rightarrow> (nat \<Rightarrow> u32) option" where
  "page_table s a = (if a = PT0_addr s then Some (PT0 s) else if a = PT1_addr s then Some (PT1 s) else None)"

definition mmu :: "kernel \<Rightarrow> bool \<Rightarrow> u32 \<Rightarrow> u32 option" where
  "mmu s user v =
     (let pde = PDT s (unat (drop_bit 22 v)) in
      if \<not> bit pde 0 \<or> (user \<and> \<not> bit pde 2) then None
      else if bit pde 7 then Some ((pde AND 0xFFC00000) OR (v AND 0x3FFFFF))
      else case page_table s (pde AND 0xFFFFF000) of
             None \<Rightarrow> None
           | Some tbl \<Rightarrow>
               (let pte = tbl (unat (drop_bit 12 v AND 0x3FF)) in
                if \<not> bit pte 0 \<or> (user \<and> \<not> bit pte 2) then None
                else Some ((pte AND 0xFFFFF000) OR (v AND 0xFFF))))"

text \<open>The static tables are 4 KB aligned (the \<^verbatim>\<open>aligned\<close> attribute) and distinct objects.\<close>

definition tables_aligned :: "kernel \<Rightarrow> bool" where
  "tables_aligned s \<longleftrightarrow> PT0_addr s AND 0xFFF = 0 \<and> PT1_addr s AND 0xFFF = 0 \<and> PT0_addr s \<noteq> PT1_addr s"

lemma zero_tables:
  "fold (\<lambda>i s. s\<lparr>PDT := (PDT s)(i := 0), PT0 := (PT0 s)(i := 0), PT1 := (PT1 s)(i := 0)\<rparr>) [0..<n] s =
     s\<lparr>PDT := (\<lambda>i. if i < n then 0 else PDT s i), PT0 := (\<lambda>i. if i < n then 0 else PT0 s i),
       PT1 := (\<lambda>i. if i < n then 0 else PT1 s i)\<rparr>"
  by (induction n) (auto simp: fun_eq_iff intro!: kernel.equality)

lemma paging_tables_eq:
  "paging_tables s =
     s\<lparr>PDT := (\<lambda>i. if i = 25 then PT1_addr s OR 0x7 else if i = 0 then PT0_addr s OR 0x17
                  else if i = 1 then 0x400083 else if i < 1024 then 0 else PDT s i),
       PT0 := (\<lambda>i. if i = 184 then 0xB8117 else if i = 185 then 0xB9003 else if i = 186 then 0xBA003
                  else if i = 187 then 0xBB003 else if i < 1024 then 0 else PT0 s i),
       PT1 := (\<lambda>i. if i = 0 then 0xB8007 else if i = 1 then 0xBA007 else if i = 2 then 0xBB007
                  else if i < 1024 then 0 else PT1 s i)\<rparr>"
  unfolding paging_tables_def zero_tables
  by (auto simp: video_page_entry_def KERNEL_VID_MEM_BACKUP_def VID_MEM_BACKUP_def fun_eq_iff
      intro!: kernel.equality)

section \<open>What the tables map\<close>

lemma aligned_frame:
  assumes "a AND 0xFFF = 0"
  shows "(a OR 0x17) AND 0xFFFFF000 = a" "(a OR 0x7) AND 0xFFFFF000 = (a :: u32)"
proof -
  have "a = (a AND 0xFFF) OR (a AND NOT 0xFFF)"
    by (simp only: bit.conj_disj_distrib [symmetric]) simp
  moreover have "NOT (0xFFF :: u32) = 0xFFFFF000" by (simp add: not_eq_complement)
  ultimately have "a AND 0xFFFFF000 = a" using assms by (metis or.left_neutral)
  then show "(a OR 0x17) AND 0xFFFFF000 = a" "(a OR 0x7) AND 0xFFFFF000 = a"
    by (simp_all add: bit.conj_disj_distrib2)
qed

lemma aligned_bits:
  assumes "a AND 0xFFF = 0"
  shows "\<not> bit (a :: u32) 7" "\<not> bit a 2" "\<not> bit a 0"
proof -
  have "\<not> bit (a AND 0xFFF) n" for n using assms by simp
  from this [of 7] this [of 2] this [of 0] show "\<not> bit a 7" "\<not> bit a 2" "\<not> bit a 0"
    by (simp_all add: bit_and_iff)
qed

lemma mmu_kernel_page:
  assumes "drop_bit 22 v = (1 :: u32)"
  shows "mmu (paging_tables s) user v = (if user then None else Some v)"
proof -
  have "v = push_bit 22 (drop_bit 22 v) OR take_bit 22 v"
    by (rule bit_word_eqI) (auto simp: bit_simps)
  then have "v = 0x400000 OR take_bit 22 v" using assms by simp
  moreover have "v AND 0x3FFFFF = take_bit 22 v" by (simp add: take_bit_eq_mask mask_eq_exp_minus_1)
  ultimately show ?thesis using assms by (simp add: mmu_def paging_tables_eq)
qed

text \<open>A virtual address as page number and offset.\<close>

lemma page_offset:
  assumes "k < 0x1000"
  shows "push_bit 12 p + k = push_bit 12 p OR (k :: u32)"
    and "drop_bit 12 (push_bit 12 p OR k) = take_bit 20 p"
    and "drop_bit 22 (push_bit 12 p OR k) = drop_bit 10 (take_bit 20 p)"
    and "(push_bit 12 p OR k) AND 0xFFF = k"
proof -
  have k: "take_bit 12 k = k"
    using assms by (intro word_uint_eqI)
      (simp add: unsigned_take_bit_eq take_bit_int_eq_self word_less_def)
  then have kb: "\<not> bit k n" if "12 \<le> n" for n
    using that by (metis bit_take_bit_iff not_le)
  show "push_bit 12 p + k = push_bit 12 p OR k"
    using kb by (intro disjunctive_add) (auto simp: bit_simps)
  show "drop_bit 12 (push_bit 12 p OR k) = take_bit 20 p"
    and "drop_bit 22 (push_bit 12 p OR k) = drop_bit 10 (take_bit 20 p)"
    using kb by (auto intro!: bit_word_eqI simp: bit_simps)
  have "(push_bit 12 p OR k) AND 0xFFF = take_bit 12 (push_bit 12 p OR k)"
    by (simp add: take_bit_eq_mask mask_eq_exp_minus_1)
  also have "\<dots> = k" using kb by (auto intro!: bit_word_eqI simp: bit_simps)
  finally show "(push_bit 12 p OR k) AND 0xFFF = k" .
qed

lemma mmu_page_table:
  assumes "k < 0x1000"
    and "pde = PDT s (unat (drop_bit 10 (take_bit 20 p)))" "bit pde 0" "bit pde 2" "\<not> bit pde 7"
    and "page_table s (pde AND 0xFFFFF000) = Some tbl"
    and "pte = tbl (unat (take_bit 20 p AND 0x3FF))" "bit pte 0"
  shows "mmu s user (push_bit 12 p + k) =
    (if user \<and> \<not> bit pte 2 then None else Some ((pte AND 0xFFFFF000) OR k))"
  unfolding mmu_def page_offset(1) [OF assms(1)] page_offset(2-4) [OF assms(1)]
  using assms(2-) by (simp add: Let_def)

lemma mmu_user_video:
  assumes "tables_aligned s" "t < 3" "k < 0x1000"
  shows "mmu (paging_tables s) user (0x06400000 + of_nat t * 0x1000 + k) =
    Some ((if t = 0 then 0xB8000 else 0xB9000 + of_nat t * 0x1000) OR k)"
proof -
  let ?s = "paging_tables s"
  have al: "PT1_addr s AND 0xFFF = 0" using assms(1) by (simp add: tables_aligned_def)
  have pde: "PDT ?s 25 = PT1_addr s OR 0x7" by (simp add: paging_tables_eq)
  have tbl: "page_table ?s (PDT ?s 25 AND 0xFFFFF000) = Some (PT1 ?s)"
    unfolding pde aligned_frame(2) [OF al]
    using assms(1) by (auto simp: page_table_def paging_tables_eq tables_aligned_def)
  have "t = 0 \<or> t = 1 \<or> t = 2" using assms(2) by linarith
  then show ?thesis
    using mmu_page_table [OF assms(3), of "PDT ?s 25" ?s "0x6400" "PT1 ?s" "PT1 ?s 0" user]
      mmu_page_table [OF assms(3), of "PDT ?s 25" ?s "0x6401" "PT1 ?s" "PT1 ?s 1" user]
      mmu_page_table [OF assms(3), of "PDT ?s 25" ?s "0x6402" "PT1 ?s" "PT1 ?s 2" user]
      tbl aligned_bits [OF al]
    by (auto simp: pde bit_or_iff) (simp_all add: paging_tables_eq)
qed

text \<open>
  The VGA page itself is reachable from user mode at its physical address, because its table
  entry and the directory entry above it have the user bit set.
\<close>

lemma mmu_user_vga:
  assumes "tables_aligned s" "k < 0x1000"
  shows "mmu (paging_tables s) True (0xB8000 + k) = Some (0xB8000 OR k)"
proof -
  let ?s = "paging_tables s"
  have al: "PT0_addr s AND 0xFFF = 0" using assms(1) by (simp add: tables_aligned_def)
  have pde: "PDT ?s 0 = PT0_addr s OR 0x17" by (simp add: paging_tables_eq)
  have tbl: "page_table ?s (PDT ?s 0 AND 0xFFFFF000) = Some (PT0 ?s)"
    unfolding pde aligned_frame(1) [OF al]
    by (simp add: page_table_def paging_tables_eq)
  show ?thesis
    using mmu_page_table [OF assms(2), of "PDT ?s 0" ?s "0xB8" "PT0 ?s" "PT0 ?s 184" True]
      tbl aligned_bits [OF al]
    by (simp add: pde bit_or_iff) (simp add: paging_tables_eq)
qed

lemma program_frame:
  assumes "0 \<le> pid" "pid < 6"
  shows "drop_bit 22 ((KERNEL_BOT_ADDR + FOUR_MB * word_of_int pid) OR PROGRAM_PROPERTIES) = (word_of_int (2 + pid) :: u32)"
    and "bit ((KERNEL_BOT_ADDR + FOUR_MB * word_of_int pid) OR PROGRAM_PROPERTIES) 0"
    and "bit ((KERNEL_BOT_ADDR + FOUR_MB * word_of_int pid) OR PROGRAM_PROPERTIES) 2"
    and "bit ((KERNEL_BOT_ADDR + FOUR_MB * word_of_int pid) OR PROGRAM_PROPERTIES) 7"
proof -
  have "pid = 0 \<or> pid = 1 \<or> pid = 2 \<or> pid = 3 \<or> pid = 4 \<or> pid = 5" using assms by linarith
  then show "drop_bit 22 ((KERNEL_BOT_ADDR + FOUR_MB * word_of_int pid) OR PROGRAM_PROPERTIES) = (word_of_int (2 + pid) :: u32)"
    and "bit ((KERNEL_BOT_ADDR + FOUR_MB * word_of_int pid) OR PROGRAM_PROPERTIES) 0"
    and "bit ((KERNEL_BOT_ADDR + FOUR_MB * word_of_int pid) OR PROGRAM_PROPERTIES) 2"
    and "bit ((KERNEL_BOT_ADDR + FOUR_MB * word_of_int pid) OR PROGRAM_PROPERTIES) 7"
    by auto
qed

section \<open>Memory isolation\<close>

lemma map_program_page_simps [frame_simps]:
  "PT0 (map_program_page pid s) = PT0 s" "PT1 (map_program_page pid s) = PT1 s"
  "PT0_addr (map_program_page pid s) = PT0_addr s" "PT1_addr (map_program_page pid s) = PT1_addr s"
  "PDT (map_program_page pid s) = (PDT s)(PROGRAM_PDT_INDEX :=
     (KERNEL_BOT_ADDR + FOUR_MB * word_of_int pid) OR PROGRAM_PROPERTIES)"
  by (simp_all add: map_program_page_def flush_tlb_def)

lemma bit_less_u32: "bit (w :: u32) n \<Longrightarrow> n < 32"
  using bit_imp_le_length [of w n] by simp

lemma big_page_frame: "drop_bit 22 ((e AND 0xFFC00000) OR (v AND 0x3FFFFF)) = drop_bit 22 (e :: u32)"
proof -
  have "v AND 0x3FFFFF = take_bit 22 v" by (simp add: take_bit_eq_mask mask_eq_exp_minus_1)
  moreover have "e AND 0xFFC00000 = push_bit 22 (drop_bit 22 e)"
  proof -
    have eq: "(0xFFC00000 :: u32) = NOT (mask 22)" by (simp add: mask_eq_exp_minus_1 not_eq_complement)
    show ?thesis unfolding eq by (auto intro!: bit_word_eqI simp: bit_simps)
  qed
  ultimately show ?thesis by (auto intro!: bit_word_eqI simp: bit_simps) (frule bit_less_u32, simp)
qed

lemma small_page_frame: "drop_bit 12 ((e AND 0xFFFFF000) OR (v AND 0xFFF)) = drop_bit 12 (e :: u32)"
proof -
  have "v AND 0xFFF = take_bit 12 v" by (simp add: take_bit_eq_mask mask_eq_exp_minus_1)
  moreover have "e AND 0xFFFFF000 = push_bit 12 (drop_bit 12 e)"
  proof -
    have eq: "(0xFFFFF000 :: u32) = NOT (mask 12)" by (simp add: mask_eq_exp_minus_1 not_eq_complement)
    show ?thesis unfolding eq by (auto intro!: bit_word_eqI simp: bit_simps)
  qed
  ultimately show ?thesis by (auto intro!: bit_word_eqI simp: bit_simps) (frule bit_less_u32, simp)
qed

lemma mmu_program_page:
  assumes "0 \<le> pid" "pid < 6" "drop_bit 22 v = (32 :: u32)"
  shows "mmu (map_program_page pid s) user v =
    Some ((((KERNEL_BOT_ADDR + FOUR_MB * word_of_int pid) OR PROGRAM_PROPERTIES) AND 0xFFC00000) OR (v AND 0x3FFFFF))"
  using program_frame(2-4) [OF assms(1,2)] assms(3)
  by (simp add: mmu_def frame_simps Let_def)

lemma mmu_program_frame:
  assumes "0 \<le> pid" "pid < 6" "drop_bit 22 v = (32 :: u32)" "mmu (map_program_page pid s) user v = Some p"
  shows "drop_bit 22 p = word_of_int (2 + pid)"
  using assms(4) unfolding mmu_program_page [OF assms(1-3)] option.inject program_frame(1) [OF assms(1,2), symmetric]
  by (metis big_page_frame)

text \<open>The program pages of two processes never meet in physical memory.\<close>

lemma program_pages_disjoint:
  assumes "0 \<le> p" "p < 6" "0 \<le> q" "q < 6" "p \<noteq> q" "drop_bit 22 v = (32 :: u32)" "drop_bit 22 w = (32 :: u32)"
    and "mmu (map_program_page p s) user v = Some a" "mmu (map_program_page q s') user' w = Some b"
  shows "a \<noteq> b"
proof -
  have "drop_bit 22 a = word_of_int (2 + p)" "drop_bit 22 b = word_of_int (2 + q)"
    using mmu_program_frame assms by blast+
  moreover have "(word_of_int (2 + p) :: u32) \<noteq> word_of_int (2 + q)"
    using word_of_int_inj_u32 [of "2 + p" "2 + q"] assms(1-5) by simp
  ultimately show ?thesis by metis
qed

lemma drop_bit_22_bound: "unat (drop_bit 22 (v :: u32)) < 1024"
proof -
  have "unat v < 4294967296" by (rule unat_less_u32)
  then show ?thesis by (simp only: unsigned_drop_bit_eq drop_bit_nat_def take_bit_nat_def) simp
qed

lemma table_index_bound: "unat (drop_bit 12 v AND 0x3FF :: u32) < 1024"
proof -
  have "drop_bit 12 v AND 0x3FF = take_bit 10 (drop_bit 12 v)"
    by (simp add: take_bit_eq_mask mask_eq_exp_minus_1)
  then show ?thesis by (simp only: unsigned_take_bit_eq take_bit_nat_def) simp
qed

text \<open>
  Everything a user program can touch after \<^verbatim>\<open>init_paging\<close> and the mapping of its program page:
  its own 4 MB frame and the video pages.
\<close>

lemma user_reach:
  assumes al: "tables_aligned s" and pid: "0 \<le> pid" "pid < 6"
    and m: "mmu (map_program_page pid (paging_tables s)) True v = Some p"
  shows "drop_bit 22 p = word_of_int (2 + pid) \<or> drop_bit 12 p \<in> {0xB8, 0xBA, 0xBB}"
proof -
  let ?t = "paging_tables s"
  let ?s = "map_program_page pid ?t"
  let ?i = "unat (drop_bit 22 v)" and ?j = "unat (drop_bit 12 v AND 0x3FF)"
  have pt: "page_table ?s ((PT1_addr s OR 0x7) AND 0xFFFFF000) = Some (PT1 ?t)"
           "page_table ?s ((PT0_addr s OR 0x17) AND 0xFFFFF000) = Some (PT0 ?t)"
    using al by (auto simp: aligned_frame tables_aligned_def page_table_def frame_simps paging_tables_eq)
  have nb: "\<not> bit (PT1_addr s) 7" "\<not> bit (PT0_addr s) 7"
    using al by (auto simp: aligned_bits tables_aligned_def)
  note i = drop_bit_22_bound [of v] and j = table_index_bound [of v]
  consider "?i = 32" | "?i = 25" | "?i = 0" | "?i = 1" | "PDT ?s ?i = 0"
    using i by (force simp: frame_simps paging_tables_eq)
  then show ?thesis
  proof cases
    case 1
    then have "drop_bit 22 v = 32" by (simp add: unat_inj_u32 [symmetric])
    then show ?thesis using mmu_program_frame [OF pid _ m] by simp
  next
    case 2
    then have "PDT ?s ?i = PT1_addr s OR 0x7" by (simp add: frame_simps paging_tables_eq)
    with m pt(1) nb have "PT1 ?t ?j = pte \<Longrightarrow> bit pte 0 \<and> bit pte 2 \<and> p = (pte AND 0xFFFFF000) OR (v AND 0xFFF)" for pte
      by (auto simp: mmu_def Let_def bit_or_iff split: if_splits)
    then show ?thesis using j small_page_frame [of "PT1 ?t ?j" v]
      by (auto simp: paging_tables_eq split: if_splits)
  next
    case 3
    then have "PDT ?s ?i = PT0_addr s OR 0x17" by (simp add: frame_simps paging_tables_eq)
    with m pt(2) nb have "PT0 ?t ?j = pte \<Longrightarrow> bit pte 0 \<and> bit pte 2 \<and> p = (pte AND 0xFFFFF000) OR (v AND 0xFFF)" for pte
      by (auto simp: mmu_def Let_def bit_or_iff split: if_splits)
    then show ?thesis using j small_page_frame [of "PT0 ?t ?j" v]
      by (auto simp: paging_tables_eq split: if_splits)
  next
    case 4
    then show ?thesis using m by (simp add: mmu_def frame_simps paging_tables_eq)
  next
    case 5
    then show ?thesis using m by (simp add: mmu_def)
  qed
qed

end
