(* ===== verification/Terminal.thy ===== *)
theory Terminal
  imports Paging
begin

text \<open>
  The terminal driver, \<^verbatim>\<open>student-distrib/terminal.c\<close>: blocking line input, screen output with
  scrolling, and switching the displayed terminal between three video pages. The abstract
  screen \<open>ascreen\<close> (a grid of characters and a cursor) is what a terminal promises; the lemmas
  show that output refines it, that it never leaves the terminal's own page, and that a switch
  preserves the screens of all terminals.
\<close>

section \<open>Operations\<close>

definition backup_mem_addr :: "nat \<Rightarrow> u32" where
  "backup_mem_addr t = [0xB9000, 0xBA000, 0xBB000] ! t"

definition set_t_enter_flag :: "kernel \<Rightarrow> kernel" where
  "set_t_enter_flag s = s\<lparr>t_enter_flag := (t_enter_flag s)(terminal_num s := 1)\<rparr>"

text \<open>The copy loop of \<^verbatim>\<open>terminal_read\<close> over the command buffer; \<open>None\<close> if it runs out of the buffer.\<close>

fun read_line :: "u8 list \<Rightarrow> u8 list option" where
  "read_line [] = None"
| "read_line (c # cs) = (if c = 0x0A then Some [c] else map_option ((#) c) (read_line cs))"

definition terminal_read ::
  "(kernel \<Rightarrow> kernel) list \<Rightarrow> nat \<Rightarrow> u32 \<Rightarrow> u32 \<Rightarrow> kernel \<Rightarrow> (int \<times> u8 list \<times> kernel) option" where
  "terminal_read handlers fd buf nbytes s =
     (if buf = 0 then Some (-1, [], s)
      else do { let t = get_tty s;
                let s = s\<lparr>t_enter_flag := (t_enter_flag s)(t := 0),
                          command_buf := (command_buf s)(t := (command_buf s t)[0 := 0])\<rparr>;
                s \<leftarrow> spin (\<lambda>s. t_enter_flag s (get_tty s) = 0) handlers s;
                bytes \<leftarrow> read_line (command_buf s (get_tty s));
                Some (int (length bytes), bytes, s) })"

definition write_char :: "u8 \<Rightarrow> kernel \<Rightarrow> kernel" where
  "write_char c s =
     (let s = (if check_out_of_bound s = 1 \<and> c = 0x0A then scroll_screen s else s);
          s = (if check_out_of_bound s = 2 then scroll_screen s else s)
      in putc c s)"

fun write_loop :: "rptr \<Rightarrow> u32 \<Rightarrow> nat \<Rightarrow> kernel \<Rightarrow> kernel option" where
  "write_loop buf i 0 s = Some s"
| "write_loop buf i (Suc left) s = do { c \<leftarrow> buf i; write_loop buf (i + 1) left (write_char c s) }"

definition terminal_write :: "nat \<Rightarrow> rptr option \<Rightarrow> u32 \<Rightarrow> kernel \<Rightarrow> (int \<times> kernel) option" where
  "terminal_write fd buf nbytes s =
     (case buf of
        None \<Rightarrow> Some (-1, s)
      | Some p \<Rightarrow>
          do { let n = nat (sint nbytes);
               s \<leftarrow> write_loop p 0 n s;
               Some (int n, s) })"

definition terminal_open :: "rptr \<Rightarrow> kernel \<Rightarrow> int \<times> kernel" where
  "terminal_open filename s = (0, s)"

definition terminal_close :: "nat \<Rightarrow> kernel \<Rightarrow> int \<times> kernel" where
  "terminal_close fd s = (0, s)"

definition recolor :: "kernel \<Rightarrow> kernel" where
  "recolor s =
     (let b = video_mem s (terminal_num s); color = SCREEN_COLOR (terminal_num s)
      in s\<lparr>mem := fold (\<lambda>i m. m(cell b (2 * int i + 1) := color)) [0..<2000] (mem s)\<rparr>)"

definition terminal_switch :: "nat \<Rightarrow> kernel \<Rightarrow> kernel" where
  "terminal_switch new_tty s =
     (let s = s\<lparr>mem := memcpy (mem s) (backup_mem_addr (terminal_num s)) VIDEO 4096\<rparr>;
          s = s\<lparr>mem := memcpy (mem s) VIDEO (backup_mem_addr new_tty) 4096\<rparr>;
          s = s\<lparr>video_mem := (video_mem s)(terminal_num s := backup_mem_addr (terminal_num s))\<rparr>;
          s = s\<lparr>video_mem := (video_mem s)(new_tty := VIDEO)\<rparr>;
          s = s\<lparr>PT1 := (PT1 s)(terminal_num s := VID_MEM_BACKUP (terminal_num s))\<rparr>;
          s = s\<lparr>PT1 := (PT1 s)(new_tty := USER_VID_MEM_ENTRY)\<rparr>;
          s = s\<lparr>terminal_num := new_tty\<rparr>;
          s = flush_tlb s;
          s = update_cursor (screen_x s (terminal_num s)) (screen_y s (terminal_num s)) s
      in recolor s)"

section \<open>The abstract screen\<close>

record ascreen =
  cells :: "int \<Rightarrow> int \<Rightarrow> u8"
  acol :: int
  arow :: int

definition on_screen :: "int \<Rightarrow> int \<Rightarrow> bool" where
  "on_screen x y \<longleftrightarrow> 0 \<le> x \<and> x < 80 \<and> 0 \<le> y \<and> y < 25"

definition abs_screen :: "kernel \<Rightarrow> nat \<Rightarrow> ascreen" where
  "abs_screen s t = \<lparr>cells = (\<lambda>x y. if on_screen x y then char_at s t x y else 0x20),
                     acol = screen_x s t, arow = screen_y s t\<rparr>"

definition scrolled :: "ascreen \<Rightarrow> ascreen" where
  "scrolled a = a\<lparr>cells := (\<lambda>x y. if on_screen x y \<and> y < 24 then cells a x (y + 1) else 0x20), arow := arow a - 1\<rparr>"

definition place :: "u8 \<Rightarrow> ascreen \<Rightarrow> ascreen" where
  "place c a = a\<lparr>cells := (cells a)(acol a := (cells a (acol a))(arow a := c)),
                 acol := (if acol a = 79 then 0 else acol a + 1),
                 arow := (if acol a = 79 then arow a + 1 else arow a)\<rparr>"

definition emit :: "u8 \<Rightarrow> ascreen \<Rightarrow> ascreen" where
  "emit c a =
     (let a = (if arow a = 24 \<and> (c = 0x0A \<or> acol a = 79) then scrolled a else a)
      in if c = 0x0A then a\<lparr>acol := 0, arow := arow a + 1\<rparr> else place c a)"

lemma abs_scroll:
  "abs_screen (scroll_screen s) (terminal_num s) = scrolled (abs_screen s (terminal_num s))"
  by (auto simp: abs_screen_def scrolled_def fun_eq_iff on_screen_def char_at_scroll)
     (simp_all add: scroll_screen_def Let_def)

lemma putc_xy:
  assumes "cursor_ok s (terminal_num s)" "c \<noteq> 0x0A" "c \<noteq> 0x0D"
    and "screen_y s (terminal_num s) < 24 \<or> screen_x s (terminal_num s) < 79"
  shows "screen_x (putc c s) (terminal_num s) =
      (if screen_x s (terminal_num s) = 79 then 0 else screen_x s (terminal_num s) + 1)"
    and "screen_y (putc c s) (terminal_num s) =
      (if screen_x s (terminal_num s) = 79 then screen_y s (terminal_num s) + 1 else screen_y s (terminal_num s))"
  using assms putc_screen_xy [OF assms(1-3)] by (auto simp: cursor_ok_def)

lemma abs_putc:
  assumes "cursor_ok s (terminal_num s)" "c \<noteq> 0x0A" "c \<noteq> 0x0D"
    and "screen_y s (terminal_num s) < 24 \<or> screen_x s (terminal_num s) < 79"
  shows "abs_screen (putc c s) (terminal_num s) = place c (abs_screen s (terminal_num s))"
  using assms putc_xy [OF assms]
  by (auto simp: abs_screen_def place_def fun_eq_iff on_screen_def char_at_putc cursor_ok_def)

lemma abs_newline:
  "c = 0x0A \<or> c = 0x0D \<Longrightarrow> abs_screen (putc c s) (terminal_num s) =
     (abs_screen s (terminal_num s))\<lparr>acol := 0, arow := arow (abs_screen s (terminal_num s)) + 1\<rparr>"
  by (auto simp: abs_screen_def putc_newline char_at_def fun_eq_iff)

text \<open>The scrolling test of \<^verbatim>\<open>terminal_write\<close>, as one condition.\<close>

lemma write_char_eq:
  assumes "cursor_ok s (terminal_num s)"
  shows "write_char c s =
    putc c (if screen_y s (terminal_num s) = 24 \<and> (c = 0x0A \<or> screen_x s (terminal_num s) = 79)
            then scroll_screen s else s)"
  using assms
  by (auto simp: write_char_def check_out_of_bound_def cursor_ok_def scroll_screen_def Let_def)

lemma abs_write_char:
  assumes "cursor_ok s (terminal_num s)" "c \<noteq> 0x0D"
  shows "abs_screen (write_char c s) (terminal_num s) = emit c (abs_screen s (terminal_num s))"
    and "cursor_ok (write_char c s) (terminal_num s)"
proof -
  let ?t = "terminal_num s"
  define u where "u = (if screen_y s ?t = 24 \<and> (c = 0x0A \<or> screen_x s ?t = 79) then scroll_screen s else s)"
  have w: "write_char c s = putc c u" unfolding u_def by (rule write_char_eq [OF assms(1)])
  have t: "terminal_num u = ?t" by (simp add: u_def)
  have y: "screen_x u ?t = screen_x s ?t" "screen_y u ?t < 24 \<or> (c \<noteq> 0x0A \<and> screen_x u ?t < 79)"
    and ok: "cursor_ok u ?t"
    using assms(1) by (auto simp: u_def cursor_ok_def scroll_screen_def Let_def)
  have a: "abs_screen u ?t =
      (if arow (abs_screen s ?t) = 24 \<and> (c = 0x0A \<or> acol (abs_screen s ?t) = 79)
       then scrolled (abs_screen s ?t) else abs_screen s ?t)"
    unfolding u_def by (auto simp: abs_scroll abs_screen_def [of s])
  show "abs_screen (write_char c s) ?t = emit c (abs_screen s ?t)"
  proof (cases "c = 0x0A")
    case True
    then show ?thesis using abs_newline [of c u] unfolding w t a by (simp add: emit_def Let_def)
  next
    case False
    then have "abs_screen (putc c u) ?t = place c (abs_screen u ?t)"
      using abs_putc [of u c] ok y(2) assms(2) unfolding t by blast
    then show ?thesis using False by (simp add: w a emit_def Let_def)
  qed
  show "cursor_ok (write_char c s) ?t"
  proof (cases "c = 0x0A")
    case True
    then show ?thesis using ok y(2) unfolding w
      by (auto simp: putc_newline t cursor_ok_def)
  next
    case False
    then show ?thesis
      using putc_xy [of u c] ok y(2) assms(2) unfolding w t cursor_ok_def by auto
  qed
qed

section \<open>Output confined to one terminal\<close>

lemma write_char_frame [simp, frame_simps]:
  "terminal_num (write_char c s) = terminal_num s" "video_mem (write_char c s) = video_mem s"
  "pcbs (write_char c s) = pcbs s" "current_pid (write_char c s) = current_pid s"
  by (simp_all add: write_char_def Let_def)

lemma write_char_confined:
  assumes "cursor_ok s (terminal_num s)"
  shows "confined (video_mem s (terminal_num s)) (mem s) (mem (write_char c s))"
proof -
  have "cursor_ok (scroll_screen s) (terminal_num s)" if "screen_y s (terminal_num s) = 24"
    using assms that by (simp add: cursor_ok_def scroll_screen_def Let_def)
  then show ?thesis
    using scroll_confined [of s] putc_confined [of "scroll_screen s" c] putc_confined [OF assms, of c]
    by (auto simp: write_char_eq [OF assms] intro: confined_trans)
qed

lemma putc_other_cursor [frame_simps]:
  "t \<noteq> terminal_num s \<Longrightarrow> screen_x (putc c s) t = screen_x s t"
  "t \<noteq> terminal_num s \<Longrightarrow> screen_y (putc c s) t = screen_y s t"
  "t \<noteq> terminal_num s \<Longrightarrow> screen_y (scroll_screen s) t = screen_y s t"
  by (simp_all add: putc_def scroll_screen_def Let_def)

lemma write_char_other_cursor [frame_simps]:
  "t \<noteq> terminal_num s \<Longrightarrow> screen_x (write_char c s) t = screen_x s t"
  "t \<noteq> terminal_num s \<Longrightarrow> screen_y (write_char c s) t = screen_y s t"
  by (simp_all add: write_char_def Let_def frame_simps)

text \<open>What a written text does: the characters one by one, on the abstract screen.\<close>

lemma write_loop_abs:
  assumes "\<And>k. k < n \<Longrightarrow> buf (i + of_nat k) = Some (xs ! k)" "n = length xs" "0x0D \<notin> set xs"
    and "cursor_ok s (terminal_num s)"
  shows "\<exists>s'. write_loop buf i n s = Some s' \<and> cursor_ok s' (terminal_num s) \<and>
    abs_screen s' (terminal_num s) = fold emit xs (abs_screen s (terminal_num s)) \<and>
    terminal_num s' = terminal_num s \<and> video_mem s' = video_mem s \<and> pcbs s' = pcbs s \<and>
    current_pid s' = current_pid s \<and>
    confined (video_mem s (terminal_num s)) (mem s) (mem s') \<and>
    (\<forall>t. t \<noteq> terminal_num s \<longrightarrow> screen_x s' t = screen_x s t \<and> screen_y s' t = screen_y s t)"
  using assms
proof (induction xs arbitrary: n i s)
  case (Cons x xs)
  let ?u = "write_char x s"
  have x: "buf i = Some x" using Cons.prems(1) [of 0] Cons.prems(2) by simp
  have "buf (i + 1 + of_nat k) = Some (xs ! k)" if "k < length xs" for k
    using Cons.prems(1) [of "Suc k"] that Cons.prems(2) by (simp add: add.assoc)
  moreover have "cursor_ok ?u (terminal_num ?u)" and ab: "abs_screen ?u (terminal_num s) = emit x (abs_screen s (terminal_num s))"
    using abs_write_char [of s x] Cons.prems(3,4) by simp_all
  ultimately obtain s' where s': "write_loop buf (i + 1) (length xs) ?u = Some s'"
      "cursor_ok s' (terminal_num s)" "abs_screen s' (terminal_num s) = fold emit xs (abs_screen ?u (terminal_num s))"
      "terminal_num s' = terminal_num s" "video_mem s' = video_mem s" "pcbs s' = pcbs s" "current_pid s' = current_pid s"
      "confined (video_mem s (terminal_num s)) (mem ?u) (mem s')"
      "\<forall>t. t \<noteq> terminal_num s \<longrightarrow> screen_x s' t = screen_x ?u t \<and> screen_y s' t = screen_y ?u t"
    using Cons.IH [of "length xs" "i + 1" ?u] Cons.prems(3) by auto
  moreover have "confined (video_mem s (terminal_num s)) (mem s) (mem s')"
    using write_char_confined [OF Cons.prems(4)] s'(8) by (rule confined_trans)
  ultimately show ?case using Cons.prems(2) x ab by (auto simp: frame_simps)
qed simp

section \<open>Switching the displayed terminal\<close>

text \<open>
  The displayed terminal draws to video memory, the others to their backup pages, in the kernel
  (\<^verbatim>\<open>video_mem\<close>) and in the user mapping (\<^verbatim>\<open>PT1\<close>) alike.
\<close>

definition video_ok :: "kernel \<Rightarrow> bool" where
  "video_ok s \<longleftrightarrow> terminal_num s < 3 \<and>
     (\<forall>t < 3. video_mem s t = (if t = terminal_num s then VIDEO else backup_mem_addr t) \<and>
              PT1 s t = (if t = terminal_num s then USER_VID_MEM_ENTRY else VID_MEM_BACKUP t))"

lemma less_3: "t < 3 \<longleftrightarrow> t = 0 \<or> t = 1 \<or> t = (2 :: nat)"
  by auto

lemma backup_pages:
  assumes "t < 3" "n < 3"
  shows "page_base (backup_mem_addr t)" "backup_mem_addr t \<noteq> VIDEO"
    and "backup_mem_addr t = backup_mem_addr n \<longleftrightarrow> t = n"
  using assms by (auto simp: less_3 backup_mem_addr_def page_base_def)

lemma video_page: "page_base VIDEO"
  by (simp add: page_base_def)

lemma unat_less_uint: "unat (w :: u32) < n \<longleftrightarrow> uint w < int n"
  by (metis of_nat_less_iff uint_nat)

lemma cpy_page:
  assumes "page_base d" "page_base p" "0 \<le> k" "k < 4096"
  shows "cpy m d s 4096 (cell p k) = (if p = d then m (cell s k) else m (cell p k))"
proof (cases "p = d")
  case True
  have "unat (cell d k - d) < 4096" using uint_cell_offset [of k d] assms(3,4) by (simp add: unat_less_uint)
  then show ?thesis using True by (simp add: cpy_def cell_def add.commute)
next
  case False
  have "\<not> unat (cell p k - d) < 4096"
  proof
    assume "unat (cell p k - d) < 4096"
    then have "uint (cell p k - d) < 4096" by (simp add: unat_less_uint)
    then have "cell p k \<noteq> cell d (uint (cell p k - d))"
      using assms False by (intro cell_pages_neq) simp_all
    moreover have "cell p k = cell d (uint (cell p k - d))" by (simp add: cell_def [of d])
    ultimately show False by blast
  qed
  then show ?thesis using False by (simp add: cpy_def)
qed

lemma memcpy_backup:
  assumes "t < 3"
  shows "memcpy m (backup_mem_addr t) VIDEO 4096 = cpy m (backup_mem_addr t) VIDEO 4096"
    and "memcpy m VIDEO (backup_mem_addr t) 4096 = cpy m VIDEO (backup_mem_addr t) 4096"
  using assms by (auto simp: less_3 backup_mem_addr_def memcpy_cpy)

lemma recolor_chars:
  assumes "0 \<le> k" "k < 2000" "page_base p" "page_base (video_mem s (terminal_num s))"
  shows "mem (recolor s) (cell p (2 * k)) = mem s (cell p (2 * k))"
proof -
  let ?b = "video_mem s (terminal_num s)"
  have neq: "cell p (2 * k) \<noteq> cell ?b (2 * int i + 1)" if "i < 2000" for i
  proof (cases "p = ?b")
    case True
    then show ?thesis using assms(1,2) that even_neq_odd [of k "int i"] by (simp add: cell_inj)
  next
    case False
    then show ?thesis using cell_pages_neq [of p ?b "2 * k" "2 * int i + 1"] assms that by simp
  qed
  have colored: "fold (\<lambda>i m. m(cell ?b (2 * int i + 1) := v)) is m (cell p (2 * k)) = m (cell p (2 * k))"
    if "\<forall>i \<in> set is. i < 2000" for v m "is"
    using that by (induction "is" arbitrary: m) (simp_all add: neq)
  show ?thesis using colored [of "[0..<2000]" "SCREEN_COLOR (terminal_num s)" "mem s"]
    by (simp add: recolor_def Let_def)
qed

lemma recolor_frame [simp, frame_simps]:
  "terminal_num (recolor s) = terminal_num s" "video_mem (recolor s) = video_mem s"
  "screen_x (recolor s) = screen_x s" "screen_y (recolor s) = screen_y s" "PT1 (recolor s) = PT1 s"
  "pcbs (recolor s) = pcbs s" "current_pid (recolor s) = current_pid s"
  by (simp_all add: recolor_def Let_def)

text \<open>The switch in one record update, before the colours are set.\<close>

lemma terminal_switch_eq:
  "terminal_switch n s = recolor (update_cursor (screen_x s n) (screen_y s n) (s\<lparr>
     mem := memcpy (memcpy (mem s) (backup_mem_addr (terminal_num s)) VIDEO 4096) VIDEO (backup_mem_addr n) 4096,
     video_mem := (video_mem s)(terminal_num s := backup_mem_addr (terminal_num s), n := VIDEO),
     PT1 := (PT1 s)(terminal_num s := VID_MEM_BACKUP (terminal_num s), n := USER_VID_MEM_ENTRY),
     terminal_num := n, cr3 := (cr3 s AND 0xFFF) + PDT_addr s\<rparr>))"
  by (simp add: terminal_switch_def flush_tlb_def Let_def)

lemma terminal_switch_frame [simp, frame_simps]:
  "terminal_num (terminal_switch n s) = n"
  "screen_x (terminal_switch n s) = screen_x s" "screen_y (terminal_switch n s) = screen_y s"
  "video_mem (terminal_switch n s) = (video_mem s)(terminal_num s := backup_mem_addr (terminal_num s), n := VIDEO)"
  "PT1 (terminal_switch n s) = (PT1 s)(terminal_num s := VID_MEM_BACKUP (terminal_num s), n := USER_VID_MEM_ENTRY)"
  "pcbs (terminal_switch n s) = pcbs s" "current_pid (terminal_switch n s) = current_pid s"
  by (simp_all add: terminal_switch_eq)

lemma terminal_switch_video_ok: "video_ok s \<Longrightarrow> n < 3 \<Longrightarrow> video_ok (terminal_switch n s)"
  by (auto simp: video_ok_def)

lemma terminal_switch_chars:
  assumes "video_ok s" "n < 3" "t < 3" "on_screen x y"
  shows "char_at (terminal_switch n s) t x y = char_at s t x y"
proof -
  let ?o = "terminal_num s"
  define q where "q = 80 * y + x"
  have o: "?o < 3" using assms(1) by (simp add: video_ok_def)
  have vm: "video_mem s t = (if t = ?o then VIDEO else backup_mem_addr t)"
    using assms(1,3) by (simp add: video_ok_def)
  have k: "0 \<le> q" "q < 2000" using assms(4) by (auto simp: on_screen_def q_def)
  define m where "m = cpy (cpy (mem s) (backup_mem_addr ?o) VIDEO 4096) VIDEO (backup_mem_addr n) 4096"
  define u where "u = update_cursor (screen_x s n) (screen_y s n) (s\<lparr>mem := m,
     video_mem := video_mem (terminal_switch n s), PT1 := PT1 (terminal_switch n s),
     terminal_num := n, cr3 := (cr3 s AND 0xFFF) + PDT_addr s\<rparr>)"
  have u: "terminal_switch n s = recolor u"
    by (simp only: u_def m_def terminal_switch_frame) (simp add: terminal_switch_eq memcpy_backup o assms(2))
  have um: "mem u = m" "video_mem u (terminal_num u) = VIDEO" by (simp_all add: u_def)
  have page: "m (cell p (2 * q)) =
      (if p = VIDEO then if n = ?o then mem s (cell VIDEO (2 * q)) else mem s (cell (backup_mem_addr n) (2 * q))
       else if p = backup_mem_addr ?o then mem s (cell VIDEO (2 * q)) else mem s (cell p (2 * q)))"
    if "page_base p" for p
    using that k backup_pages [OF o assms(2)] backup_pages [OF assms(2) o]
    by (simp add: m_def cpy_page video_page)
  have pb: "page_base (video_mem (terminal_switch n s) t)"
    using vm backup_pages(1) [OF assms(3) o] backup_pages(1) [OF o o] by (simp add: video_page)
  have "char_at (terminal_switch n s) t x y = m (cell (video_mem (terminal_switch n s) t) (2 * q))"
    unfolding char_at_def q_def [symmetric] using recolor_chars [OF k pb, of u] um by (simp add: u video_page)
  also have "\<dots> = char_at s t x y"
    using backup_pages(2,3) [OF assms(3) o] backup_pages(2) [OF o o] vm
    unfolding page [OF pb] by (auto simp: char_at_def q_def [symmetric])
  finally show ?thesis .
qed

lemma terminal_switch_screens:
  assumes "video_ok s" "n < 3" "t < 3"
  shows "abs_screen (terminal_switch n s) t = abs_screen s t"
  using terminal_switch_chars [OF assms] by (auto simp: abs_screen_def fun_eq_iff)

end
