(* ===== verification/Keyboard.thy ===== *)
theory Keyboard
  imports Terminal
begin

text \<open>
  The keyboard driver, \<^verbatim>\<open>student-distrib/keyboard.c\<close> and the scancode tables of \<^verbatim>\<open>keyboard.h\<close>. A
  scancode read from the data port is an argument of the handler. The lemmas show that the
  buffers never overflow, that the driver refines a line editor on lists, and that a blocked
  \<^verbatim>\<open>terminal_read\<close> returns exactly the edited line once Enter is pressed.
\<close>

section \<open>Tables\<close>

abbreviation (input) TABLE_SIZE :: u8 where "TABLE_SIZE \<equiv> 0x3A"
abbreviation (input) CHARACTER_BUFFER_SIZE :: int where "CHARACTER_BUFFER_SIZE \<equiv> 128"

definition scancodeTable :: "u8 list list" where
  "scancodeTable =
     [[0, 0] @ cbytes ''1234567890-='' @ [0, 0] @ cbytes ''qwertyuiop[]'' @ [0, 0] @ cbytes ''asdfghjkl;'' @
        [0x27, 0x60, 0, 0x5C] @ cbytes ''zxcvbnm,./'' @ [0, 0x2A, 0, 0x20, 0],
      [0, 0] @ cbytes ''!@#$%^&*()_+'' @ [0, 0] @ cbytes ''QWERTYUIOP{}'' @ [0, 0] @ cbytes ''ASDFGHJKL:'' @
        [0x22, 0x7E, 0, 0x7C] @ cbytes ''ZXCVBNM<>?'' @ [0, 0x2A, 0, 0x20, 0],
      [0, 0] @ cbytes ''1234567890-='' @ [0, 0] @ cbytes ''QWERTYUIOP[]'' @ [0, 0] @ cbytes ''ASDFGHJKL;'' @
        [0x27, 0x60, 0, 0x5C] @ cbytes ''ZXCVBNM,./'' @ [0, 0x2A, 0, 0x20, 0],
      [0, 0] @ cbytes ''!@#$%^&*()_+'' @ [0, 0] @ cbytes ''qwertyuiop{}'' @ [0, 0] @ cbytes ''asdfghjkl:'' @
        [0x22, 0x7E, 0, 0x5C] @ cbytes ''zxcvbnm<>?'' @ [0, 0x2A, 0, 0x20, 0]]"

section \<open>Operations\<close>

text \<open>
  The wait for the keyboard's acknowledgement, over the bytes read from its port; \<open>None\<close> if
  none of them is the acknowledgement.
\<close>

fun ack_loop :: "u8 list \<Rightarrow> kernel \<Rightarrow> kernel option" where
  "ack_loop [] s = None"
| "ack_loop (check # ins) s =
     (let s = (if check = 0xFE then outb 0xF6 0x60 s else s)
      in if check \<noteq> 0xFA then ack_loop ins s else Some s)"

definition initialize_keyboard :: "u8 list \<Rightarrow> kernel \<Rightarrow> kernel option" where
  "initialize_keyboard ins s = map_option (enable_irq 1) (ack_loop ins (outb 0xF6 0x60 s))"

text \<open>\<^verbatim>\<open>char_buf[++buf_index[terminal_num]] = c\<close>\<close>

definition push_char :: "u8 \<Rightarrow> kernel \<Rightarrow> kernel option" where
  "push_char c s =
     do { let i = buf_index s (terminal_num s) + 1;
          buf \<leftarrow> (if 0 \<le> i then aset (char_buf s) (nat i) c else None);
          Some (s\<lparr>buf_index := (buf_index s)(terminal_num s := i), char_buf := buf\<rparr>) }"

definition defaultKeyPressed :: "u8 \<Rightarrow> kernel \<Rightarrow> kernel option" where
  "defaultKeyPressed c s =
     (let index = 2 * unat (capslock_flag s) + unat (shift_flag s) in
      if alt_flag s = 1 \<and> 0x3B \<le> c \<and> c \<le> 0x3D then Some (terminal_switch (unat (c - 0x3B)) s)
      else if c > TABLE_SIZE then Some s
      else do { tbl \<leftarrow> aget scancodeTable index;
                ch \<leftarrow> aget tbl (unat c);
                if ctrl_flag s = 1 \<and> (ch = 0x6C \<or> ch = 0x4C)
                then (let s = clear s; s = reset_screen s
                      in Some (s\<lparr>buf_index := (buf_index s)(terminal_num s := -1)\<rparr>))
                else if ch \<noteq> 0
                then if buf_index s (terminal_num s) < CHARACTER_BUFFER_SIZE - 2
                     then push_char ch (s\<lparr>isAdd := 1\<rparr>) else Some s
                else Some (s\<lparr>isAdd := 0\<rparr>) })"

text \<open>The copy of the line into the command buffer; the flag says that the newline was reached.\<close>

fun copy_command :: "u8 list \<Rightarrow> u8 list \<Rightarrow> u8 list \<times> bool" where
  "copy_command (r # row) (c # cs) =
     (if c = 0x0A then (c # row, True)
      else let (row', done) = copy_command row cs in (c # row', done))"
| "copy_command row cs = (row, False)"

definition enter_pressed :: "kernel \<Rightarrow> kernel option" where
  "enter_pressed s =
     do { let s = s\<lparr>enter_flag := 1\<rparr>;
          s \<leftarrow> push_char 0x0A s;
          first \<leftarrow> aget (command_buf s (terminal_num s)) 0;
          let s = (if first = 0
                   then let (row, done) = copy_command (command_buf s (terminal_num s)) (char_buf s);
                            s = s\<lparr>command_buf := (command_buf s)(terminal_num s := row)\<rparr>
                        in if done then set_t_enter_flag s else s
                   else s);
          Some (s\<lparr>isAdd := 1\<rparr>) }"

definition keyboard_output_dealer :: "u8 \<Rightarrow> kernel \<Rightarrow> kernel option" where
  "keyboard_output_dealer c s =
     (if c = 0x1C then enter_pressed s
      else if c = 0x2A \<or> c = 0x36 then Some (s\<lparr>shift_flag := 1\<rparr>)
      else if c = 0xAA \<or> c = 0xB6 then Some (s\<lparr>shift_flag := 0\<rparr>)
      else if c = 0x1D then Some (s\<lparr>ctrl_flag := 1\<rparr>)
      else if c = 0x9D then Some (s\<lparr>ctrl_flag := 0\<rparr>)
      else if c = 0x38 then Some (s\<lparr>alt_flag := 1\<rparr>)
      else if c = 0xB8 then Some (s\<lparr>alt_flag := 0\<rparr>)
      else if c = 0x0E
      then if buf_index s (terminal_num s) > -1
           then Some (backspace_pressed
                  (s\<lparr>buf_index := (buf_index s)(terminal_num s := buf_index s (terminal_num s) - 1)\<rparr>))
           else Some s
      else if c = 0x3A
      then if release_caps s = 1
           then Some (s\<lparr>capslock_flag := capslock_flag s XOR 1, release_caps := 0\<rparr>) else Some s
      else if c = 0xBA then Some (s\<lparr>release_caps := 1\<rparr>)
      else defaultKeyPressed c s)"

text \<open>The pointer \<^verbatim>\<open>char_buf + buf_index[terminal_num]\<close> the handler echoes from.\<close>

definition echo_ptr :: "kernel \<Rightarrow> rptr" where
  "echo_ptr s i = (let k = buf_index s (terminal_num s) + int (unat i)
                   in if 0 \<le> k then aget (char_buf s) (nat k) else None)"

definition keyboard_handler :: "u8 \<Rightarrow> kernel \<Rightarrow> kernel option" where
  "keyboard_handler c s =
     do { s \<leftarrow> keyboard_output_dealer c s;
          s \<leftarrow> (if isAdd s = 1
               then do { (ret, s) \<leftarrow> terminal_write 0 (Some (echo_ptr s)) 1 s; Some (s\<lparr>isAdd := 0\<rparr>) }
               else Some s);
          let s = (if enter_flag s = 1
                   then s\<lparr>buf_index := (buf_index s)(terminal_num s := -1), enter_flag := 0\<rparr> else s);
          let s = send_eoi 1 s;
          Some (sti s) }"

section \<open>What the screen operations leave alone\<close>

text \<open>\<open>screen_only s s'\<close>: at most memory, cursors, ports and the interrupt flag differ.\<close>

definition screen_only :: "kernel \<Rightarrow> kernel \<Rightarrow> bool" where
  "screen_only s s' \<longleftrightarrow> (\<exists>m x y out i. s' = s\<lparr>mem := m, screen_x := x, screen_y := y, outs := out, iflag := i\<rparr>)"

lemma screen_onlyI:
  "s' = s\<lparr>mem := m, screen_x := x, screen_y := y, outs := out, iflag := i\<rparr> \<Longrightarrow> screen_only s s'"
  unfolding screen_only_def by blast

lemma screen_only_refl [simp]: "screen_only s s"
  by (rule screen_onlyI [where m = "mem s" and x = "screen_x s" and y = "screen_y s" and out = "outs s" and i = "iflag s"]) simp

lemma screen_only_trans: "screen_only s s' \<Longrightarrow> screen_only s' s'' \<Longrightarrow> screen_only s s''"
  unfolding screen_only_def by fastforce

lemma screen_onlyD:
  assumes "screen_only s s'"
  shows "terminal_num s' = terminal_num s" "buf_index s' = buf_index s" "char_buf s' = char_buf s"
    and "command_buf s' = command_buf s" "t_enter_flag s' = t_enter_flag s" "isAdd s' = isAdd s"
    and "enter_flag s' = enter_flag s" "shift_flag s' = shift_flag s" "ctrl_flag s' = ctrl_flag s"
    and "alt_flag s' = alt_flag s" "capslock_flag s' = capslock_flag s" "release_caps s' = release_caps s"
    and "pcbs s' = pcbs s" "current_pid s' = current_pid s" "video_mem s' = video_mem s"
    and "PT1 s' = PT1 s" "rtc_interrupt_occured s' = rtc_interrupt_occured s"
  using assms by (auto simp: screen_only_def)

lemma screen_only_putc: "screen_only s (putc c s)"
  by (rule screen_onlyI [where m = "mem (putc c s)" and x = "screen_x (putc c s)" and y = "screen_y (putc c s)" and out = "outs s" and i = "iflag s"])
     (simp add: putc_def Let_def)

lemma screen_only_scroll: "screen_only s (scroll_screen s)"
  by (rule screen_onlyI [where m = "mem (scroll_screen s)" and x = "screen_x s" and y = "screen_y (scroll_screen s)" and out = "outs s" and i = "iflag s"])
     (simp add: scroll_screen_def Let_def)

lemma screen_only_write_char: "screen_only s (write_char c s)"
  unfolding write_char_def Let_def
  by (auto intro: screen_only_trans [OF _ screen_only_putc] screen_only_trans [OF screen_only_scroll screen_only_scroll]
      screen_only_scroll)

lemma screen_only_update_cursor: "screen_only s (update_cursor x y s)"
  by (rule screen_onlyI [where m = "mem s" and x = "screen_x s" and y = "screen_y s" and out = "outs (update_cursor x y s)" and i = "iflag s"])
     (simp add: update_cursor_def outb_def Let_def)

lemma screen_only_clear: "screen_only s (clear s)"
  by (rule screen_onlyI [where m = "mem (clear s)" and x = "screen_x s" and y = "screen_y s" and out = "outs s" and i = "iflag s"])
     (simp add: clear_def Let_def)

lemma screen_only_fields:
  "screen_only s (s\<lparr>screen_x := x, screen_y := y, mem := m\<rparr>)" "screen_only s (s\<lparr>screen_x := x, screen_y := y\<rparr>)"
  by (rule screen_onlyI [where m = m and x = x and y = y and out = "outs s" and i = "iflag s"], simp)
     (rule screen_onlyI [where m = "mem s" and x = x and y = y and out = "outs s" and i = "iflag s"], simp)

lemma screen_only_reset: "screen_only s (reset_screen s)"
  unfolding reset_screen_def Let_def
  by (rule screen_only_trans [OF screen_only_fields(2) screen_only_update_cursor])

lemma screen_only_backspace: "screen_only s (backspace_pressed s)"
  unfolding backspace_pressed_def Let_def
  by (simp only: split_beta) (rule screen_only_trans [OF screen_only_fields(1) screen_only_update_cursor])

lemma write_loop_screen_only:
  "write_loop buf i n s = Some s' \<Longrightarrow> screen_only s s'"
  by (induction buf i n s rule: write_loop.induct)
     (auto split: Option.bind_splits intro: screen_only_trans screen_only_write_char)

lemma screen_only_eoi: "screen_only s (sti (send_eoi n s))"
  by (rule screen_onlyI [where m = "mem s" and x = "screen_x s" and y = "screen_y s" and
        out = "outs (send_eoi n s)" and i = True])
     (simp add: send_eoi_def outb_def sti_def)

section \<open>No buffer overflow\<close>

definition kbd_inv :: "kernel \<Rightarrow> bool" where
  "kbd_inv s \<longleftrightarrow> terminal_num s < 3 \<and> length (char_buf s) = 128 \<and>
     (\<forall>t < 3. length (command_buf s t) = 128 \<and> -1 \<le> buf_index s t \<and> buf_index s t \<le> 126) \<and>
     shift_flag s \<in> {0, 1} \<and> ctrl_flag s \<in> {0, 1} \<and> alt_flag s \<in> {0, 1} \<and> capslock_flag s \<in> {0, 1} \<and>
     release_caps s \<in> {0, 1} \<and> isAdd s = 0 \<and> enter_flag s = 0"

lemma kbd_inv_cong: "screen_only s s' \<Longrightarrow> kbd_inv s' = kbd_inv s"
  by (simp add: kbd_inv_def screen_onlyD)

text \<open>The character a scancode stands for under the current modifiers; 0 if it has none.\<close>

definition key_char :: "bool \<Rightarrow> bool \<Rightarrow> u8 \<Rightarrow> u8" where
  "key_char caps shift c = scancodeTable ! (of_bool shift + 2 * of_bool caps) ! unat c"

lemma table_row_lengths: "list_all (\<lambda>r. length r = 59) scancodeTable" "length scancodeTable = 4"
  by (simp_all add: scancodeTable_def cbytes_def)

lemma table_chars: "list_all (list_all (\<lambda>ch. ch \<noteq> 0x0A \<and> ch \<noteq> 0x0D)) scancodeTable"
  by (simp add: scancodeTable_def cbytes_def)

lemma table_lookup:
  assumes "c \<le> 0x3A" "capslock_flag s \<in> {0, 1}" "shift_flag s \<in> {0, 1}"
  shows "do { tbl \<leftarrow> aget scancodeTable (2 * unat (capslock_flag s) + unat (shift_flag s));
              ch \<leftarrow> aget tbl (unat c); f ch } = f (key_char (capslock_flag s = 1) (shift_flag s = 1) c)"
proof -
  let ?i = "2 * unat (capslock_flag s) + unat (shift_flag s)"
  have i: "?i < 4" "?i = of_bool (shift_flag s = 1) + 2 * of_bool (capslock_flag s = 1)"
    using assms(2,3) by auto
  have "unat c < 59" using assms(1) by (simp add: word_le_nat_alt)
  moreover have "length (scancodeTable ! ?i) = 59"
    using table_row_lengths i(1) by (simp add: list_all_length)
  ultimately show ?thesis using i table_row_lengths(2) by (simp add: key_char_def)
qed

lemma key_char_printable:
  assumes "c \<le> 0x3A"
  shows "key_char caps shift c \<noteq> 0x0A" "key_char caps shift c \<noteq> 0x0D"
proof -
  let ?i = "of_bool shift + 2 * of_bool caps :: nat"
  have "?i < 4" by (auto simp: of_bool_def)
  moreover have "unat c < 59" using assms by (simp add: word_le_nat_alt)
  ultimately show "key_char caps shift c \<noteq> 0x0A" "key_char caps shift c \<noteq> 0x0D"
    using table_row_lengths table_chars by (simp_all add: list_all_length key_char_def)
qed

section \<open>The line editor\<close>

record editor =
  line :: "u8 list"
  eshift :: bool
  ectrl :: bool
  ealt :: bool
  ecaps :: bool
  erel :: bool

definition abs_editor :: "kernel \<Rightarrow> editor" where
  "abs_editor s = \<lparr>line = take (nat (buf_index s (terminal_num s) + 1)) (char_buf s),
     eshift = (shift_flag s = 1), ectrl = (ctrl_flag s = 1), ealt = (alt_flag s = 1),
     ecaps = (capslock_flag s = 1), erel = (release_caps s = 1)\<rparr>"

definition type_key :: "u8 \<Rightarrow> editor \<Rightarrow> editor" where
  "type_key c e =
     (if c = 0x1C then e\<lparr>line := []\<rparr>
      else if c = 0x2A \<or> c = 0x36 then e\<lparr>eshift := True\<rparr>
      else if c = 0xAA \<or> c = 0xB6 then e\<lparr>eshift := False\<rparr>
      else if c = 0x1D then e\<lparr>ectrl := True\<rparr>
      else if c = 0x9D then e\<lparr>ectrl := False\<rparr>
      else if c = 0x38 then e\<lparr>ealt := True\<rparr>
      else if c = 0xB8 then e\<lparr>ealt := False\<rparr>
      else if c = 0x0E then e\<lparr>line := butlast (line e)\<rparr>
      else if c = 0x3A then (if erel e then e\<lparr>ecaps := \<not> ecaps e, erel := False\<rparr> else e)
      else if c = 0xBA then e\<lparr>erel := True\<rparr>
      else if c > 0x3A then e
      else let ch = key_char (ecaps e) (eshift e) c in
        if ectrl e \<and> (ch = 0x6C \<or> ch = 0x4C) then e\<lparr>line := []\<rparr>
        else if ch \<noteq> 0 \<and> length (line e) < 127 then e\<lparr>line := line e @ [ch]\<rparr> else e)"

definition switch_key :: "u8 \<Rightarrow> editor \<Rightarrow> bool" where
  "switch_key c e \<longleftrightarrow> ealt e \<and> 0x3B \<le> c \<and> c \<le> 0x3D"

lemma push_char_Some:
  assumes "length (char_buf s) = 128" "-1 \<le> buf_index s (terminal_num s)" "buf_index s (terminal_num s) \<le> 126"
  shows "push_char c s = Some (s\<lparr>
      buf_index := (buf_index s)(terminal_num s := buf_index s (terminal_num s) + 1),
      char_buf := (char_buf s)[nat (buf_index s (terminal_num s) + 1) := c]\<rparr>)"
  using assms by (simp add: push_char_def aset_def Let_def)

lemma take_push:
  assumes "length cs = 128" "-1 \<le> i" "i \<le> 126"
  shows "take (nat (2 + i)) (cs[nat (i + 1) := c]) = take (nat (i + 1)) cs @ [c]"
proof -
  have "nat (2 + i) = Suc (nat (i + 1))" using assms(2) by simp
  then show ?thesis using assms by (simp add: take_Suc_conv_app_nth)
qed

lemma screen_only_upd:
  "screen_only s s' \<Longrightarrow> screen_only (s\<lparr>isAdd := v\<rparr>) (s'\<lparr>isAdd := v\<rparr>)"
  "screen_only s s' \<Longrightarrow>
     screen_only (s\<lparr>buf_index := b, enter_flag := w\<rparr>) (s'\<lparr>buf_index := b, enter_flag := w\<rparr>)"
proof -
  assume "screen_only s s'"
  then obtain m x y out i where s': "s' = s\<lparr>mem := m, screen_x := x, screen_y := y, outs := out, iflag := i\<rparr>"
    by (auto simp: screen_only_def)
  show "screen_only (s\<lparr>isAdd := v\<rparr>) (s'\<lparr>isAdd := v\<rparr>)"
    by (rule screen_onlyI [where m = m and x = x and y = y and out = out and i = i])
       (rule kernel.equality, simp_all add: s')
  show "screen_only (s\<lparr>buf_index := b, enter_flag := w\<rparr>) (s'\<lparr>buf_index := b, enter_flag := w\<rparr>)"
    by (rule screen_onlyI [where m = m and x = x and y = y and out = out and i = i])
       (rule kernel.equality, simp_all add: s')
qed

text \<open>The part of the handler after the scancode is dealt with: echo, reset, end of interrupt.\<close>

definition handler_tail :: "kernel \<Rightarrow> kernel option" where
  "handler_tail s =
     do { s \<leftarrow> (if isAdd s = 1
               then do { (ret, s) \<leftarrow> terminal_write 0 (Some (echo_ptr s)) 1 s; Some (s\<lparr>isAdd := 0\<rparr>) }
               else Some s);
          let s = (if enter_flag s = 1
                   then s\<lparr>buf_index := (buf_index s)(terminal_num s := -1), enter_flag := 0\<rparr> else s);
          let s = send_eoi 1 s;
          Some (sti s) }"

lemma keyboard_handler_tail: "keyboard_handler c s = Option.bind (keyboard_output_dealer c s) handler_tail"
  by (simp add: keyboard_handler_def handler_tail_def [abs_def])

lemma echo_write:
  assumes "length (char_buf s) = 128" "0 \<le> buf_index s (terminal_num s)" "buf_index s (terminal_num s) \<le> 127"
  shows "terminal_write 0 (Some (echo_ptr s)) 1 s =
    Some (1, write_char (char_buf s ! nat (buf_index s (terminal_num s))) s)"
proof -
  have "echo_ptr s 0 = Some (char_buf s ! nat (buf_index s (terminal_num s)))"
    using assms by (simp add: echo_ptr_def)
  then show ?thesis by (simp add: terminal_write_def)
qed

lemma handler_tail_Some:
  assumes "length (char_buf s) = 128" "isAdd s \<in> {0, 1}" "enter_flag s \<in> {0, 1}"
    and "isAdd s = 1 \<Longrightarrow> 0 \<le> buf_index s (terminal_num s) \<and> buf_index s (terminal_num s) \<le> 127"
  shows "\<exists>s'. handler_tail s = Some s' \<and>
    screen_only (s\<lparr>isAdd := 0, enter_flag := 0,
      buf_index := if enter_flag s = 1 then (buf_index s)(terminal_num s := -1) else buf_index s\<rparr>) s'"
proof -
  obtain u where u: "screen_only (s\<lparr>isAdd := 0\<rparr>) u"
    and t: "handler_tail s = Some (sti (send_eoi 1 (if enter_flag u = 1
              then u\<lparr>buf_index := (buf_index u)(terminal_num u := -1), enter_flag := 0\<rparr> else u)))"
  proof (cases "isAdd s = 1")
    case True
    let ?w = "write_char (char_buf s ! nat (buf_index s (terminal_num s))) s"
    have "screen_only (s\<lparr>isAdd := 0\<rparr>) (?w\<lparr>isAdd := 0\<rparr>)"
      by (rule screen_only_upd(1) [OF screen_only_write_char])
    then show thesis using that True assms echo_write [of s] by (simp add: handler_tail_def)
  next
    case False
    then have "s\<lparr>isAdd := 0\<rparr> = s" using assms(2) by (intro kernel.equality) simp_all
    then show thesis using that [of s] False by (simp add: handler_tail_def)
  qed
  have f: "enter_flag u = enter_flag s" "buf_index u = buf_index s" "terminal_num u = terminal_num s"
    using screen_onlyD [OF u] by simp_all
  show ?thesis
  proof (cases "enter_flag s = 1")
    case True
    let ?b = "(buf_index s)(terminal_num s := -1)"
    have "s\<lparr>isAdd := 0, enter_flag := 0, buf_index := ?b\<rparr> = s\<lparr>isAdd := 0, buf_index := ?b, enter_flag := 0\<rparr>"
      by (rule kernel.equality) simp_all
    then have "screen_only (s\<lparr>isAdd := 0, enter_flag := 0, buf_index := ?b\<rparr>) (u\<lparr>buf_index := ?b, enter_flag := 0\<rparr>)"
      using screen_only_upd(2) [OF u, where b = ?b and w = 0] by (simp only:)
    then show ?thesis
      using True t f screen_only_trans [OF _ screen_only_eoi] by simp
  next
    case False
    then have "s\<lparr>isAdd := 0, enter_flag := 0, buf_index := buf_index s\<rparr> = s\<lparr>isAdd := 0\<rparr>"
      using assms(3) by (intro kernel.equality) simp_all
    then show ?thesis using False t f u screen_only_trans [OF u screen_only_eoi] by simp
  qed
qed

lemma abs_editor_cong: "screen_only s s' \<Longrightarrow> abs_editor s' = abs_editor s"
  by (simp add: abs_editor_def screen_onlyD)

text \<open>The state after a scancode is dealt with and before the echo.\<close>

definition dealt_ok :: "kernel \<Rightarrow> bool" where
  "dealt_ok s \<longleftrightarrow> terminal_num s < 3 \<and> length (char_buf s) = 128 \<and>
     (\<forall>t < 3. length (command_buf s t) = 128 \<and> -1 \<le> buf_index s t \<and>
        (buf_index s t \<le> 126 \<or> (enter_flag s = 1 \<and> t = terminal_num s \<and> buf_index s t \<le> 127))) \<and>
     shift_flag s \<in> {0, 1} \<and> ctrl_flag s \<in> {0, 1} \<and> alt_flag s \<in> {0, 1} \<and> capslock_flag s \<in> {0, 1} \<and>
     release_caps s \<in> {0, 1} \<and> isAdd s \<in> {0, 1} \<and> enter_flag s \<in> {0, 1} \<and>
     (isAdd s = 1 \<longrightarrow> 0 \<le> buf_index s (terminal_num s))"

lemma kbd_inv_dealt_ok: "kbd_inv s \<Longrightarrow> dealt_ok s"
  by (auto simp: kbd_inv_def dealt_ok_def)

lemma tail_kbd_inv:
  assumes "dealt_ok s"
  shows "\<exists>s'. handler_tail s = Some s' \<and> kbd_inv s' \<and> terminal_num s' = terminal_num s \<and>
    command_buf s' = command_buf s \<and> t_enter_flag s' = t_enter_flag s \<and> pcbs s' = pcbs s \<and> current_pid s' = current_pid s \<and>
    abs_editor s' = (if enter_flag s = 1 then (abs_editor s)\<lparr>line := []\<rparr> else abs_editor s)"
proof -
  let ?u = "s\<lparr>isAdd := 0, enter_flag := 0,
      buf_index := if enter_flag s = 1 then (buf_index s)(terminal_num s := -1) else buf_index s\<rparr>"
  have "buf_index s (terminal_num s) \<le> 127" using assms by (fastforce simp: dealt_ok_def)
  then obtain s' where s': "handler_tail s = Some s'" "screen_only ?u s'"
    using handler_tail_Some [of s] assms by (auto simp: dealt_ok_def)
  have "kbd_inv ?u" using assms by (auto simp: dealt_ok_def kbd_inv_def)
  then have "kbd_inv s'" using kbd_inv_cong [OF s'(2)] by simp
  moreover have "abs_editor ?u = (if enter_flag s = 1 then (abs_editor s)\<lparr>line := []\<rparr> else abs_editor s)"
    by (simp add: abs_editor_def)
  ultimately show ?thesis using s' abs_editor_cong [OF s'(2)] screen_onlyD [OF s'(2)] by simp
qed

lemma line_length: "kbd_inv s \<Longrightarrow> length (line (abs_editor s)) = nat (buf_index s (terminal_num s) + 1)"
  by (auto simp: kbd_inv_def abs_editor_def)

text \<open>One scancode on the editor, before the handler's common end.\<close>

definition deals :: "u8 \<Rightarrow> kernel \<Rightarrow> bool" where
  "deals c s \<longleftrightarrow> (\<exists>s'. keyboard_output_dealer c s = Some s' \<and> dealt_ok s' \<and> terminal_num s' = terminal_num s \<and>
     pcbs s' = pcbs s \<and> current_pid s' = current_pid s \<and> enter_flag s' = 0 \<and>
     command_buf s' = command_buf s \<and> t_enter_flag s' = t_enter_flag s \<and>
     abs_editor s' = type_key c (abs_editor s))"

lemma dealsI:
  "keyboard_output_dealer c s = Some s' \<Longrightarrow> dealt_ok s' \<Longrightarrow> terminal_num s' = terminal_num s \<Longrightarrow>
   pcbs s' = pcbs s \<Longrightarrow> current_pid s' = current_pid s \<Longrightarrow> enter_flag s' = 0 \<Longrightarrow>
   command_buf s' = command_buf s \<Longrightarrow> t_enter_flag s' = t_enter_flag s \<Longrightarrow>
   abs_editor s' = type_key c (abs_editor s) \<Longrightarrow> deals c s"
  by (auto simp: deals_def)

lemma deals_modifier:
  assumes "kbd_inv s" "c \<in> {0x2A, 0x36, 0xAA, 0xB6, 0x1D, 0x9D, 0x38, 0xB8, 0xBA}"
  shows "deals c s"
proof -
  note inv = assms(1) [unfolded kbd_inv_def]
  show ?thesis
    using assms(2) inv
    by (elim insertE emptyE; hypsubst)
       (rule dealsI, simp add: keyboard_output_dealer_def, simp_all add: dealt_ok_def abs_editor_def type_key_def)+
qed

lemma deals_capslock:
  assumes "kbd_inv s"
  shows "deals 0x3A s"
proof (cases "release_caps s = 1")
  case True
  have x: "v XOR 1 \<in> {0, 1}" "(v XOR 1 = 1) = (v \<noteq> 1)" if "v \<in> {0, 1}" for v :: u8
    using that by auto
  note inv = assms [unfolded kbd_inv_def]
  then have caps: "capslock_flag s \<in> {0, 1}" by simp
  show ?thesis
    by (rule dealsI [where s' = "s\<lparr>capslock_flag := capslock_flag s XOR 1, release_caps := 0\<rparr>"])
       (use True inv x [OF caps] in \<open>simp_all add: keyboard_output_dealer_def dealt_ok_def abs_editor_def type_key_def\<close>)
next
  case False
  then show ?thesis
    using kbd_inv_dealt_ok [OF assms] assms
    by (intro dealsI [where s' = s])
       (simp_all add: keyboard_output_dealer_def abs_editor_def type_key_def kbd_inv_def)
qed

lemma deals_backspace:
  assumes "kbd_inv s"
  shows "deals 0x0E s"
proof (cases "buf_index s (terminal_num s) > -1")
  case True
  let ?u = "s\<lparr>buf_index := (buf_index s)(terminal_num s := buf_index s (terminal_num s) - 1)\<rparr>"
  have so: "screen_only ?u (backspace_pressed ?u)" by (rule screen_only_backspace)
  define i where "i = buf_index s (terminal_num s)"
  have i: "0 \<le> i" "i \<le> 126" "length (char_buf s) = 128"
    using True assms by (auto simp: kbd_inv_def i_def)
  have "take (nat i) (char_buf s) = butlast (take (nat (i + 1)) (char_buf s))"
    using i by (simp add: butlast_take nat_add_distrib)
  then have "abs_editor ?u = type_key 0x0E (abs_editor s)"
    by (simp add: abs_editor_def type_key_def i_def)
  moreover have "dealt_ok (backspace_pressed ?u)"
    using assms True by (auto simp: dealt_ok_def kbd_inv_def screen_onlyD [OF so])
  ultimately show ?thesis using True abs_editor_cong [OF so] assms
    by (intro dealsI [where s' = "backspace_pressed ?u"])
       (simp_all add: keyboard_output_dealer_def screen_onlyD [OF so] kbd_inv_def)
next
  case False
  then have "line (abs_editor s) = []" by (simp add: abs_editor_def)
  then have "type_key 0x0E (abs_editor s) = abs_editor s" by (simp add: type_key_def)
  then show ?thesis using False kbd_inv_dealt_ok [OF assms] assms
    by (intro dealsI [where s' = s]) (simp_all add: keyboard_output_dealer_def kbd_inv_def)
qed

definition special_keys :: "u8 set" where
  "special_keys = {0x1C, 0x2A, 0x36, 0xAA, 0xB6, 0x1D, 0x9D, 0x38, 0xB8, 0x0E, 0x3A, 0xBA}"

lemma dealer_default:
  "c \<notin> special_keys \<Longrightarrow> keyboard_output_dealer c s = defaultKeyPressed c s"
  by (simp add: special_keys_def keyboard_output_dealer_def)

lemma type_key_default:
  "c \<notin> special_keys \<Longrightarrow> type_key c e =
     (if c > 0x3A then e
      else if ectrl e \<and> (key_char (ecaps e) (eshift e) c = 0x6C \<or> key_char (ecaps e) (eshift e) c = 0x4C)
      then e\<lparr>line := []\<rparr>
      else if key_char (ecaps e) (eshift e) c \<noteq> 0 \<and> length (line e) < 127
      then e\<lparr>line := line e @ [key_char (ecaps e) (eshift e) c]\<rparr> else e)"
  by (simp add: special_keys_def type_key_def Let_def)

lemma deals_default:
  assumes inv: "kbd_inv s" and c: "c \<notin> special_keys" "\<not> switch_key c (abs_editor s)"
  shows "deals c s"
proof (cases "c > 0x3A")
  case True
  then have "defaultKeyPressed c s = Some s"
    using c(2) by (auto simp: defaultKeyPressed_def switch_key_def abs_editor_def Let_def)
  then show ?thesis
    using kbd_inv_dealt_ok [OF inv] inv c(1) True
    by (intro dealsI [where s' = s]) (simp_all add: dealer_default type_key_default kbd_inv_def)
next
  case False
  define ch where "ch = key_char (capslock_flag s = 1) (shift_flag s = 1) c"
  define i where "i = buf_index s (terminal_num s)"
  have i: "-1 \<le> i" "i \<le> 126" "length (char_buf s) = 128" "terminal_num s < 3" "isAdd s = 0"
    using inv by (auto simp: kbd_inv_def i_def)
  have alt: "\<not> (alt_flag s = 1 \<and> 0x3B \<le> c \<and> c \<le> 0x3D)"
    using c(2) by (simp add: switch_key_def abs_editor_def)
  have "c \<le> 0x3A" "capslock_flag s \<in> {0, 1}" "shift_flag s \<in> {0, 1}"
    using False inv by (simp_all add: kbd_inv_def)
  note look = table_lookup [OF this]
  have d: "defaultKeyPressed c s =
      (if ctrl_flag s = 1 \<and> (ch = 0x6C \<or> ch = 0x4C)
       then Some ((reset_screen (clear s))\<lparr>buf_index := (buf_index s)(terminal_num s := -1)\<rparr>)
       else if ch \<noteq> 0 then if i < 126 then push_char ch (s\<lparr>isAdd := 1\<rparr>) else Some s
       else Some (s\<lparr>isAdd := 0\<rparr>))"
    unfolding defaultKeyPressed_def Let_def if_not_P [OF alt] if_not_P [OF False] look ch_def [symmetric] i_def [symmetric]
    using screen_onlyD(1,2) [OF screen_only_clear [of s]] screen_onlyD(1,2) [OF screen_only_reset [of "clear s"]]
    by auto
  have t: "type_key c (abs_editor s) =
      (if ctrl_flag s = 1 \<and> (ch = 0x6C \<or> ch = 0x4C) then (abs_editor s)\<lparr>line := []\<rparr>
       else if ch \<noteq> 0 \<and> i < 126 then (abs_editor s)\<lparr>line := line (abs_editor s) @ [ch]\<rparr> else abs_editor s)"
    using False c(1) line_length [OF inv] i
    by (auto simp: type_key_default ch_def i_def abs_editor_def)
  consider "ctrl_flag s = 1 \<and> (ch = 0x6C \<or> ch = 0x4C)"
    | "\<not> (ctrl_flag s = 1 \<and> (ch = 0x6C \<or> ch = 0x4C))" "ch \<noteq> 0" "i < 126"
    | "\<not> (ctrl_flag s = 1 \<and> (ch = 0x6C \<or> ch = 0x4C))" "ch = 0 \<or> \<not> i < 126"
    by blast
  then show ?thesis
  proof cases
    case 1
    have so: "screen_only s (reset_screen (clear s))"
      by (rule screen_only_trans [OF screen_only_clear screen_only_reset])
    let ?s = "(reset_screen (clear s))\<lparr>buf_index := (buf_index s)(terminal_num s := -1)\<rparr>"
    have "abs_editor ?s = (abs_editor s)\<lparr>line := []\<rparr>"
      by (simp add: abs_editor_def screen_onlyD [OF so])
    moreover have "dealt_ok ?s" using inv by (simp add: dealt_ok_def kbd_inv_def screen_onlyD [OF so])
    ultimately show ?thesis
      using 1 inv c(1)
      by (intro dealsI [where s' = ?s]) (simp_all add: dealer_default d t screen_onlyD [OF so] kbd_inv_def)
  next
    case 2
    let ?s = "s\<lparr>isAdd := 1, buf_index := (buf_index s)(terminal_num s := i + 1), char_buf := (char_buf s)[nat (i + 1) := ch]\<rparr>"
    have "push_char ch (s\<lparr>isAdd := 1\<rparr>) = Some ?s"
      using push_char_Some [of "s\<lparr>isAdd := 1\<rparr>" ch] i by (simp add: i_def)
    moreover have "abs_editor ?s = (abs_editor s)\<lparr>line := line (abs_editor s) @ [ch]\<rparr>"
      using take_push [OF i(3,1,2), of ch] by (simp add: abs_editor_def i_def)
    moreover have "dealt_ok ?s" using inv 2 i by (simp add: dealt_ok_def kbd_inv_def)
    ultimately show ?thesis
      using 2 inv c(1) by (intro dealsI [where s' = ?s]) (auto simp: dealer_default d t kbd_inv_def)
  next
    case 3
    have "s\<lparr>isAdd := 0\<rparr> = s" using i(5) by (intro kernel.equality) simp_all
    then have "defaultKeyPressed c s = Some s" using 3 unfolding d by auto
    then show ?thesis
      using 3 kbd_inv_dealt_ok [OF inv] inv c(1)
      by (intro dealsI [where s' = s]) (auto simp: dealer_default t kbd_inv_def)
  qed
qed

lemma dealer_plain:
  assumes "kbd_inv s" "c \<noteq> 0x1C" "\<not> switch_key c (abs_editor s)"
  shows "deals c s"
proof (cases "c \<in> special_keys")
  case True
  then have "c \<in> {0x2A, 0x36, 0xAA, 0xB6, 0x1D, 0x9D, 0x38, 0xB8, 0xBA} \<or> c = 0x3A \<or> c = 0x0E"
    using assms(2) by (auto simp: special_keys_def)
  then show ?thesis
    using deals_modifier deals_capslock deals_backspace assms(1) by blast
next
  case False
  then show ?thesis using deals_default assms by blast
qed

lemma editor_step:
  assumes "kbd_inv s" "c \<noteq> 0x1C" "\<not> switch_key c (abs_editor s)"
  shows "\<exists>s'. keyboard_handler c s = Some s' \<and> kbd_inv s' \<and> terminal_num s' = terminal_num s \<and>
    pcbs s' = pcbs s \<and> current_pid s' = current_pid s \<and>
    command_buf s' = command_buf s \<and> t_enter_flag s' = t_enter_flag s \<and>
    abs_editor s' = type_key c (abs_editor s)"
proof -
  have "deals c s" using dealer_plain [OF assms] .
  then obtain u where u: "keyboard_output_dealer c s = Some u" "dealt_ok u" "terminal_num u = terminal_num s"
      "pcbs u = pcbs s" "current_pid u = current_pid s" "enter_flag u = 0"
      "command_buf u = command_buf s" "t_enter_flag u = t_enter_flag s" "abs_editor u = type_key c (abs_editor s)"
    by (auto simp: deals_def)
  from tail_kbd_inv [OF u(2)] show ?thesis using u by (auto simp: keyboard_handler_tail)
qed

section \<open>Enter hands the line to the reader\<close>

lemma copy_command_line:
  assumes "0x0A \<notin> set l" "length l < length cmd"
  shows "copy_command cmd (l @ 0x0A # rest) = (l @ 0x0A # drop (Suc (length l)) cmd, True)"
  using assms
proof (induction l arbitrary: cmd)
  case Nil
  then show ?case by (cases cmd) auto
next
  case (Cons c l)
  then show ?case by (cases cmd) auto
qed

lemma read_line_line: "0x0A \<notin> set l \<Longrightarrow> read_line (l @ 0x0A # rest) = Some (l @ [0x0A])"
  by (induction l) auto

lemma editor_enter:
  assumes inv: "kbd_inv s" and nl: "0x0A \<notin> set (line (abs_editor s))"
    and empty: "hd (command_buf s (terminal_num s)) = 0"
  shows "\<exists>s'. keyboard_handler 0x1C s = Some s' \<and> kbd_inv s' \<and> terminal_num s' = terminal_num s \<and>
    pcbs s' = pcbs s \<and> current_pid s' = current_pid s \<and> t_enter_flag s' (terminal_num s) = 1 \<and>
    (\<exists>rest. command_buf s' (terminal_num s) = line (abs_editor s) @ 0x0A # rest) \<and>
    abs_editor s' = type_key 0x1C (abs_editor s)"
proof -
  let ?t = "terminal_num s"
  define i where "i = buf_index s ?t"
  define l where "l = line (abs_editor s)"
  define cmd where "cmd = command_buf s ?t"
  have i: "-1 \<le> i" "i \<le> 126" "length (char_buf s) = 128" "?t < 3" "length cmd = 128"
    using inv by (auto simp: kbd_inv_def i_def cmd_def)
  have l: "l = take (nat (i + 1)) (char_buf s)" "length l = nat (i + 1)"
    using i by (auto simp: l_def abs_editor_def i_def)
  let ?buf = "(char_buf s)[nat (i + 1) := 0x0A]"
  have buf: "?buf = l @ 0x0A # drop (Suc (nat (i + 1))) (char_buf s)"
    using i l by (simp add: upd_conv_take_nth_drop)
  have copy: "copy_command cmd ?buf = (l @ 0x0A # drop (Suc (length l)) cmd, True)"
    unfolding buf using nl l i by (intro copy_command_line) (auto simp: l_def)
  have hd0: "aget cmd 0 = Some 0" using empty i(5) by (cases cmd) (auto simp: cmd_def)
  let ?u = "s\<lparr>enter_flag := 1, buf_index := (buf_index s)(?t := i + 1), char_buf := ?buf,
     command_buf := (command_buf s)(?t := l @ 0x0A # drop (Suc (length l)) cmd),
     t_enter_flag := (t_enter_flag s)(?t := 1), isAdd := 1\<rparr>"
  have push: "push_char 0x0A (s\<lparr>enter_flag := 1\<rparr>) =
      Some (s\<lparr>enter_flag := 1, buf_index := (buf_index s)(?t := i + 1), char_buf := ?buf\<rparr>)"
    using push_char_Some [of "s\<lparr>enter_flag := 1\<rparr>" "0x0A"] i by (simp add: i_def)
  have d: "keyboard_output_dealer 0x1C s = Some ?u"
    unfolding keyboard_output_dealer_def enter_pressed_def Let_def push
    using copy hd0 by (simp add: set_t_enter_flag_def cmd_def)
  have "length (l @ 0x0A # drop (Suc (length l)) cmd) = 128" using i l by simp
  then have ok: "dealt_ok ?u" using inv i unfolding dealt_ok_def kbd_inv_def by simp
  have e: "(abs_editor ?u)\<lparr>line := []\<rparr> = type_key 0x1C (abs_editor s)"
    by (simp add: type_key_def abs_editor_def)
  obtain s' where "handler_tail ?u = Some s'" "kbd_inv s'" "terminal_num s' = ?t"
      "command_buf s' = (command_buf s)(?t := l @ 0x0A # drop (Suc (length l)) cmd)"
      "t_enter_flag s' = (t_enter_flag s)(?t := 1)" "pcbs s' = pcbs s" "current_pid s' = current_pid s"
      "abs_editor s' = (abs_editor ?u)\<lparr>line := []\<rparr>"
    using tail_kbd_inv [OF ok] by auto
  then show ?thesis unfolding keyboard_handler_tail d e by (simp add: l_def)
qed

text \<open>A run of scancodes, each handled by one interrupt.\<close>

definition kbd_interrupt :: "u8 \<Rightarrow> kernel \<Rightarrow> kernel" where
  "kbd_interrupt c s = (case keyboard_handler c s of Some s' \<Rightarrow> s' | None \<Rightarrow> s)"

fun plain_keys :: "u8 list \<Rightarrow> editor \<Rightarrow> bool" where
  "plain_keys [] e = True"
| "plain_keys (c # cs) e = (c \<noteq> 0x1C \<and> \<not> switch_key c e \<and> plain_keys cs (type_key c e))"

lemma type_key_no_newline: "0x0A \<notin> set (line e) \<Longrightarrow> 0x0A \<notin> set (line (type_key c e))"
  using key_char_printable(1) [where c = c and caps = "ecaps e" and shift = "eshift e"]
  by (auto simp: type_key_def Let_def dest: in_set_butlastD)

lemma spin_keys:
  assumes "kbd_inv s" "plain_keys cs (abs_editor s)" "0x0A \<notin> set (line (abs_editor s))"
    and "hd (command_buf s (terminal_num s)) = 0" "t_enter_flag s (terminal_num s) = 0"
    and "get_tty s = terminal_num s"
  shows "\<exists>s'. spin (\<lambda>s. t_enter_flag s (get_tty s) = 0) (map kbd_interrupt (cs @ [0x1C])) s = Some s' \<and>
    get_tty s' = terminal_num s \<and>
    (\<exists>rest. command_buf s' (terminal_num s) = line (fold type_key cs (abs_editor s)) @ 0x0A # rest)"
  using assms
proof (induction cs arbitrary: s)
  case Nil
  obtain s' where "keyboard_handler 0x1C s = Some s'" "terminal_num s' = terminal_num s"
      "pcbs s' = pcbs s" "current_pid s' = current_pid s" "t_enter_flag s' (terminal_num s) = 1"
      "\<exists>rest. command_buf s' (terminal_num s) = line (abs_editor s) @ 0x0A # rest"
    using editor_enter [OF Nil(1,3,4)] by auto
  then show ?case using Nil(5,6) by (auto simp: kbd_interrupt_def get_tty_def cur_pcb_def)
next
  case (Cons c cs)
  obtain u where u: "keyboard_handler c s = Some u" "kbd_inv u" "terminal_num u = terminal_num s"
      "pcbs u = pcbs s" "current_pid u = current_pid s" "command_buf u = command_buf s"
      "t_enter_flag u = t_enter_flag s" "abs_editor u = type_key c (abs_editor s)"
    using editor_step [of s c] Cons.prems(1,2) by auto
  have "get_tty u = get_tty s" using u by (simp add: get_tty_def cur_pcb_def)
  then show ?case
    using Cons.IH [of u] Cons.prems u type_key_no_newline [OF Cons.prems(3), of c]
    by (simp add: kbd_interrupt_def)
qed

lemma terminal_read_line:
  assumes inv: "kbd_inv s" and keys: "plain_keys cs (abs_editor s)" and nl: "0x0A \<notin> set (line (abs_editor s))"
    and tty: "get_tty s = terminal_num s" and buf: "buf \<noteq> 0"
  shows "\<exists>s'. terminal_read (map kbd_interrupt (cs @ [0x1C])) fd buf n s =
    Some (int (length (line (fold type_key cs (abs_editor s)))) + 1, line (fold type_key cs (abs_editor s)) @ [0x0A], s')"
proof -
  let ?t = "terminal_num s"
  let ?l = "line (fold type_key cs (abs_editor s))"
  let ?u = "s\<lparr>t_enter_flag := (t_enter_flag s)(?t := 0), command_buf := (command_buf s)(?t := (command_buf s ?t)[0 := 0])\<rparr>"
  have "0 < length (command_buf s ?t)" using inv by (simp add: kbd_inv_def)
  then have hd: "hd (command_buf ?u (terminal_num ?u)) = 0" by (cases "command_buf s ?t") auto
  have e: "abs_editor ?u = abs_editor s" by (simp add: abs_editor_def)
  have u: "kbd_inv ?u" "get_tty ?u = terminal_num ?u"
    using inv tty by (auto simp: kbd_inv_def get_tty_def cur_pcb_def)
  have "0x0A \<notin> set ?l"
    using nl by (induction cs arbitrary: s rule: rev_induct) (auto simp: type_key_no_newline)
  obtain s' rest where "spin (\<lambda>s. t_enter_flag s (get_tty s) = 0) (map kbd_interrupt (cs @ [0x1C])) ?u = Some s'"
      "get_tty s' = ?t" "command_buf s' ?t = ?l @ 0x0A # rest"
    using spin_keys [OF u(1) _ _ hd _ u(2), of cs] keys nl unfolding e by auto
  then show ?thesis
    using buf tty read_line_line [OF \<open>0x0A \<notin> set ?l\<close>, of rest]
    by (auto simp: terminal_read_def Let_def)
qed

text \<open>All scancodes, in every state the invariant allows, are handled without leaving a buffer.\<close>

lemma kbd_inv_switch:
  assumes "kbd_inv s" "n < 3"
  shows "kbd_inv (terminal_switch n s)"
proof -
  let ?u = "s\<lparr>
     mem := memcpy (memcpy (mem s) (backup_mem_addr (terminal_num s)) VIDEO 4096) VIDEO (backup_mem_addr n) 4096,
     video_mem := (video_mem s)(terminal_num s := backup_mem_addr (terminal_num s), n := VIDEO),
     PT1 := (PT1 s)(terminal_num s := VID_MEM_BACKUP (terminal_num s), n := USER_VID_MEM_ENTRY),
     terminal_num := n, cr3 := (cr3 s AND 0xFFF) + PDT_addr s\<rparr>"
  have r: "screen_only v (recolor v)" for v
    by (rule screen_onlyI [where m = "mem (recolor v)" and x = "screen_x v" and y = "screen_y v" and
          out = "outs v" and i = "iflag v"]) (simp add: recolor_def Let_def)
  have "screen_only ?u (terminal_switch n s)"
    unfolding terminal_switch_eq by (rule screen_only_trans [OF screen_only_update_cursor r])
  moreover have "kbd_inv ?u" using assms unfolding kbd_inv_def by simp
  ultimately show ?thesis using kbd_inv_cong by blast
qed

lemma copy_command_length: "length (fst (copy_command cmd cs)) = length cmd"
  by (induction cmd cs rule: copy_command.induct) (auto simp: split_beta)

lemma dealer_enter_ok:
  assumes inv: "kbd_inv s"
  shows "\<exists>u. keyboard_output_dealer 0x1C s = Some u \<and> dealt_ok u"
proof -
  let ?t = "terminal_num s"
  define i where "i = buf_index s ?t"
  have i: "-1 \<le> i" "i \<le> 126" "length (char_buf s) = 128" "?t < 3" "length (command_buf s ?t) = 128"
    using inv by (auto simp: kbd_inv_def i_def)
  let ?v = "s\<lparr>enter_flag := 1, buf_index := (buf_index s)(?t := i + 1), char_buf := (char_buf s)[nat (i + 1) := 0x0A]\<rparr>"
  have push: "push_char 0x0A (s\<lparr>enter_flag := 1\<rparr>) = Some ?v"
    using push_char_Some [of "s\<lparr>enter_flag := 1\<rparr>" "0x0A"] i by (simp add: i_def)
  obtain cmd fin where cc: "copy_command (command_buf s ?t) (char_buf ?v) = (cmd, fin)" by fastforce
  then have "length cmd = 128"
    using copy_command_length [of "command_buf s ?t" "char_buf ?v"] i(5) by simp
  then have "dealt_ok (?v\<lparr>command_buf := (command_buf s)(?t := cmd), t_enter_flag := f, isAdd := 1\<rparr>)"
    "dealt_ok (?v\<lparr>command_buf := (command_buf s)(?t := cmd), isAdd := 1\<rparr>)" "dealt_ok (?v\<lparr>isAdd := 1\<rparr>)" for f
    using inv i unfolding dealt_ok_def kbd_inv_def by simp_all
  then show ?thesis
    unfolding keyboard_output_dealer_def enter_pressed_def Let_def push
    using i(5) cc by (auto simp: set_t_enter_flag_def split: if_splits)
qed

lemma dealer_total:
  assumes "kbd_inv s"
  shows "\<exists>u. keyboard_output_dealer c s = Some u \<and> dealt_ok u"
proof -
  consider "c = 0x1C" | "switch_key c (abs_editor s)" "c \<noteq> 0x1C" | "c \<noteq> 0x1C" "\<not> switch_key c (abs_editor s)"
    by blast
  then show ?thesis
  proof cases
    case 1
    then show ?thesis using dealer_enter_ok [OF assms] by simp
  next
    case 2
    then have c: "0x3B \<le> c" "c \<le> 0x3D" "alt_flag s = 1" by (auto simp: switch_key_def abs_editor_def)
    then have "unat (c - 0x3B) < 3" "c \<notin> special_keys"
      by (auto simp: unat_sub word_le_nat_alt special_keys_def)
    then show ?thesis
      using c kbd_inv_dealt_ok [OF kbd_inv_switch [OF assms]] by (auto simp: dealer_default defaultKeyPressed_def Let_def)
  next
    case 3
    then show ?thesis using dealer_plain [OF assms] by (auto simp: deals_def)
  qed
qed

lemma keyboard_handler_total:
  assumes "kbd_inv s"
  shows "\<exists>s'. keyboard_handler c s = Some s' \<and> kbd_inv s'"
proof -
  obtain u where "keyboard_output_dealer c s = Some u" "dealt_ok u" using dealer_total [OF assms] by blast
  then show ?thesis using tail_kbd_inv [of u] by (auto simp: keyboard_handler_tail)
qed

end
