(* ===== verification/Filesystem.thy ===== *)
theory Filesystem
  imports Printf
begin

text \<open>
  \<^verbatim>\<open>student-distrib/filesystem.c\<close>: the read-only file system whose image lies in memory at
  \<open>fs_start\<close> (boot block with 64-byte directory entries, inodes, data blocks of 4 KB). The
  routines read the image byte by byte from memory, with the 32-bit arithmetic of the code.
  A buffer argument that is only written is an address; the bytes stored there are returned as
  a list. A buffer that is only read is a pointer, with \<open>None\<close> for NULL where the code tests it.
  The lemmas show that name lookup is a search in the list of entries, that
  \<^verbatim>\<open>read_data\<close> returns exactly the requested slice of the file, and that a descriptor read in
  chunks yields the file in order.
\<close>

section \<open>Structures of filesystem.h\<close>

record dentry_t =
  file_name :: "u8 list"
  file_type :: u32
  inode_number :: u32

abbreviation (input) MAX_NAME_LENGTH :: u32 where "MAX_NAME_LENGTH \<equiv> 32"
abbreviation (input) DENTRY_SIZE :: u32 where "DENTRY_SIZE \<equiv> 64"
abbreviation (input) FOUR_KB :: u32 where "FOUR_KB \<equiv> 4096"

section \<open>Directory entries\<close>

text \<open>The copy of a directory entry into the caller's structure.\<close>

definition copy_dentry :: "mem \<Rightarrow> u32 \<Rightarrow> dentry_t" where
  "copy_dentry m cur = \<lparr>file_name = map (\<lambda>k. m (cur + of_nat k)) [0..<32],
                        file_type = load32 m (cur + 32), inode_number = load32 m (cur + 36)\<rparr>"

text \<open>
  The inner loop of \<^verbatim>\<open>read_dentry_by_name\<close>: \<^verbatim>\<open>match\<close> and the final \<^verbatim>\<open>j\<close>. The entry's characters
  are signed and those of the argument unsigned, and the comparison promotes both to \<^verbatim>\<open>int\<close>.
\<close>

function match_loop :: "mem \<Rightarrow> u32 \<Rightarrow> rptr \<Rightarrow> u32 \<Rightarrow> u32 \<Rightarrow> (bool \<times> u32) option" where
  "match_loop m cur fname name_length j =
     (if j < name_length
      then do { c \<leftarrow> fname j;
                if sint (m (cur + j)) \<noteq> uint c then Some (False, j)
                else match_loop m cur fname name_length (j + 1) }
      else Some (True, j))"
  by pat_completeness auto
termination
  by (relation "measure (\<lambda>(m, cur, fname, n, j). unat n - unat j)")
     (auto simp: unat_Suc_u32 word_less_nat_alt)

declare match_loop.simps [simp del]

definition entry_matches :: "mem \<Rightarrow> u32 \<Rightarrow> rptr \<Rightarrow> u32 \<Rightarrow> bool option" where
  "entry_matches m cur fname name_length =
     do { (matching, j) \<leftarrow> match_loop m cur fname name_length 0;
          Some (if matching \<and> j < MAX_NAME_LENGTH then m (cur + j) = 0 else matching) }"

text \<open>
  The outer loop, with the number of entries left; the outer \<open>None\<close> is an access outside the
  name, the inner one the result \<^verbatim>\<open>-1\<close>.
\<close>

fun find_loop :: "mem \<Rightarrow> rptr \<Rightarrow> u32 \<Rightarrow> u32 \<Rightarrow> nat \<Rightarrow> dentry_t option option" where
  "find_loop m fname name_length cur 0 = Some None"
| "find_loop m fname name_length cur (Suc left) =
     do { matching \<leftarrow> entry_matches m cur fname name_length;
          if matching then Some (Some (copy_dentry m cur))
          else find_loop m fname name_length (cur + DENTRY_SIZE) left }"

definition read_dentry_by_name :: "rptr \<Rightarrow> kernel \<Rightarrow> dentry_t option option" where
  "read_dentry_by_name fname s =
     do { n \<leftarrow> strlen fname;
          let n = (if n > MAX_NAME_LENGTH then MAX_NAME_LENGTH else n);
          let dentry_count = sint (load32 (mem s) (fs_start s));
          find_loop (mem s) fname n (fs_start s + DENTRY_SIZE) (nat dentry_count) }"

definition read_dentry_by_index :: "u32 \<Rightarrow> kernel \<Rightarrow> dentry_t option" where
  "read_dentry_by_index index s =
     (let dentry_count = load32 (mem s) (fs_start s)
      in if index > dentry_count then None
         else Some (copy_dentry (mem s) (fs_start s + (index + 1) * DENTRY_SIZE)))"

section \<open>File contents\<close>

function seek_loop :: "u32 \<Rightarrow> u32 \<Rightarrow> u32 \<times> u32" where
  "seek_loop byte_number data_block_index =
     (if byte_number \<ge> FOUR_KB then seek_loop (byte_number - FOUR_KB) (data_block_index + 1)
      else (byte_number, data_block_index))"
  by pat_completeness auto
termination
  by (relation "measure (unat \<circ> fst)") (auto simp: unat_sub word_le_nat_alt)

declare seek_loop.simps [simp del]

definition inode_ptr :: "kernel \<Rightarrow> u32 \<Rightarrow> u32" where
  "inode_ptr s inode = fs_start s + (1 + inode) * FOUR_KB"

definition inode_length :: "kernel \<Rightarrow> u32 \<Rightarrow> u32" where
  "inode_length s inode = load32 (mem s) (inode_ptr s inode)"

definition data_block_address :: "kernel \<Rightarrow> u32 \<Rightarrow> u32 \<Rightarrow> u32" where
  "data_block_address s inode data_block_index =
     (let inode_count = load32 (mem s) (fs_start s + 4);
          number = load32 (mem s) (inode_ptr s inode + 4 + 4 * data_block_index)
      in fs_start s + (inode_count + 1 + number) * FOUR_KB)"

function copy_loop :: "kernel \<Rightarrow> u32 \<Rightarrow> u32 \<Rightarrow> u32 \<Rightarrow> u32 \<Rightarrow> u32 \<Rightarrow> u32 \<Rightarrow> u32 \<Rightarrow> u8 list" where
  "copy_loop s inode len copied_count offset byte_number data_block_index block_address =
     (if copied_count < len then
        let b = mem s (block_address + byte_number);
            copied_count = copied_count + 1;
            byte_number = byte_number + 1;
            offset = offset + 1;
            (byte_number, data_block_index, block_address) =
              (if byte_number \<ge> FOUR_KB
               then (0, data_block_index + 1, data_block_address s inode (data_block_index + 1))
               else (byte_number, data_block_index, block_address))
        in if offset = inode_length s inode then [b]
           else b # copy_loop s inode len copied_count offset byte_number data_block_index block_address
      else [])"
  by pat_completeness auto
termination
  by (relation "measure (\<lambda>(s, inode, len, copied, rest). unat len - unat copied)")
     (auto simp: unat_Suc_u32 word_less_nat_alt)

declare copy_loop.simps [simp del]

definition read_data :: "u32 \<Rightarrow> u32 \<Rightarrow> u32 \<Rightarrow> kernel \<Rightarrow> u8 list" where
  "read_data inode offset len s =
     (if offset \<ge> inode_length s inode then []
      else let (byte_number, data_block_index) = seek_loop offset 0
           in copy_loop s inode len 0 offset byte_number data_block_index
                (data_block_address s inode data_block_index))"

definition set_fs_start :: "u32 \<Rightarrow> kernel \<Rightarrow> kernel option" where
  "set_fs_start mod_start s =
     do { let s = s\<lparr>fs_start := mod_start\<rparr>;
          let dentry_count = load32 (mem s) (fs_start s);
          let inode_count = load32 (mem s) (fs_start s + 4);
          s \<leftarrow> kprintf (cbytes ''Dentry Count: %d '' @ [0x0A]) [dentry_count] s;
          s \<leftarrow> kprintf (cbytes ''Inode Count: %d '' @ [0x0A]) [inode_count] s;
          Some (fold (\<lambda>i s. s\<lparr>dentry_table_flags := (dentry_table_flags s)(i := 0)\<rparr>) [0..<8] s) }"

section \<open>The operations of the file and directory jump tables\<close>

text \<open>A read returns its C result, the bytes stored into the buffer and the new state.\<close>

definition open_file :: "rptr \<Rightarrow> kernel \<Rightarrow> int \<times> kernel" where
  "open_file filename s = (1, s)"

definition read_file :: "nat \<Rightarrow> u32 \<Rightarrow> u32 \<Rightarrow> kernel \<Rightarrow> int \<times> u8 list \<times> kernel" where
  "read_file fd buf nbytes s =
     (let e = fd_entry (cur_pcb s) fd;
          bytes = read_data (inode_index e) (file_position e) nbytes s
      in (int (length bytes), bytes,
          set_fd fd (e\<lparr>file_position := file_position e + of_nat (length bytes)\<rparr>) s))"

definition write_file :: "nat \<Rightarrow> rptr option \<Rightarrow> u32 \<Rightarrow> kernel \<Rightarrow> int \<times> kernel" where
  "write_file fd buf nbytes s = (-1, s)"

definition close_file :: "nat \<Rightarrow> kernel \<Rightarrow> int \<times> kernel" where
  "close_file fd s = (0, s)"

definition open_directory :: "rptr \<Rightarrow> kernel \<Rightarrow> int \<times> kernel" where
  "open_directory filename s = (0, s)"

fun copy_name :: "u8 list \<Rightarrow> u8 list" where
  "copy_name [] = []"
| "copy_name (c # cs) = (if c = 0 then [] else c # copy_name cs)"

definition read_directory :: "nat \<Rightarrow> u32 \<Rightarrow> u32 \<Rightarrow> kernel \<Rightarrow> int \<times> u8 list \<times> kernel" where
  "read_directory fd buf nbytes s =
     (let e = fd_entry (cur_pcb s) fd;
          directory_position = file_position e;
          dentry_count = load32 (mem s) (fs_start s)
      in if sint directory_position \<ge> sint dentry_count then (0, [], s)
         else case read_dentry_by_index directory_position s of
                None \<Rightarrow> (-1, [], s)
              | Some current \<Rightarrow>
                  (let bytes = copy_name (file_name current)
                   in (int (length bytes), bytes,
                       set_fd fd (e\<lparr>file_position := file_position e + 1\<rparr>) s)))"

definition write_directory :: "nat \<Rightarrow> rptr option \<Rightarrow> u32 \<Rightarrow> kernel \<Rightarrow> int \<times> kernel" where
  "write_directory fd buf nbytes s = (-1, s)"

definition close_directory :: "nat \<Rightarrow> kernel \<Rightarrow> int \<times> kernel" where
  "close_directory fd s = (0, s)"

definition test_set_flags :: "nat \<Rightarrow> int \<Rightarrow> kernel \<Rightarrow> kernel" where
  "test_set_flags index v s = s\<lparr>dentry_table_flags := (dentry_table_flags s)(index := v)\<rparr>"

definition test_read_flags :: "nat \<Rightarrow> kernel \<Rightarrow> int" where
  "test_read_flags index s = dentry_table_flags s index"

section \<open>Name lookup is a search in the directory\<close>

definition dentry_list :: "kernel \<Rightarrow> dentry_t list" where
  "dentry_list s = map (\<lambda>i. copy_dentry (mem s) (fs_start s + of_nat (i + 1) * DENTRY_SIZE))
     [0..<nat (sint (load32 (mem s) (fs_start s)))]"

definition entry_name :: "dentry_t \<Rightarrow> u8 list" where
  "entry_name d = takeWhile (\<lambda>c. c \<noteq> 0) (file_name d)"

lemma copy_name_takeWhile: "copy_name cs = takeWhile (\<lambda>c. c \<noteq> 0) cs"
  by (induction cs) auto

lemma signed_eq_unsigned_u8: "sint (a :: u8) = uint c \<longleftrightarrow> a = c \<and> c < 128"
proof
  assume eq: "sint a = uint c"
  have "a = word_of_int (sint a)" by simp
  also have "\<dots> = c" unfolding eq by simp
  finally have "a = c" .
  moreover have "sint a < 128" using sint_lt [of a] by simp
  ultimately show "a = c \<and> c < 128" using eq by (simp add: word_less_def)
next
  assume "a = c \<and> c < 128"
  then have "a = c" "uint c < 128" by (auto simp: word_less_def)
  then show "sint a = uint c"
    by (simp add: sint_uint signed_take_bit_int_eq_self order_trans [of _ 0])
qed

lemma takeWhile_nonzero_iff:
  "\<forall>z \<in> set zs. z \<noteq> 0 \<Longrightarrow> length zs \<le> length ys \<Longrightarrow>
   takeWhile (\<lambda>c. c \<noteq> 0) ys = zs \<longleftrightarrow>
   take (length zs) ys = zs \<and> (length zs < length ys \<longrightarrow> ys ! length zs = (0 :: u8))"
proof (induction zs arbitrary: ys)
  case Nil
  then show ?case by (cases ys) auto
next
  case (Cons z zs)
  then obtain y ys' where "ys = y # ys'" by (cases ys) auto
  with Cons show ?case by auto
qed

lemma match_loop_spec:
  assumes "cstr fname xs" "n \<le> length xs" "k \<le> n"
  shows "\<exists>b j. match_loop m cur fname (of_nat n) (of_nat k) = Some (b, j) \<and>
    (b \<longleftrightarrow> (\<forall>i \<in> {k..<n}. sint (m (cur + of_nat i)) = uint (xs ! i))) \<and> (b \<longrightarrow> j = of_nat n)"
  using assms(3)
proof (induction "n - k" arbitrary: k)
  case 0
  then show ?case by (subst match_loop.simps) (auto intro: exI [of _ True])
next
  case (Suc d)
  then have k: "k < n" by simp
  have len: "length xs < 4294967296" by (rule cstr_length [OF assms(1)])
  have lt: "(of_nat k :: u32) < of_nat n"
    using k assms(2) len by (simp add: word_less_nat_alt unat_of_nat_u32)
  have c: "fname (of_nat k) = Some (xs ! k)" using cstr_char [OF assms(1), of k] k assms(2) by simp
  have split: "{k..<n} = insert k {Suc k..<n}" using k by auto
  show ?case
  proof (cases "sint (m (cur + of_nat k)) = uint (xs ! k)")
    case True
    from Suc have "d = n - Suc k" "Suc k \<le> n" by auto
    from Suc.hyps(1) [OF this] show ?thesis
      using lt c True by (subst match_loop.simps) (auto simp: split add.commute)
  next
    case False
    then show ?thesis using lt c k by (subst match_loop.simps) (auto simp: split)
  qed
qed

definition name_found :: "u8 list \<Rightarrow> dentry_t \<Rightarrow> bool" where
  "name_found xs d \<longleftrightarrow> entry_name d = take 32 xs \<and> (\<forall>c \<in> set (take 32 xs). c < 128)"

lemma entry_matches_spec:
  assumes "cstr fname xs"
  shows "entry_matches m cur fname (of_nat (min 32 (length xs))) =
    Some (name_found xs (copy_dentry m cur))"
proof -
  let ?n = "min 32 (length xs)" and ?ys = "map (\<lambda>k. m (cur + of_nat k)) [0..<32]"
  obtain b j where mj: "match_loop m cur fname (of_nat ?n) 0 = Some (b, j)"
    and b: "b \<longleftrightarrow> (\<forall>i \<in> {0..<?n}. m (cur + of_nat i) = xs ! i \<and> xs ! i < 128)"
    and j: "b \<longrightarrow> j = of_nat ?n"
    using match_loop_spec [OF assms, of ?n 0 m cur] by (auto simp: signed_eq_unsigned_u8)
  have lt: "(of_nat ?n :: u32) < 32 \<longleftrightarrow> ?n < 32"
    by (simp add: word_less_nat_alt unat_of_nat_u32)
  have nz: "\<forall>z \<in> set (take 32 xs). z \<noteq> 0"
    using assms by (auto simp: cstr_def in_set_conv_nth)
  have tk: "take ?n ?ys = take 32 xs \<longleftrightarrow> (\<forall>i < ?n. m (cur + of_nat i) = xs ! i)"
    by (auto simp: list_eq_iff_nth_eq)
  have "name_found xs (copy_dentry m cur) \<longleftrightarrow>
      take ?n ?ys = take 32 xs \<and> (?n < 32 \<longrightarrow> ?ys ! ?n = 0) \<and> (\<forall>i < ?n. xs ! i < 128)"
    using takeWhile_nonzero_iff [OF nz, of ?ys]
    by (auto simp: name_found_def entry_name_def copy_dentry_def min.commute all_set_conv_all_nth)
  also have "\<dots> \<longleftrightarrow> b \<and> (?n < 32 \<longrightarrow> m (cur + of_nat ?n) = 0)"
    unfolding tk b by auto
  finally show ?thesis using mj j lt by (auto simp: entry_matches_def)
qed

lemma find_loop_spec:
  assumes "cstr fname xs"
  shows "find_loop m fname (of_nat (min 32 (length xs))) (a + of_nat i * 64) n =
    Some (List.find (name_found xs) (map (\<lambda>i. copy_dentry m (a + of_nat i * 64)) [i..<i + n]))"
proof (induction n arbitrary: i)
  case (Suc n)
  have "[i..<i + Suc n] = i # [Suc i..<Suc i + n]" by (simp add: upt_conv_Cons del: upt_Suc)
  then show ?case
    using entry_matches_spec [OF assms] Suc [of "Suc i"] by (simp add: algebra_simps)
qed simp

lemma read_dentry_by_name_find:
  assumes "cstr fname xs"
  shows "read_dentry_by_name fname s = Some (List.find (name_found xs) (dentry_list s))"
proof -
  have len: "length xs < 4294967296" by (rule cstr_length [OF assms])
  then have n: "(if of_nat (length xs) > (32 :: u32) then 32 else of_nat (length xs)) =
      (of_nat (min 32 (length xs)) :: u32)"
    by (auto simp: word_less_nat_alt unat_of_nat_u32 min_def)
  have one: "(of_nat (Suc 0) :: u32) = 1" by simp
  have upt: "map f [Suc 0..<Suc k] = map (\<lambda>i. f (Suc i)) [0..<k]" for f :: "nat \<Rightarrow> dentry_t" and k
    by (simp add: map_Suc_upt [symmetric] comp_def del: upt_Suc)
  show ?thesis
    using find_loop_spec [OF assms, of "mem s" "fs_start s" 1 "nat (sint (load32 (mem s) (fs_start s)))"]
    by (simp add: read_dentry_by_name_def strlen_cstr [OF assms] n dentry_list_def upt one
        del: upt_Suc of_nat_Suc)
qed

section \<open>Reading a slice of a file\<close>

text \<open>The bytes of a file: its data blocks in order, cut at the length the inode records.\<close>

definition file_byte :: "kernel \<Rightarrow> u32 \<Rightarrow> nat \<Rightarrow> u8" where
  "file_byte s inode i = mem s (data_block_address s inode (of_nat (i div 4096)) + of_nat (i mod 4096))"

definition file_bytes :: "kernel \<Rightarrow> u32 \<Rightarrow> u8 list" where
  "file_bytes s inode = map (file_byte s inode) [0..<unat (inode_length s inode)]"

lemma length_file_bytes [simp]: "length (file_bytes s inode) = unat (inode_length s inode)"
  by (simp add: file_bytes_def)

lemma seek_loop_spec:
  "seek_loop b i = (of_nat (unat b mod 4096), i + of_nat (unat b div 4096))"
proof (induction b i rule: seek_loop.induct)
  case (1 b i)
  show ?case
  proof (cases "b \<ge> 4096")
    case True
    then have b: "unat (b - 4096) = unat b - 4096" "4096 \<le> unat b"
      by (auto simp: unat_sub word_le_nat_alt)
    then obtain d where d: "unat b = d + 4096" by (metis le_add_diff_inverse2)
    then have "unat b div 4096 = Suc (d div 4096)" "unat b mod 4096 = d mod 4096" by simp_all
    then show ?thesis using 1 [OF True] True b d by (subst seek_loop.simps) simp
  next
    case False
    then have "unat b < 4096" by (simp add: word_le_nat_alt)
    then show ?thesis using False by (subst seek_loop.simps) simp
  qed
qed

lemma Suc_div_mod_4096:
  "Suc k div 4096 = (if k mod 4096 = 4095 then Suc (k div 4096) else k div 4096)"
  "Suc k mod 4096 = (if k mod 4096 = 4095 then 0 else Suc (k mod 4096))"
  by (simp_all add: div_Suc mod_Suc)

lemma copy_loop_spec:
  assumes "k < unat (inode_length s inode)" "unat c \<le> unat len"
  shows "copy_loop s inode len c (of_nat k) (of_nat (k mod 4096)) (of_nat (k div 4096))
      (data_block_address s inode (of_nat (k div 4096))) =
    take (unat len - unat c) (drop k (file_bytes s inode))"
  using assms
proof (induction "unat len - unat c" arbitrary: c k)
  case 0
  then show ?case by (subst copy_loop.simps) (simp add: word_less_nat_alt)
next
  case (Suc d)
  let ?f = "file_bytes s inode"
  have "c < len" using Suc.hyps(2) by (simp add: word_less_nat_alt)
  then have c: "c < len" "unat (c + 1) = Suc (unat c)" by (simp_all add: unat_Suc_u32)
  have k32: "Suc k < 4294967296"
    using Suc.prems(1) unat_less_u32 [of "inode_length s inode"] by linarith
  have ge: "(of_nat (k mod 4096) + 1 :: u32) \<ge> 4096 \<longleftrightarrow> k mod 4096 = 4095"
  proof -
    have "of_nat (k mod 4096) + 1 = (of_nat (Suc (k mod 4096)) :: u32)" by simp
    moreover have "Suc (k mod 4096) < 4294967296"
      by (rule less_trans [of _ 4097]) (simp_all add: less_Suc_eq_le)
    ultimately show ?thesis using mod_less_divisor [of 4096 k]
      by (simp only: word_le_nat_alt unat_of_nat_u32) auto
  qed
  have next_state: "(if (of_nat (k mod 4096) + 1 :: u32) \<ge> 4096
       then (0, of_nat (k div 4096) + 1, data_block_address s inode (of_nat (k div 4096) + 1))
       else (of_nat (k mod 4096) + 1, of_nat (k div 4096), data_block_address s inode (of_nat (k div 4096)))) =
     (of_nat (Suc k mod 4096), of_nat (Suc k div 4096), data_block_address s inode (of_nat (Suc k div 4096)))"
    unfolding ge Suc_div_mod_4096 by (simp add: add.commute)
  have last: "(of_nat k + 1 :: u32) = inode_length s inode \<longleftrightarrow> Suc k = unat (inode_length s inode)"
  proof -
    have "of_nat k + 1 = (of_nat (Suc k) :: u32)" by simp
    then show ?thesis
      using k32 by (auto simp: unat_inj_u32 [symmetric] unat_of_nat_u32 simp del: of_nat_Suc)
  qed
  have b: "mem s (data_block_address s inode (of_nat (k div 4096)) + of_nat (k mod 4096)) = ?f ! k"
    using Suc.prems(1) by (simp add: file_bytes_def file_byte_def)
  have split: "drop k ?f = ?f ! k # drop (Suc k) ?f"
    using Suc.prems(1) by (simp add: Cons_nth_drop_Suc)
  have take: "take (unat len - unat c) (drop k ?f) = ?f ! k # take (unat len - unat (c + 1)) (drop (Suc k) ?f)"
    unfolding split using c(2) Suc.hyps(2) by (simp add: Suc_diff_Suc [symmetric] take_Cons')
  show ?case
  proof (cases "Suc k = unat (inode_length s inode)")
    case True
    then show ?thesis using c(1) unfolding take
      by (subst copy_loop.simps) (simp add: next_state last b)
  next
    case False
    have "copy_loop s inode len (c + 1) (of_nat (Suc k)) (of_nat (Suc k mod 4096))
        (of_nat (Suc k div 4096)) (data_block_address s inode (of_nat (Suc k div 4096))) =
        take (unat len - unat (c + 1)) (drop (Suc k) ?f)"
      using Suc.hyps(2) Suc.prems False c by (intro Suc.hyps(1)) auto
    then show ?thesis using c(1) False unfolding take of_nat_Suc_u32 [of k]
      by (subst copy_loop.simps) (simp add: next_state last b)
  qed
qed

lemma read_data_slice:
  "read_data inode offset len s = take (unat len) (drop (unat offset) (file_bytes s inode))"
proof (cases "offset \<ge> inode_length s inode")
  case True
  then show ?thesis by (simp add: read_data_def word_le_nat_alt)
next
  case False
  then have "unat offset < unat (inode_length s inode)" by (simp add: word_le_nat_alt)
  from copy_loop_spec [OF this, of 0 len] show ?thesis
    using False by (simp add: read_data_def seek_loop_spec)
qed

text \<open>Every open file on the descriptor \<open>fd\<close> has a rest: what is left to read.\<close>

definition file_rest :: "nat \<Rightarrow> kernel \<Rightarrow> u8 list" where
  "file_rest fd s = (let e = fd_entry (cur_pcb s) fd
                     in drop (unat (file_position e)) (file_bytes s (inode_index e)))"

lemma set_fd_image [simp, frame_simps]:
  "mem (set_fd fd e s) = mem s" "fs_start (set_fd fd e s) = fs_start s"
  by (simp_all add: set_fd_def set_cur_pcb_def set_pcb_def)

lemma file_bytes_cong:
  "mem s' = mem s \<Longrightarrow> fs_start s' = fs_start s \<Longrightarrow> file_bytes s' inode = file_bytes s inode"
  by (simp add: file_bytes_def file_byte_def inode_length_def inode_ptr_def data_block_address_def)

lemma read_file_bytes: "fst (snd (read_file fd buf n s)) = take (unat n) (file_rest fd s)"
  by (simp add: read_file_def read_data_slice file_rest_def Let_def)

lemma read_file_rest: "file_rest fd (snd (snd (read_file fd buf n s))) = drop (unat n) (file_rest fd s)"
proof -
  define e where "e = fd_entry (cur_pcb s) fd"
  define f where "f = file_bytes s (inode_index e)"
  define p where "p = file_position e"
  let ?bs = "take (unat n) (drop (unat p) f)"
  let ?s = "set_fd fd (e\<lparr>file_position := p + of_nat (length ?bs)\<rparr>) s"
  have len: "length f < 4294967296" by (simp add: f_def unat_less_u32)
  have pos: "unat (p + of_nat (length ?bs)) = unat p + length ?bs"
  proof -
    have "length ?bs < 4294967296" "unat p + length ?bs < 4294967296"
      using len unat_less_u32 [of p] by auto
    then show ?thesis by (simp add: unat_word_ariths unat_of_nat_u32 del: length_take length_drop)
  qed
  have "drop (unat p + length ?bs) f = drop (unat n) (drop (unat p) f)"
    by (cases "unat n \<le> length f - unat p") (auto simp: min_def add.commute)
  moreover have "snd (snd (read_file fd buf n s)) = ?s"
    by (simp add: read_file_def read_data_slice e_def p_def f_def Let_def)
  moreover have "file_bytes ?s (inode_index e) = f"
    unfolding f_def by (rule file_bytes_cong) simp_all
  moreover have "file_rest fd s = drop (unat p) f" by (simp add: file_rest_def e_def f_def p_def Let_def)
  ultimately show ?thesis
    by (simp add: file_rest_def Let_def pos del: length_take length_drop drop_drop)
qed

section \<open>Reading in chunks\<close>

text \<open>
  The contract of a sequential byte source: a read returns the next bytes of what is left and
  consumes them. Client: a loop that reads chunks of \<open>n\<close> bytes until a read returns nothing
  collects everything that was left. \<open>drain\<close> is that loop, with a bound on its rounds.
\<close>

fun drain :: "('s \<Rightarrow> u8 list \<times> 's) \<Rightarrow> nat \<Rightarrow> 's \<Rightarrow> (u8 list \<times> 's) option" where
  "drain rd 0 s = None"
| "drain rd (Suc fuel) s =
     (let (bs, s') = rd s
      in if bs = [] then Some ([], s')
         else do { (rest, s'') \<leftarrow> drain rd fuel s'; Some (bs @ rest, s'') })"

locale byte_source =
  fixes rd :: "u32 \<Rightarrow> 's \<Rightarrow> u8 list \<times> 's" and rest :: "'s \<Rightarrow> u8 list"
  assumes rd_bytes: "fst (rd n s) = take (unat n) (rest s)"
    and rd_rest: "rest (snd (rd n s)) = drop (unat n) (rest s)"
begin

lemma drain_all:
  assumes "0 < n"
  shows "length (rest s) < fuel \<Longrightarrow> \<exists>s'. drain (rd n) fuel s = Some (rest s, s') \<and> rest s' = []"
proof (induction fuel arbitrary: s)
  case (Suc fuel)
  obtain bs s' where r: "rd n s = (bs, s')" by fastforce
  have n: "0 < unat n" using assms by (simp add: word_less_nat_alt)
  have bs: "bs = take (unat n) (rest s)" and rest: "rest s' = drop (unat n) (rest s)"
    using rd_bytes [of n s] rd_rest [of n s] r by simp_all
  show ?case
  proof (cases "rest s = []")
    case True
    then show ?thesis using r bs rest by simp
  next
    case False
    then have "0 < length (rest s)" by simp
    then have "length (rest s') < fuel" using rest n Suc.prems by (simp only: length_drop)
    from Suc.IH [OF this] show ?thesis using r bs rest False n by auto
  qed
qed simp

lemma rd_empty_iff: "0 < n \<Longrightarrow> fst (rd n s) = [] \<longleftrightarrow> rest s = []"
  by (auto simp: rd_bytes word_less_nat_alt)

end

interpretation file_source: byte_source "\<lambda>n s. snd (read_file fd buf n s)" "file_rest fd" for fd buf
  by unfold_locales (simp_all add: read_file_bytes read_file_rest)

section \<open>Directory reads\<close>

lemma read_directory_entry:
  assumes "sint (file_position (fd_entry (cur_pcb s) fd)) = int i" "i < length (dentry_list s)"
  shows "read_directory fd buf n s =
    (int (length (entry_name (dentry_list s ! i))), entry_name (dentry_list s ! i),
     set_fd fd ((fd_entry (cur_pcb s) fd)\<lparr>file_position := of_nat (Suc i)\<rparr>) s)"
proof -
  define p where "p = file_position (fd_entry (cur_pcb s) fd)"
  define c where "c = load32 (mem s) (fs_start s)"
  have len: "int i < sint c" using assms(2) by (simp add: dentry_list_def c_def)
  have p: "p = of_nat i" using assms(1) unfolding p_def [symmetric]
    by (metis of_int_of_nat_eq of_int_sint scast_id)
  have "sint c < 2147483648" using sint_lt [of c] by simp
  then have i: "unat p = i" using len unfolding p by (intro unat_of_nat_u32) linarith
  obtain k where k: "sint c = int k" using len by (metis of_nat_0_le_iff nat_0_le order_le_less_trans order_less_imp_le)
  have "c = word_of_int (sint c)" by simp
  then have "c = of_nat k" by (simp only: k of_int_of_nat_eq)
  then have uc: "unat c = k" using k \<open>sint c < 2147483648\<close> by (simp add: unat_of_nat_u32)
  then have le: "\<not> c < p" using i len k by (simp add: word_less_nat_alt)
  then show ?thesis
    using assms(1) len i
    by (auto simp: read_directory_def read_dentry_by_index_def p_def [symmetric] c_def [symmetric] p
        Let_def copy_name_takeWhile entry_name_def dentry_list_def add.commute)
qed

end
