(* ===== verification/Rtc.thy ===== *)
theory Rtc
  imports Console
begin

text \<open>
  The real-time clock driver, \<^verbatim>\<open>student-distrib/rtc.c\<close>. The values read from its data port are
  arguments of the operations that read it. The lemmas give the rate programmed for a requested
  frequency and what its interrupt handler leaves alone.
\<close>

section \<open>Operations\<close>

abbreviation (input) RTC_PORT :: u16 where "RTC_PORT \<equiv> 0x70"
abbreviation (input) COMS_PORT :: u16 where "COMS_PORT \<equiv> 0x71"
abbreviation (input) RTC_REG_A :: u8 where "RTC_REG_A \<equiv> 0x8A"
abbreviation (input) RTC_REG_B :: u8 where "RTC_REG_B \<equiv> 0x8B"
abbreviation (input) RTC_REG_C :: u8 where "RTC_REG_C \<equiv> 0x0C"
abbreviation (input) MAX_FREQ :: u32 where "MAX_FREQ \<equiv> 1024"

definition initialize_RTC :: "u8 \<Rightarrow> kernel \<Rightarrow> kernel" where
  "initialize_RTC regB s =
     (let s = outb RTC_REG_B RTC_PORT s;
          regB = regB OR 0x40;
          s = outb RTC_REG_B RTC_PORT s;
          s = outb regB COMS_PORT s;
          s = enable_irq 2 s;
          s = enable_irq 8 s
      in outb RTC_REG_C RTC_PORT s)"

text \<open>The search for the rate; \<open>None\<close> is the early return. The rate stays below 17, so its 8 bits suffice.\<close>

function rate_loop :: "u32 \<Rightarrow> nat \<Rightarrow> nat option" where
  "rate_loop freq rate =
     (if drop_bit (rate - 1) 32768 \<noteq> freq
      then if rate + 1 > 15 then None else rate_loop freq (rate + 1)
      else Some rate)"
  by pat_completeness auto
termination
  by (relation "measure (\<lambda>(freq, rate). 16 - rate)") auto

declare rate_loop.simps [simp del]

definition changeFreq_RTC :: "u32 \<Rightarrow> u8 \<Rightarrow> kernel \<Rightarrow> kernel" where
  "changeFreq_RTC freq regA s =
     (if freq > MAX_FREQ then s
      else case rate_loop freq 1 of
             None \<Rightarrow> s
           | Some rate \<Rightarrow>
               outb ((regA AND 0xF0) OR of_nat rate) COMS_PORT
                 (outb RTC_REG_A RTC_PORT (outb RTC_REG_A RTC_PORT s)))"

definition open_RTC :: "u8 \<Rightarrow> rptr \<Rightarrow> kernel \<Rightarrow> int \<times> kernel" where
  "open_RTC regA filename s = (0, changeFreq_RTC 2 regA s)"

definition read_RTC ::
  "(kernel \<Rightarrow> kernel) list \<Rightarrow> nat \<Rightarrow> u32 \<Rightarrow> u32 \<Rightarrow> kernel \<Rightarrow> (int \<times> u8 list \<times> kernel) option" where
  "read_RTC handlers fd buf nbytes s =
     do { s \<leftarrow> spin (\<lambda>s. rtc_interrupt_occured s (get_tty s) = 1) handlers
                (s\<lparr>rtc_interrupt_occured := (rtc_interrupt_occured s)(get_tty s := 1)\<rparr>);
          Some (0, [], s) }"

text \<open>The 32-bit value behind a read-only pointer.\<close>

definition load32_ptr :: "rptr \<Rightarrow> u32 option" where
  "load32_ptr p =
     do { b0 \<leftarrow> p 0; b1 \<leftarrow> p 1; b2 \<leftarrow> p 2; b3 \<leftarrow> p 3;
          Some (of_nat (unat b0 + 256 * unat b1 + 65536 * unat b2 + 16777216 * unat b3)) }"

definition write_RTC :: "u8 \<Rightarrow> nat \<Rightarrow> rptr option \<Rightarrow> u32 \<Rightarrow> kernel \<Rightarrow> (int \<times> kernel) option" where
  "write_RTC regA fd buf nbytes s =
     (case buf of
        None \<Rightarrow> Some (-1, s)
      | Some p \<Rightarrow>
          if nbytes \<noteq> 4 then Some (-1, s)
          else do { frequency \<leftarrow> load32_ptr p;
                    Some (sint nbytes, changeFreq_RTC frequency regA s) })"

definition close_RTC :: "nat \<Rightarrow> kernel \<Rightarrow> int \<times> kernel" where
  "close_RTC fd s = (0, s)"

definition RTC_handler :: "kernel \<Rightarrow> kernel" where
  "RTC_handler s =
     (let s = s\<lparr>rtc_interrupt_occured := (rtc_interrupt_occured s)(0 := 0, 1 := 0, 2 := 0)\<rparr>;
          s = outb RTC_REG_C RTC_PORT s
      in send_eoi 8 s)"

text \<open>\<^verbatim>\<open>test_interrupts\<close> of \<^verbatim>\<open>lib.c\<close>.\<close>

definition test_interrupts :: "kernel \<Rightarrow> kernel" where
  "test_interrupts s =
     (let s = (cli s)\<lparr>RTC_STATUS := 1\<rparr>;
          b = video_mem s (terminal_num s);
          s = fold (\<lambda>i s. s\<lparr>mem := (mem s)(cell b (2 * int i + 1) :=
                  if RTC_STATUS s = 1 then mem s (cell b (2 * int i + 1)) + 1 else SCREEN_COLOR (terminal_num s))\<rparr>)
                [0..<2000] s;
          s = outb 0x0C 0x70 s;
          s = send_eoi 8 s
      in RTC_handler (sti s))"

section \<open>Programming the rate\<close>

text \<open>The frequencies the driver accepts: the powers of two from 2 to 1024 Hz.\<close>

definition rtc_freq :: "u32 \<Rightarrow> bool" where
  "rtc_freq f \<longleftrightarrow> f \<in> {2, 4, 8, 16, 32, 64, 128, 256, 512, 1024}"

lemma rate_loop_table:
  "map (\<lambda>k. rate_loop (2 ^ k) 1) [1..<11] = map (\<lambda>k. Some (16 - k)) [1..<11]"
  by (simp add: rate_loop.simps upt_rec)

lemma rate_loop_sound: "rate_loop f r = Some k \<Longrightarrow> 0 < r \<Longrightarrow> r \<le> 15 \<Longrightarrow> f = drop_bit (k - 1) 32768 \<and> r \<le> k \<and> k \<le> 15"
proof (induction f r rule: rate_loop.induct)
  case (1 f r)
  show ?case
  proof (cases "drop_bit (r - 1) 32768 = f")
    case True
    then show ?thesis using 1(2-) by (auto simp: rate_loop.simps [of f r])
  next
    case False
    then have r: "\<not> 15 < r + 1" "rate_loop f (r + 1) = Some k"
      using 1(2) by (auto simp: rate_loop.simps [of f r] split: if_splits)
    then show ?thesis using 1(1) [OF False r(1) r(2)] by simp
  qed
qed

lemma rate_freqs:
  assumes "1 \<le> k" "k \<le> 15" "drop_bit (k - 1) 32768 \<le> (1024 :: u32)"
  shows "rtc_freq (drop_bit (k - 1) 32768)"
proof -
  have "\<forall>k \<in> set [1..<16]. drop_bit (k - 1) 32768 \<le> (1024 :: u32) \<longrightarrow> rtc_freq (drop_bit (k - 1) 32768)"
    by (simp add: upt_rec rtc_freq_def del: set_upt)
  moreover have "k \<in> set [1..<16]" using assms(1,2) by simp
  ultimately show ?thesis using assms(3) by blast
qed

lemma changeFreq_rejects:
  assumes "\<not> rtc_freq f"
  shows "changeFreq_RTC f regA s = s"
proof (cases "f > 1024 \<or> rate_loop f 1 = None")
  case True
  then show ?thesis by (auto simp: changeFreq_RTC_def)
next
  case False
  then obtain k where k: "rate_loop f 1 = Some k" "f \<le> 1024" by auto
  then have "f = drop_bit (k - 1) 32768" "1 \<le> k" "k \<le> 15"
    using rate_loop_sound [OF k(1)] by auto
  with rate_freqs [of k] k(2) assms show ?thesis by simp
qed

lemma changeFreq_programs:
  assumes "1 \<le> k" "k \<le> 10"
  shows "changeFreq_RTC (2 ^ k) regA s =
    s\<lparr>outs := outs s @ [(0x70, 0x8A), (0x70, 0x8A), (0x71, (regA AND 0xF0) OR of_nat (16 - k))]\<rparr>"
proof -
  have "rate_loop (2 ^ k) 1 = Some (16 - k)"
    using rate_loop_table assms by (simp add: map_eq_conv)
  moreover have "\<forall>k \<in> set [1..<11]. \<not> (2 ^ k :: u32) > 1024"
    by (simp add: upt_rec del: set_upt)
  then have "\<not> (2 ^ k :: u32) > 1024" using assms by simp
  ultimately show ?thesis by (simp add: changeFreq_RTC_def outb_def)
qed

section \<open>Waiting for the clock\<close>

lemma RTC_handler_frame [frame_simps]:
  "get_tty (RTC_handler s) = get_tty s" "pcbs (RTC_handler s) = pcbs s"
  "current_pid (RTC_handler s) = current_pid s" "mem (RTC_handler s) = mem s"
  by (simp_all add: RTC_handler_def send_eoi_def outb_def get_tty_def cur_pcb_def)

lemma RTC_handler_clears: "t < 3 \<Longrightarrow> rtc_interrupt_occured (RTC_handler s) t = 0"
  by (auto simp: RTC_handler_def send_eoi_def outb_def)

end
