(* ===== verification/Descriptors.thy ===== *)
theory Descriptors
  imports Keyboard Filesystem Rtc
begin

text \<open>
  File descriptors, \<^verbatim>\<open>student-distrib/system_call.c\<close>: the jump tables of the drivers and the
  calls \<^verbatim>\<open>read\<close>, \<^verbatim>\<open>write\<close>, \<^verbatim>\<open>open\<close>, \<^verbatim>\<open>close\<close> (their names carry the suffix \<open>_call\<close>). \<open>None\<close> is a
  call the C code has no defined result for (an array left, a NULL or mismatched function
  pointer), or a blocking read that is still waiting. The lemmas show that the descriptor table
  stays well-formed, that the drivers keep it, and what each call does on every branch.
\<close>

section \<open>Jump tables\<close>

definition stdin_table :: "fop option list" where
  "stdin_table = [Some Null_func, Some Terminal_read, Some Null_func, Some Null_func]"

definition stdout_table :: "fop option list" where
  "stdout_table = [Some Null_func, Some Null_func, Some Terminal_write, Some Null_func]"

definition rtc_table :: "fop option list" where
  "rtc_table = [Some Open_RTC, Some Read_RTC, Some Write_RTC, Some Close_RTC]"

definition file_table :: "fop option list" where
  "file_table = [Some Open_file, Some Read_file, Some Write_file, Some Close_file]"

definition directory_table :: "fop option list" where
  "directory_table = [Some Open_directory, Some Read_directory, Some Write_directory, Some Close_directory]"

definition null_func :: "kernel \<Rightarrow> int \<times> kernel" where
  "null_func s = (0, s)"

text \<open>What the environment supplies: the RTC's register A and the interrupts during a wait.\<close>

record environment =
  regA :: u8
  handlers :: "(kernel \<Rightarrow> kernel) list"

text \<open>
  The calls through \<^verbatim>\<open>operations_pointer\<close>. A pointer to a function of another kind has no result.
\<close>

definition operation :: "nat \<Rightarrow> fd_entry_t \<Rightarrow> fop option" where
  "operation k e = Option.bind (aget (operations_pointer e) k) id"

definition call_open :: "environment \<Rightarrow> fop \<Rightarrow> rptr \<Rightarrow> kernel \<Rightarrow> (int \<times> kernel) option" where
  "call_open env f filename s =
     (case f of Null_func \<Rightarrow> Some (null_func s)
      | Open_RTC \<Rightarrow> Some (open_RTC (regA env) filename s)
      | Open_file \<Rightarrow> Some (open_file filename s)
      | Open_directory \<Rightarrow> Some (open_directory filename s)
      | _ \<Rightarrow> None)"

definition call_read ::
  "environment \<Rightarrow> fop \<Rightarrow> nat \<Rightarrow> u32 \<Rightarrow> u32 \<Rightarrow> kernel \<Rightarrow> (int \<times> u8 list \<times> kernel) option" where
  "call_read env f fd buf nbytes s =
     (case f of Null_func \<Rightarrow> Some (0, [], s)
      | Terminal_read \<Rightarrow> terminal_read (handlers env) fd buf nbytes s
      | Read_RTC \<Rightarrow> read_RTC (handlers env) fd buf nbytes s
      | Read_file \<Rightarrow> Some (read_file fd buf nbytes s)
      | Read_directory \<Rightarrow> Some (read_directory fd buf nbytes s)
      | _ \<Rightarrow> None)"

definition call_write ::
  "environment \<Rightarrow> fop \<Rightarrow> nat \<Rightarrow> rptr option \<Rightarrow> u32 \<Rightarrow> kernel \<Rightarrow> (int \<times> kernel) option" where
  "call_write env f fd buf nbytes s =
     (case f of Null_func \<Rightarrow> Some (null_func s)
      | Terminal_write \<Rightarrow> terminal_write fd buf nbytes s
      | Write_RTC \<Rightarrow> write_RTC (regA env) fd buf nbytes s
      | Write_file \<Rightarrow> Some (write_file fd buf nbytes s)
      | Write_directory \<Rightarrow> Some (write_directory fd buf nbytes s)
      | _ \<Rightarrow> None)"

definition call_close :: "fop \<Rightarrow> nat \<Rightarrow> kernel \<Rightarrow> (int \<times> kernel) option" where
  "call_close f fd s =
     (case f of Null_func \<Rightarrow> Some (null_func s)
      | Close_RTC \<Rightarrow> Some (close_RTC fd s)
      | Close_file \<Rightarrow> Some (close_file fd s)
      | Close_directory \<Rightarrow> Some (close_directory fd s)
      | _ \<Rightarrow> None)"

section \<open>Descriptors\<close>

definition free_entry :: fd_entry_t where
  "free_entry = \<lparr>operations_pointer = [None, None, None, None], inode_index = -1,
                 file_position = -1, flags = FREE\<rparr>"

definition read_call :: "environment \<Rightarrow> int \<Rightarrow> u32 \<Rightarrow> u32 \<Rightarrow> kernel \<Rightarrow> (int \<times> u8 list \<times> kernel) option" where
  "read_call env fd buf nbytes s =
     (if fd \<ge> 8 \<or> fd < 0 \<or> fd = 1 then Some (-1, [], s)
      else let e = fd_entry (cur_pcb s) (nat fd) in
        if flags e = FREE then Some (-1, [], s)
        else do { f \<leftarrow> operation READ e; call_read env f (nat fd) buf nbytes s })"

definition write_call :: "environment \<Rightarrow> int \<Rightarrow> rptr option \<Rightarrow> u32 \<Rightarrow> kernel \<Rightarrow> (int \<times> kernel) option" where
  "write_call env fd buf nbytes s =
     (if buf = None then Some (-1, s)
      else if fd \<ge> 8 \<or> fd < 0 \<or> fd = 0 then Some (-1, s)
      else let e = fd_entry (cur_pcb s) (nat fd) in
        if flags e = FREE then Some (-1, s)
        else do { let s = cli s;
                  let tty_save = terminal_num s;
                  let s = s\<lparr>terminal_num := get_tty s\<rparr>;
                  f \<leftarrow> operation WRITE e;
                  (ret, s) \<leftarrow> call_write env f (nat fd) buf nbytes s;
                  let s = s\<lparr>terminal_num := tty_save\<rparr>;
                  let s = update_cursor (screen_x s (terminal_num s)) (screen_y s (terminal_num s)) s;
                  Some (ret, sti s) })"

text \<open>The search for a vacant descriptor from \<open>i\<close> on.\<close>

fun find_fd :: "pcb_t \<Rightarrow> nat list \<Rightarrow> nat option" where
  "find_fd pcb [] = None"
| "find_fd pcb (i # is) = (if flags (fd_entry pcb i) = 0 then Some i else find_fd pcb is)"

definition table_of_type :: "u32 \<Rightarrow> fop option list option" where
  "table_of_type ty =
     (if ty = 0 then Some rtc_table
      else if ty = 1 then Some directory_table
      else if ty = 2 then Some file_table else None)"

definition use_std :: "nat \<Rightarrow> fop option list \<Rightarrow> kernel \<Rightarrow> kernel" where
  "use_std fd table s = set_fd fd ((fd_entry (cur_pcb s) fd)\<lparr>operations_pointer := table, flags := IN_USE\<rparr>) s"

definition open_call :: "environment \<Rightarrow> rptr option \<Rightarrow> kernel \<Rightarrow> (int \<times> kernel) option" where
  "open_call env fname s =
     (case fname of
        None \<Rightarrow> Some (-1, s)
      | Some filename \<Rightarrow>
          do { c \<leftarrow> strncmp filename (arr_ptr (cbytes ''stdin'' @ [0])) 5;
               if c = 0 then Some (int STDIN, use_std STDIN stdin_table s)
               else do {
                 c \<leftarrow> strncmp filename (arr_ptr (cbytes ''stdout'' @ [0])) 6;
                 if c = 0 then Some (int STDOUT, use_std STDOUT stdout_table s)
                 else do {
                   found \<leftarrow> read_dentry_by_name filename s;
                   case found of
                     None \<Rightarrow> Some (-1, s)
                   | Some dentry \<Rightarrow>
                       (case find_fd (cur_pcb s) [2..<8] of
                          None \<Rightarrow> Some (-1, s)
                        | Some i \<Rightarrow>
                            (case table_of_type (file_type dentry) of
                               None \<Rightarrow> Some (-1, s)
                             | Some table \<Rightarrow>
                                 do { let e = \<lparr>operations_pointer = table, inode_index = inode_number dentry,
                                               file_position = 0, flags = IN_USE\<rparr>;
                                      let s = set_fd i e s;
                                      f \<leftarrow> operation OPEN e;
                                      (ret, s) \<leftarrow> call_open env f filename s;
                                      Some (if ret < 0 then -1 else int i, s) })) } } })"

definition close_call :: "int \<Rightarrow> kernel \<Rightarrow> (int \<times> kernel) option" where
  "close_call fd s =
     (if fd < 2 \<or> fd \<ge> 8 then Some (-1, s)
      else let e = fd_entry (cur_pcb s) (nat fd) in
        if flags e = FREE then Some (-1, s)
        else do { f \<leftarrow> operation CLOSE e;
                  (ret, s) \<leftarrow> call_close f (nat fd) s;
                  Some (if ret < 0 then (-1, s) else (0, set_fd (nat fd) free_entry s)) })"

section \<open>Well-formed descriptor tables\<close>

text \<open>
  An entry in use holds one of the driver tables, stdin and stdout always hold theirs, so a call
  through the table always finds a function of the right kind.
\<close>

definition entry_ok :: "nat \<Rightarrow> fd_entry_t \<Rightarrow> bool" where
  "entry_ok fd e \<longleftrightarrow>
     (if fd = STDIN then operations_pointer e = stdin_table \<and> flags e = IN_USE
      else if fd = STDOUT then operations_pointer e = stdout_table \<and> flags e = IN_USE
      else flags e = FREE \<or>
           (flags e = IN_USE \<and> operations_pointer e \<in> {rtc_table, file_table, directory_table}))"

definition fds_ok :: "pcb_t \<Rightarrow> bool" where
  "fds_ok p \<longleftrightarrow> (\<forall>fd < MAX_FD_NUM. entry_ok fd (fd_entry p fd))"

lemmas table_defs = stdin_table_def stdout_table_def rtc_table_def file_table_def directory_table_def

lemma fds_okD: "fds_ok p \<Longrightarrow> fd < 8 \<Longrightarrow> entry_ok fd (fd_entry p fd)"
  by (simp add: fds_ok_def)

lemma fds_ok_set_fd:
  "fds_ok (cur_pcb s) \<Longrightarrow> entry_ok fd e \<Longrightarrow> fds_ok (cur_pcb (set_fd fd e s))"
  by (simp add: fds_ok_def)

lemma entry_ok_free: "2 \<le> fd \<Longrightarrow> entry_ok fd free_entry"
  by (simp add: entry_ok_def free_entry_def)

text \<open>\<open>keeps_tables s s'\<close>: all that may change in a descriptor table is a file position.\<close>

definition keeps_tables :: "kernel \<Rightarrow> kernel \<Rightarrow> bool" where
  "keeps_tables s s' \<longleftrightarrow> current_pid s' = current_pid s \<and>
     (\<forall>pid fd. operations_pointer (fd_entry (pcbs s' pid) fd) = operations_pointer (fd_entry (pcbs s pid) fd) \<and>
               inode_index (fd_entry (pcbs s' pid) fd) = inode_index (fd_entry (pcbs s pid) fd) \<and>
               flags (fd_entry (pcbs s' pid) fd) = flags (fd_entry (pcbs s pid) fd))"

lemma keeps_tables_same: "pcbs s' = pcbs s \<Longrightarrow> current_pid s' = current_pid s \<Longrightarrow> keeps_tables s s'"
  by (simp add: keeps_tables_def)

lemma keeps_tables_trans: "keeps_tables s s' \<Longrightarrow> keeps_tables s' s'' \<Longrightarrow> keeps_tables s s''"
  by (simp add: keeps_tables_def)

lemma keeps_tables_position:
  "keeps_tables s (set_fd fd ((fd_entry (cur_pcb s) fd)\<lparr>file_position := p\<rparr>) s)"
  by (simp add: keeps_tables_def set_fd_def set_cur_pcb_def set_pcb_def cur_pcb_def)

lemma entry_ok_cong:
  "operations_pointer e' = operations_pointer e \<Longrightarrow> flags e' = flags e \<Longrightarrow> entry_ok fd e' = entry_ok fd e"
  by (simp add: entry_ok_def)

lemma keeps_tables_fds_ok:
  assumes "keeps_tables s s'" "fds_ok (pcbs s pid)"
  shows "fds_ok (pcbs s' pid)"
  using assms entry_ok_cong unfolding keeps_tables_def fds_ok_def by metis

text \<open>
  The contract of a driver behind a descriptor: its read and write keep the tables. Clients: the
  tables stay well-formed, over any sequence of reads and writes.
\<close>

datatype io_op = Read_op nat u32 u32 | Write_op nat "rptr option" u32

locale driver =
  fixes rd :: "nat \<Rightarrow> u32 \<Rightarrow> u32 \<Rightarrow> kernel \<Rightarrow> (int \<times> u8 list \<times> kernel) option"
    and wr :: "nat \<Rightarrow> rptr option \<Rightarrow> u32 \<Rightarrow> kernel \<Rightarrow> (int \<times> kernel) option"
  assumes rd_keeps: "rd fd buf n s = Some (ret, bytes, s') \<Longrightarrow> keeps_tables s s'"
    and wr_keeps: "wr fd p n s = Some (ret, s') \<Longrightarrow> keeps_tables s s'"
begin

fun run :: "io_op list \<Rightarrow> kernel \<Rightarrow> kernel option" where
  "run [] s = Some s"
| "run (Read_op fd buf n # ops) s = do { (ret, bytes, s) \<leftarrow> rd fd buf n s; run ops s }"
| "run (Write_op fd p n # ops) s = do { (ret, s) \<leftarrow> wr fd p n s; run ops s }"

lemma run_keeps: "run ops s = Some s' \<Longrightarrow> keeps_tables s s'"
proof (induction ops s rule: run.induct)
  case (1 s)
  then show ?case by (simp add: keeps_tables_same)
next
  case (2 fd buf n ops s)
  then show ?case
    by (auto split: Option.bind_splits intro: keeps_tables_trans dest: rd_keeps)
next
  case (3 fd p n ops s)
  then show ?case
    by (auto split: Option.bind_splits intro: keeps_tables_trans dest: wr_keeps)
qed

lemma run_fds_ok: "run ops s = Some s' \<Longrightarrow> fds_ok (pcbs s pid) \<Longrightarrow> fds_ok (pcbs s' pid)"
  using run_keeps keeps_tables_fds_ok by blast

end

section \<open>The drivers keep the contract\<close>

text \<open>The interrupts that can end a wait: the clock and the keyboard.\<close>

datatype irq = Rtc_irq | Key_irq u8

definition irq_effect :: "irq \<Rightarrow> kernel \<Rightarrow> kernel" where
  "irq_effect q = (case q of Rtc_irq \<Rightarrow> RTC_handler | Key_irq c \<Rightarrow> kbd_interrupt c)"

lemma push_char_procs:
  "push_char c s = Some s' \<Longrightarrow> pcbs s' = pcbs s \<and> current_pid s' = current_pid s \<and> rtc_interrupt_occured s' = rtc_interrupt_occured s"
  by (auto simp: push_char_def Let_def split: Option.bind_splits)

lemma reset_clear_procs [simp]:
  "pcbs (reset_screen s) = pcbs s" "current_pid (reset_screen s) = current_pid s" "rtc_interrupt_occured (reset_screen s) = rtc_interrupt_occured s"
  "pcbs (clear s) = pcbs s" "current_pid (clear s) = current_pid s" "rtc_interrupt_occured (clear s) = rtc_interrupt_occured s"
  "pcbs (backspace_pressed s) = pcbs s" "current_pid (backspace_pressed s) = current_pid s"
  "rtc_interrupt_occured (backspace_pressed s) = rtc_interrupt_occured s"
  using screen_onlyD(13,14,17) [OF screen_only_reset [of s]] screen_onlyD(13,14,17) [OF screen_only_clear [of s]]
    screen_onlyD(13,14,17) [OF screen_only_backspace [of s]] by simp_all

lemma switch_clock: "rtc_interrupt_occured (terminal_switch n s) = rtc_interrupt_occured s"
  by (simp add: terminal_switch_def recolor_def Let_def update_cursor_def outb_def flush_tlb_def)

lemma dealer_procs:
  "keyboard_output_dealer c s = Some s' \<Longrightarrow>
    pcbs s' = pcbs s \<and> current_pid s' = current_pid s \<and> rtc_interrupt_occured s' = rtc_interrupt_occured s"
  by (auto simp: keyboard_output_dealer_def enter_pressed_def defaultKeyPressed_def set_t_enter_flag_def Let_def switch_clock
      split: Option.bind_splits if_splits prod.splits dest: push_char_procs)

lemma terminal_write_procs:
  "terminal_write fd p n s = Some (r, s') \<Longrightarrow>
    pcbs s' = pcbs s \<and> current_pid s' = current_pid s \<and> rtc_interrupt_occured s' = rtc_interrupt_occured s"
  using screen_onlyD(13,14,17) [OF write_loop_screen_only]
  by (auto simp: terminal_write_def split: option.splits Option.bind_splits)

lemma tail_procs:
  assumes h: "handler_tail s = Some s'"
  shows "pcbs s' = pcbs s \<and> current_pid s' = current_pid s \<and> rtc_interrupt_occured s' = rtc_interrupt_occured s"
proof -
  have so: "pcbs (sti (send_eoi n v)) = pcbs v" "current_pid (sti (send_eoi n v)) = current_pid v"
      "rtc_interrupt_occured (sti (send_eoi n v)) = rtc_interrupt_occured v" for n v
    using screen_onlyD(13,14,17) [OF screen_only_eoi [of v n]] by simp_all
  show ?thesis using h
    by (auto simp: handler_tail_def so split: Option.bind_splits if_splits dest!: terminal_write_procs)
qed

lemma irq_effect_procs:
  "pcbs (irq_effect q s) = pcbs s \<and> current_pid (irq_effect q s) = current_pid s"
  "q \<noteq> Rtc_irq \<Longrightarrow> rtc_interrupt_occured (irq_effect q s) = rtc_interrupt_occured s"
  by (auto simp: irq_effect_def kbd_interrupt_def keyboard_handler_tail frame_simps
      split: irq.splits option.splits Option.bind_splits dest!: dealer_procs tail_procs)

lemma spin_procs:
  "spin waiting (map irq_effect qs) s = Some s' \<Longrightarrow> pcbs s' = pcbs s \<and> current_pid s' = current_pid s"
  by (induction qs arbitrary: s) (auto simp: irq_effect_procs split: if_splits)

lemma terminal_write_keeps: "terminal_write fd p n s = Some (r, s') \<Longrightarrow> keeps_tables s s'"
  using terminal_write_procs keeps_tables_same by blast

lemma changeFreq_frame [simp]: "pcbs (changeFreq_RTC f r s) = pcbs s" "current_pid (changeFreq_RTC f r s) = current_pid s"
  "mem (changeFreq_RTC f r s) = mem s" "fs_start (changeFreq_RTC f r s) = fs_start s"
  by (simp_all add: changeFreq_RTC_def outb_def split: option.splits)

lemma write_RTC_keeps: "write_RTC r fd p n s = Some (ret, s') \<Longrightarrow> keeps_tables s s'"
  by (rule keeps_tables_same) (auto simp: write_RTC_def split: option.splits Option.bind_splits if_splits)

lemma terminal_read_keeps: "terminal_read (map irq_effect qs) fd buf n s = Some (ret, bytes, s') \<Longrightarrow> keeps_tables s s'"
  by (rule keeps_tables_same)
     (auto simp: terminal_read_def Let_def split: Option.bind_splits if_splits dest!: spin_procs)

lemma read_RTC_keeps: "read_RTC (map irq_effect qs) fd buf n s = Some (ret, bytes, s') \<Longrightarrow> keeps_tables s s'"
  by (rule keeps_tables_same) (auto simp: read_RTC_def split: Option.bind_splits dest!: spin_procs)

lemma read_file_keeps: "read_file fd buf n s = (ret, bytes, s') \<Longrightarrow> keeps_tables s s'"
  by (auto simp: read_file_def Let_def keeps_tables_position)

lemma read_directory_keeps: "read_directory fd buf n s = (ret, bytes, s') \<Longrightarrow> keeps_tables s s'"
  by (auto simp: read_directory_def Let_def keeps_tables_position keeps_tables_same split: if_splits option.splits)

interpretation terminal_driver: driver "terminal_read (map irq_effect qs)" terminal_write for qs
  by unfold_locales (auto dest: terminal_read_keeps terminal_write_keeps)

interpretation rtc_driver: driver "read_RTC (map irq_effect qs)" "write_RTC r" for qs r
  by unfold_locales (auto dest: read_RTC_keeps write_RTC_keeps)

interpretation file_driver: driver "\<lambda>fd buf n s. Some (read_file fd buf n s)" "\<lambda>fd p n s. Some (write_file fd p n s)"
  by unfold_locales (auto dest: read_file_keeps simp: write_file_def keeps_tables_same)

interpretation directory_driver: driver "\<lambda>fd buf n s. Some (read_directory fd buf n s)" "\<lambda>fd p n s. Some (write_directory fd p n s)"
  by unfold_locales (auto dest: read_directory_keeps simp: write_directory_def keeps_tables_same)

text \<open>The calls of the descriptor table themselves form a driver: the table dispatches to these.\<close>

lemma call_read_keeps:
  assumes "call_read env f fd buf n s = Some (ret, bytes, s')" "handlers env = map irq_effect qs"
  shows "keeps_tables s s'"
  using assms terminal_driver.rd_keeps [of qs] rtc_driver.rd_keeps [of qs] file_driver.rd_keeps directory_driver.rd_keeps
  by (cases f) (auto simp: call_read_def keeps_tables_same)

lemma call_write_keeps:
  assumes "call_write env f fd p n s = Some (ret, s')"
  shows "keeps_tables s s'"
  using assms terminal_driver.wr_keeps rtc_driver.wr_keeps [of "regA env"] file_driver.wr_keeps directory_driver.wr_keeps
  by (cases f) (auto simp: call_write_def null_func_def keeps_tables_same)

section \<open>open and close\<close>

lemma find_fd_Some:
  "find_fd p is = Some i \<Longrightarrow> i \<in> set is \<and> flags (fd_entry p i) = FREE"
  by (induction p "is" rule: find_fd.induct) (auto split: if_splits)

lemma find_fd_None: "find_fd p is = None \<longleftrightarrow> (\<forall>i \<in> set is. flags (fd_entry p i) \<noteq> FREE)"
  by (induction p "is" rule: find_fd.induct) auto

lemma find_fd_least:
  "sorted is \<Longrightarrow> find_fd p is = Some i \<Longrightarrow> j \<in> set is \<Longrightarrow> j < i \<Longrightarrow> flags (fd_entry p j) \<noteq> FREE"
  by (induction p "is" rule: find_fd.induct) (auto split: if_splits)

lemma std_names: "cstr (arr_ptr (cbytes ''stdin'' @ [0])) (cbytes ''stdin'')"
  "cstr (arr_ptr (cbytes ''stdout'' @ [0])) (cbytes ''stdout'')"
  by (rule cstr_arr_ptr; simp add: cbytes_def)+

lemma table_of_type_cases:
  "table_of_type ty = Some tbl \<Longrightarrow> tbl \<in> {rtc_table, file_table, directory_table}"
  by (auto simp: table_of_type_def split: if_splits)

definition opened :: "dentry_t \<Rightarrow> fop option list \<Rightarrow> fd_entry_t" where
  "opened d tbl = \<lparr>operations_pointer = tbl, inode_index = inode_number d, file_position = 0, flags = IN_USE\<rparr>"

lemma open_call_eq:
  assumes name: "cstr fname xs" and not_std: "take 5 xs \<noteq> cbytes ''stdin''" "take 6 xs \<noteq> cbytes ''stdout''"
  shows "open_call env (Some fname) s =
    Some (case List.find (name_found xs) (dentry_list s) of None \<Rightarrow> (-1, s)
          | Some d \<Rightarrow> (case find_fd (cur_pcb s) [2..<8] of None \<Rightarrow> (-1, s)
            | Some i \<Rightarrow> (case table_of_type (file_type d) of None \<Rightarrow> (-1, s)
              | Some tbl \<Rightarrow>
                  (int i, (if tbl = rtc_table then changeFreq_RTC 2 (regA env) else id) (set_fd i (opened d tbl) s)))))"
proof -
  obtain c1 where c1: "strncmp fname (arr_ptr (cbytes ''stdin'' @ [0])) 5 = Some c1" "c1 \<noteq> 0"
    using strncmp_cstr [OF name std_names(1), of 5] not_std(1) by (auto simp: cbytes_def)
  obtain c2 where c2: "strncmp fname (arr_ptr (cbytes ''stdout'' @ [0])) 6 = Some c2" "c2 \<noteq> 0"
    using strncmp_cstr [OF name std_names(2), of 6] not_std(2) by (auto simp: cbytes_def)
  have call: "do { f \<leftarrow> operation OPEN (opened d tbl);
                   (ret, s) \<leftarrow> call_open env f fname s';
                   Some (if ret < 0 then -1 else int i, s) } =
      Some (int i, (if tbl = rtc_table then changeFreq_RTC 2 (regA env) else id) s')"
    if "table_of_type ty = Some tbl" for d tbl ty s' i
    using table_of_type_cases [OF that]
    by (auto simp: table_defs operation_def opened_def call_open_def open_RTC_def open_file_def open_directory_def)
  show ?thesis
    using c1 c2 call
    by (auto simp: open_call_def read_dentry_by_name_find [OF name] opened_def [symmetric] Let_def
        split: option.splits)
qed

lemma open_call_fds_ok:
  assumes "fds_ok (cur_pcb s)" "open_call env fname s = Some (ret, s')"
    and "\<And>p. fname = Some p \<Longrightarrow> \<exists>xs. cstr p xs"
  shows "fds_ok (cur_pcb s')"
proof (cases fname)
  case None
  then show ?thesis using assms by (simp add: open_call_def)
next
  case (Some p)
  then obtain xs where p: "cstr p xs" using assms(3) by blast
  have std: "fds_ok (cur_pcb (use_std 0 stdin_table s))" "fds_ok (cur_pcb (use_std 1 stdout_table s))"
    unfolding use_std_def by (rule fds_ok_set_fd [OF assms(1)], simp add: entry_ok_def)+
  show ?thesis
  proof (cases "take 5 xs = cbytes ''stdin'' \<or> take 6 xs = cbytes ''stdout''")
    case True
    obtain c1 where c1: "strncmp p (arr_ptr (cbytes ''stdin'' @ [0])) 5 = Some c1"
        "c1 = 0 \<longleftrightarrow> take 5 xs = cbytes ''stdin''"
      using strncmp_cstr [OF p std_names(1), of 5] by (auto simp: cbytes_def)
    obtain c2 where c2: "strncmp p (arr_ptr (cbytes ''stdout'' @ [0])) 6 = Some c2"
        "c2 = 0 \<longleftrightarrow> take 6 xs = cbytes ''stdout''"
      using strncmp_cstr [OF p std_names(2), of 6] by (auto simp: cbytes_def)
    show ?thesis using assms(2) Some True c1 c2 std by (auto simp: open_call_def split: if_splits)
  next
    case False
    have ok: "fds_ok (cur_pcb (set_fd i (opened d tbl) s))"
      if "find_fd (cur_pcb s) [2..<8] = Some i" "table_of_type ty = Some tbl" for i d tbl ty
      using find_fd_Some [OF that(1)] table_of_type_cases [OF that(2)] assms(1)
      by (intro fds_ok_set_fd) (auto simp: entry_ok_def opened_def)
    have chg: "cur_pcb (changeFreq_RTC f r v) = cur_pcb v" for f r v by (simp add: cur_pcb_def)
    show ?thesis
      using assms(1,2) ok False unfolding Some
      by (auto simp: open_call_eq [OF p] chg split: option.splits if_splits)
  qed
qed

lemma close_call_eq:
  assumes "fds_ok (cur_pcb s)"
  shows "close_call fd s = Some (if 2 \<le> fd \<and> fd < 8 \<and> flags (fd_entry (cur_pcb s) (nat fd)) \<noteq> FREE
    then (0, set_fd (nat fd) free_entry s) else (-1, s))"
proof (cases "2 \<le> fd \<and> fd < 8 \<and> flags (fd_entry (cur_pcb s) (nat fd)) \<noteq> FREE")
  case True
  then have "nat fd < 8" "nat fd \<noteq> 0" "nat fd \<noteq> 1" by auto
  then have "operations_pointer (fd_entry (cur_pcb s) (nat fd)) \<in> {rtc_table, file_table, directory_table}"
    using fds_okD [OF assms, of "nat fd"] True by (auto simp: entry_ok_def)
  then show ?thesis using True
    by (auto simp: close_call_def operation_def table_defs call_close_def close_RTC_def close_file_def close_directory_def Let_def)
next
  case False
  then show ?thesis by (auto simp: close_call_def Let_def)
qed

lemma close_call_fds_ok:
  assumes "fds_ok (cur_pcb s)" "close_call fd s = Some (ret, s')"
  shows "fds_ok (cur_pcb s')"
  using assms fds_ok_set_fd [OF assms(1) entry_ok_free, of "nat fd"]
  by (auto simp: close_call_eq split: if_splits)

text \<open>A read of the clock returns at the first clock interrupt and not before.\<close>

lemma irq_effects_tty: "get_tty (fold irq_effect qs s) = get_tty s"
  by (induction qs arbitrary: s) (simp_all add: irq_effect_procs get_tty_def cur_pcb_def)

lemma spin_clock:
  assumes "Rtc_irq \<notin> set qs1" "get_tty s < 3" "rtc_interrupt_occured s (get_tty s) = 1"
  defines "waiting \<equiv> \<lambda>s. rtc_interrupt_occured s (get_tty s) = 1"
  shows "spin waiting (map irq_effect (qs1 @ Rtc_irq # qs2)) s = Some (fold irq_effect (qs1 @ [Rtc_irq]) s)"
    and "spin waiting (map irq_effect qs1) s = None"
  using assms(1-3)
proof (induction qs1 arbitrary: s)
  case Nil
  { case 1
    have "irq_effect Rtc_irq = RTC_handler" by (simp add: irq_effect_def)
    then have "\<not> waiting (irq_effect Rtc_irq s)" using 1(2) by (simp add: waiting_def frame_simps RTC_handler_clears)
    then show ?case using 1(3) by (cases qs2) (simp_all add: waiting_def)
  next
    case 2
    then show ?case by (simp add: waiting_def)
  }
next
  case (Cons q qs1)
  have tty: "get_tty (irq_effect q s) = get_tty s" for s using irq_effects_tty [of "[q]" s] by simp
  { case 1
    then have "rtc_interrupt_occured (irq_effect q s) = rtc_interrupt_occured s" by (intro irq_effect_procs) auto
    then show ?case using Cons(1) [of "irq_effect q s"] 1 by (simp add: tty waiting_def)
  next
    case 2
    then have "rtc_interrupt_occured (irq_effect q s) = rtc_interrupt_occured s" by (intro irq_effect_procs) auto
    then show ?case using Cons(2) [of "irq_effect q s"] 2 by (simp add: tty waiting_def)
  }
qed

lemma read_RTC_wakes:
  assumes "get_tty s < 3" "Rtc_irq \<notin> set qs1"
  shows "read_RTC (map irq_effect qs1) fd buf n s = None"
    and "read_RTC (map irq_effect (qs1 @ Rtc_irq # qs2)) fd buf n s =
      Some (0, [], fold irq_effect (qs1 @ [Rtc_irq]) (s\<lparr>rtc_interrupt_occured := (rtc_interrupt_occured s)(get_tty s := 1)\<rparr>))"
proof -
  let ?s = "s\<lparr>rtc_interrupt_occured := (rtc_interrupt_occured s)(get_tty s := 1)\<rparr>"
  have "get_tty ?s = get_tty s" by (simp add: get_tty_def cur_pcb_def)
  then show "read_RTC (map irq_effect qs1) fd buf n s = None"
      "read_RTC (map irq_effect (qs1 @ Rtc_irq # qs2)) fd buf n s = Some (0, [], fold irq_effect (qs1 @ [Rtc_irq]) ?s)"
    using spin_clock(1) [OF assms(2), of ?s qs2] spin_clock(2) [OF assms(2), of ?s] assms(1) by (simp_all add: read_RTC_def)
qed

text \<open>A successful \<^verbatim>\<open>open\<close> takes the lowest vacant descriptor and points it at the start of the file.\<close>

lemma open_call_lowest:
  assumes name: "cstr fname xs" "take 5 xs \<noteq> cbytes ''stdin''" "take 6 xs \<noteq> cbytes ''stdout''"
    and "open_call env (Some fname) s = Some (fd, s')" "fd \<noteq> -1"
  shows "2 \<le> fd \<and> fd < 8 \<and> flags (fd_entry (cur_pcb s) (nat fd)) = FREE \<and>
    (\<forall>j. 2 \<le> j \<and> j < nat fd \<longrightarrow> flags (fd_entry (cur_pcb s) j) \<noteq> FREE) \<and>
    (\<exists>d tbl. List.find (name_found xs) (dentry_list s) = Some d \<and> table_of_type (file_type d) = Some tbl \<and>
       fd_entry (cur_pcb s') (nat fd) = opened d tbl)"
proof -
  from assms(4,5) obtain d i tbl where
    i: "find_fd (cur_pcb s) [2..<8] = Some i" and d: "List.find (name_found xs) (dentry_list s) = Some d"
    and tbl: "table_of_type (file_type d) = Some tbl" and fd: "fd = int i"
    and s': "s' = (if tbl = rtc_table then changeFreq_RTC 2 (regA env) else id) (set_fd i (opened d tbl) s)"
    unfolding open_call_eq [OF name] by (auto split: option.splits)
  have "\<forall>j. 2 \<le> j \<and> j < i \<longrightarrow> flags (fd_entry (cur_pcb s) j) \<noteq> FREE"
  proof (intro allI impI)
    fix j assume "2 \<le> j \<and> j < i"
    moreover have "i < 8" using find_fd_Some [OF i] by (metis set_upt atLeastLessThan_iff)
    ultimately have "j \<in> set [2..<8]" "j < i" by (auto simp only: set_upt atLeastLessThan_iff)
    then show "flags (fd_entry (cur_pcb s) j) \<noteq> FREE" by (rule find_fd_least [OF sorted_upt i])
  qed
  moreover have "cur_pcb (changeFreq_RTC 2 r u) = cur_pcb u" for r u by (simp add: cur_pcb_def)
  then have "fd_entry (cur_pcb s') i = opened d tbl" by (simp add: s')
  ultimately show ?thesis using find_fd_Some [OF i] d tbl fd by auto
qed

text \<open>Calls on a descriptor that is out of range or vacant fail and change nothing.\<close>

lemma bad_descriptor:
  assumes "fd < 0 \<or> 8 \<le> fd \<or> flags (fd_entry (cur_pcb s) (nat fd)) = FREE"
  shows "read_call env fd buf n s = Some (-1, [], s)" "write_call env fd p n s = Some (-1, s)" "close_call fd s = Some (-1, s)"
  using assms by (auto simp: read_call_def write_call_def close_call_def Let_def)

text \<open>Opening and closing again leaves every descriptor as it was.\<close>

lemma open_close:
  assumes "fds_ok (cur_pcb s)" "cstr fname xs" "take 5 xs \<noteq> cbytes ''stdin''" "take 6 xs \<noteq> cbytes ''stdout''"
    and "open_call env (Some fname) s = Some (fd, s')" "fd \<noteq> -1"
  shows "\<exists>s''. close_call fd s' = Some (0, s'') \<and> flags (fd_entry (cur_pcb s'') (nat fd)) = FREE \<and>
    flags (fd_entry (cur_pcb s) (nat fd)) = FREE \<and>
    (\<forall>k. k \<noteq> nat fd \<longrightarrow> fd_entry (cur_pcb s'') k = fd_entry (cur_pcb s) k) \<and>
    (\<forall>pid. pid \<noteq> current_pid s \<longrightarrow> pcbs s'' pid = pcbs s pid)"
proof -
  from assms(5,6) obtain d i tbl where
    i: "find_fd (cur_pcb s) [2..<8] = Some i" and tbl: "table_of_type (file_type d) = Some tbl" and fd: "fd = int i"
    and s': "s' = (if tbl = rtc_table then changeFreq_RTC 2 (regA env) else id) (set_fd i (opened d tbl) s)"
    by (auto simp: open_call_eq [OF assms(2-4)] split: option.splits)
  have i2: "2 \<le> i" "i < 8" "flags (fd_entry (cur_pcb s) i) = FREE" using find_fd_Some [OF i] by auto
  have p: "pcbs s' = pcbs (set_fd i (opened d tbl) s)" "current_pid s' = current_pid s" unfolding s' by simp_all
  then have c: "cur_pcb s' = cur_pcb (set_fd i (opened d tbl) s)" by (simp add: cur_pcb_def)
  have "fds_ok (cur_pcb s')"
    using open_call_fds_ok [OF assms(1,5)] assms(2) by blast
  then have "close_call fd s' = Some (0, set_fd i free_entry s')"
    using i2 unfolding close_call_eq [OF \<open>fds_ok (cur_pcb s')\<close>] fd by (simp add: c opened_def)
  then show ?thesis
    using i2 p by (simp add: fd c free_entry_def frame_simps)
qed

section \<open>read and write\<close>

lemma read_call_file:
  assumes "0 \<le> fd" "fd < 8" "fd \<noteq> 1" "flags (fd_entry (cur_pcb s) (nat fd)) \<noteq> FREE"
    and "operations_pointer (fd_entry (cur_pcb s) (nat fd)) = file_table"
  shows "read_call env fd buf n s = Some (read_file (nat fd) buf n s)"
  using assms by (simp add: read_call_def operation_def file_table_def call_read_def Let_def)

lemma read_call_keeps:
  assumes "read_call env fd buf n s = Some (ret, bytes, s')" "handlers env = map irq_effect qs"
  shows "keeps_tables s s'"
  using assms call_read_keeps [OF _ assms(2)]
  by (auto simp: read_call_def Let_def keeps_tables_same split: if_splits Option.bind_splits)

lemma screen_frames [simp]:
  "abs_screen (s\<lparr>terminal_num := n\<rparr>) t = abs_screen s t" "abs_screen (cli s) t = abs_screen s t"
  "abs_screen (sti s) t = abs_screen s t" "abs_screen (update_cursor x y s) t = abs_screen s t"
  by (simp_all add: abs_screen_def char_at_def cli_def sti_def fun_eq_iff)

lemma cursor_ok_cong:
  "screen_x s' t = screen_x s t \<Longrightarrow> screen_y s' t = screen_y s t \<Longrightarrow> cursor_ok s' t = cursor_ok s t"
  by (simp add: cursor_ok_def)

text \<open>The terminals' pages: page-aligned and distinct.\<close>

definition pages_ok :: "kernel \<Rightarrow> bool" where
  "pages_ok s \<longleftrightarrow> (\<forall>t < 3. page_base (video_mem s t)) \<and>
     (\<forall>t < 3. \<forall>u < 3. video_mem s t = video_mem s u \<longrightarrow> t = u)"

lemma video_ok_pages: "video_ok s \<Longrightarrow> pages_ok s"
  using backup_pages by (auto simp: video_ok_def pages_ok_def video_page split: if_splits)

lemma other_screen:
  assumes "confined (video_mem s t) (mem s) (mem s')" "pages_ok s" "video_mem s' = video_mem s"
    and "t < 3" "u < 3" "u \<noteq> t" "screen_x s' u = screen_x s u" "screen_y s' u = screen_y s u"
  shows "abs_screen s' u = abs_screen s u"
proof -
  have "char_at s' u x y = char_at s u x y" if "on_screen x y" for x y
    using confined_other_page [OF assms(1), of "video_mem s u" "2 * (80 * y + x)"] assms(2-6) that
    by (auto simp: pages_ok_def char_at_def on_screen_def)
  then show ?thesis using assms(7,8) by (auto simp: abs_screen_def fun_eq_iff)
qed

text \<open>
  \<open>printed t xs s s'\<close>: the text \<open>xs\<close> has been printed on terminal \<open>t\<close>, and nothing but screens, cursors and
  the page of that terminal has changed.
\<close>

definition printed :: "nat \<Rightarrow> u8 list \<Rightarrow> kernel \<Rightarrow> kernel \<Rightarrow> bool" where
  "printed t xs s s' \<longleftrightarrow> screen_only s s' \<and> confined (video_mem s t) (mem s) (mem s') \<and> cursor_ok s' t \<and>
     abs_screen s' t = fold emit xs (abs_screen s t) \<and> (\<forall>u < 3. u \<noteq> t \<longrightarrow> abs_screen s' u = abs_screen s u)"

lemma printed_trans:
  assumes "printed t xs s s'" "printed t ys s' s''"
  shows "printed t (xs @ ys) s s''"
proof -
  have "video_mem s' = video_mem s" using assms(1) by (simp add: printed_def screen_onlyD)
  then show ?thesis using assms screen_only_trans confined_trans by (fastforce simp: printed_def)
qed

lemma printed_refl: "cursor_ok s t \<Longrightarrow> printed t [] s s"
  by (simp add: printed_def)

text \<open>What \<^verbatim>\<open>write\<close> to the standard output relies on.\<close>

definition stdout_ok :: "kernel \<Rightarrow> bool" where
  "stdout_ok s \<longleftrightarrow> fds_ok (cur_pcb s) \<and> get_tty s < 3 \<and> cursor_ok s (get_tty s) \<and> pages_ok s"

lemma screen_only_cur: "screen_only s s' \<Longrightarrow> cur_pcb s' = cur_pcb s \<and> get_tty s' = get_tty s"
  by (simp add: cur_pcb_def get_tty_def screen_onlyD)

lemma printed_stdout_ok: "printed (get_tty s) xs s s' \<Longrightarrow> stdout_ok s \<Longrightarrow> stdout_ok s' \<and> get_tty s' = get_tty s"
  using screen_only_cur [of s s'] by (auto simp: printed_def stdout_ok_def pages_ok_def screen_onlyD)

lemma write_stdout:
  assumes ok: "stdout_ok s"
    and buf: "\<And>k. k < length xs \<Longrightarrow> p (of_nat k) = Some (xs ! k)" "length xs < 2147483648" "0x0D \<notin> set xs"
  shows "\<exists>s'. write_call env 1 (Some p) (of_nat (length xs)) s = Some (int (length xs), s') \<and> printed (get_tty s) xs s s'"
proof -
  let ?t = "get_tty s"
  let ?u = "(cli s)\<lparr>terminal_num := ?t\<rparr>"
  have t: "?t < 3" "cursor_ok s ?t" "pages_ok s" using ok by (simp_all add: stdout_ok_def)
  have e: "flags (fd_entry (cur_pcb s) 1) = IN_USE" "operations_pointer (fd_entry (cur_pcb s) 1) = stdout_table"
    using fds_okD [of "cur_pcb s" 1] ok by (auto simp: entry_ok_def stdout_ok_def)
  have u: "cursor_ok ?u (terminal_num ?u)" using t(2) by (simp add: cursor_ok_def cli_def)
  have n: "nat (sint (of_nat (length xs) :: u32)) = length xs"
    using buf(2) by (simp add: sint_small_u32 unat_of_nat_u32)
  obtain v where v: "write_loop p 0 (length xs) ?u = Some v" "cursor_ok v ?t"
      "abs_screen v ?t = fold emit xs (abs_screen ?u ?t)" "video_mem v = video_mem s"
      "confined (video_mem s ?t) (mem s) (mem v)"
      "\<forall>t. t \<noteq> ?t \<longrightarrow> screen_x v t = screen_x s t \<and> screen_y v t = screen_y s t"
    using write_loop_abs [of "length xs" p 0 xs ?u] buf u by (auto simp: cli_def)
  let ?s = "sti (update_cursor (screen_x v (terminal_num s)) (screen_y v (terminal_num s)) (v\<lparr>terminal_num := terminal_num s\<rparr>))"
  have tty: "get_tty (cli s) = ?t" by (simp add: get_tty_def cur_pcb_def cli_def)
  have w: "write_call env 1 (Some p) (of_nat (length xs)) s = Some (int (length xs), ?s)"
    using v(1) e n
    by (simp add: write_call_def operation_def stdout_table_def call_write_def terminal_write_def Let_def tty)
       (simp add: cli_def)
  obtain m x y out i where "v = ?u\<lparr>mem := m, screen_x := x, screen_y := y, outs := out, iflag := i\<rparr>"
    using write_loop_screen_only [OF v(1)] unfolding screen_only_def by blast
  then have "screen_only s (v\<lparr>terminal_num := terminal_num s\<rparr>)"
    by (intro screen_onlyI [where m = m and x = x and y = y and out = out and i = i]) (simp add: cli_def)
  moreover have "screen_only w (sti w)" for w
    by (rule screen_onlyI [where m = "mem w" and x = "screen_x w" and y = "screen_y w" and out = "outs w" and i = True])
       (simp add: sti_def)
  ultimately have "screen_only s ?s" using screen_only_update_cursor screen_only_trans by blast
  moreover have "abs_screen ?s k = abs_screen s k" if "k < 3" "k \<noteq> ?t" for k
    using other_screen [OF v(5) t(3) v(4) t(1) that] v(6) that by simp
  moreover have "abs_screen ?s ?t = fold emit xs (abs_screen s ?t)" using v(3) by simp
  moreover have "cursor_ok ?s ?t" "mem ?s = mem v" using v(2) by (simp_all add: sti_def cursor_ok_def)
  ultimately show ?thesis using w v(5) by (auto simp: printed_def)
qed

end
