(* ===== verification/Process.thy ===== *)
theory Process
  imports Descriptors
begin

text \<open>
  Processes, \<^verbatim>\<open>student-distrib/system_call.c\<close>: \<^verbatim>\<open>setup_PCB\<close>, \<^verbatim>\<open>execute\<close> (command parsing, program
  check, choice of a process id, loading, start) and \<^verbatim>\<open>halt\<close>. \<open>None\<close> is an access the C code has
  no defined result for: outside a local array, or to an unmapped address.
\<close>

section \<open>Virtual memory\<close>

text \<open>
  Accesses of the kernel through the page tables; \<open>None\<close> is a page fault. A pointer a program
  passes in a register is NULL if it is 0.
\<close>

definition poke :: "u32 \<Rightarrow> u8 \<Rightarrow> kernel \<Rightarrow> kernel option" where
  "poke v b s = map_option (\<lambda>p. s\<lparr>mem := (mem s)(p := b)\<rparr>) (mmu s False v)"

fun poke_bytes :: "u32 \<Rightarrow> u8 list \<Rightarrow> kernel \<Rightarrow> kernel option" where
  "poke_bytes v [] s = Some s"
| "poke_bytes v (b # bs) s = do { s \<leftarrow> poke v b s; poke_bytes (v + 1) bs s }"

definition virt_ptr :: "kernel \<Rightarrow> u32 \<Rightarrow> rptr" where
  "virt_ptr s v i = map_option (mem s) (mmu s False (v + i))"

definition user_ptr :: "kernel \<Rightarrow> u32 \<Rightarrow> rptr option" where
  "user_ptr s v = (if v = 0 then None else Some (virt_ptr s v))"

section \<open>Processes\<close>

abbreviation (input) LOAD_ADDR :: u32 where "LOAD_ADDR \<equiv> 0x08048000"
abbreviation (input) ENTRY_POINT_LOCATION :: u32 where "ENTRY_POINT_LOCATION \<equiv> 24"
abbreviation (input) BUF_SIZE :: u32 where "BUF_SIZE \<equiv> 4"
abbreviation (input) VIRTUAL_BLOCK_TOP :: u32 where "VIRTUAL_BLOCK_TOP \<equiv> 0x08000000"
abbreviation (input) VIRTUAL_BLOCK_BOTTOM :: u32 where "VIRTUAL_BLOCK_BOTTOM \<equiv> 0x08400000"
abbreviation (input) KERNEL_DS :: u32 where "KERNEL_DS \<equiv> 0x18"

definition magic_number :: "u8 list" where
  "magic_number = [0x7F, 0x45, 0x4C, 0x46]"

text \<open>\<^verbatim>\<open>setup_PCB\<close>; \<open>None\<close> is the pointer \<^verbatim>\<open>-1\<close>. The fields it does not assign keep their values.\<close>

definition setup_PCB :: "int \<Rightarrow> kernel \<Rightarrow> kernel option" where
  "setup_PCB new_pid s =
     (if new_pid < 0 \<or> new_pid > int MAX_PID then None
      else let p = pcbs s new_pid;
               fds = fold (\<lambda>i f. f(i := free_entry)) [0..<MAX_FD_NUM] (fd_entry p);
               fds = fds(STDIN := (fds STDIN)\<lparr>operations_pointer := stdin_table, flags := IN_USE\<rparr>);
               fds = fds(STDOUT := (fds STDOUT)\<lparr>operations_pointer := stdout_table, flags := IN_USE\<rparr>)
           in Some (set_pcb new_pid
                (p\<lparr>fd_entry := fds, process_id := word_of_int new_pid, parent_id := word_of_int (current_pid s),
                   parent_esp := 0, parent_ebp := 0, return_value := 0, tty := of_nat (terminal_num s)\<rparr>) s))"

text \<open>
  The parsing loop of \<^verbatim>\<open>execute\<close>: the index, the arrays \<^verbatim>\<open>file_name\<close> (32 bytes) and \<^verbatim>\<open>local_arg\<close>
  (128 bytes), \<^verbatim>\<open>file_length\<close>, \<^verbatim>\<open>spaces\<close>, \<^verbatim>\<open>end_of_file_name\<close>, \<^verbatim>\<open>local_arg_start_flag\<close>.
\<close>

partial_function (option) parse_loop ::
  "rptr \<Rightarrow> u32 \<Rightarrow> u8 list \<Rightarrow> u8 list \<Rightarrow> u32 \<Rightarrow> u32 \<Rightarrow> u32 \<Rightarrow> u32 \<Rightarrow>
   (u32 \<times> u8 list \<times> u8 list \<times> u32 \<times> u32 \<times> u32) option" where
  "parse_loop command i name larg file_length spaces eofn start =
     do { c \<leftarrow> command i;
          if c = 0 then Some (i, name, larg, file_length, spaces, start)
          else if c \<noteq> 0x20 \<and> spaces = 0
          then do { name \<leftarrow> aset name (unat i) c;
                    parse_loop command (i + 1) name larg file_length spaces eofn start }
          else do { let eofn = eofn + 1;
                    let spaces = (if c = 0x20 \<and> start = 0 then spaces + 1 else spaces);
                    (name, file_length, eofn) \<leftarrow>
                      (if eofn = 1
                       then do { name \<leftarrow> aset name (unat i) 0; Some (name, i, eofn + 1) }
                       else Some (name, file_length, eofn));
                    (larg, start) \<leftarrow>
                      (if c \<noteq> 0x20 \<or> start = 1
                       then do { larg \<leftarrow> aset larg (unat (i - (file_length + spaces))) c; Some (larg, 1) }
                       else Some (larg, start));
                    parse_loop command (i + 1) name larg file_length spaces eofn start } }"

text \<open>The whole parsing step: the two strings and whether there are arguments.\<close>

definition parse_command :: "rptr \<Rightarrow> u8 list \<Rightarrow> u8 list \<Rightarrow> (u8 list \<times> u8 list \<times> bool) option" where
  "parse_command command name0 larg0 =
     do { (i, name, larg, file_length, spaces, start) \<leftarrow> parse_loop command 0 name0 larg0 0 0 0 0;
          larg \<leftarrow> aset larg (unat (i - (file_length + spaces))) 0;
          name \<leftarrow> (if spaces = 0 then aset name (unat i) 0 else Some name);
          Some (name, larg, start \<noteq> 0) }"

fun find_pid :: "kernel \<Rightarrow> nat list \<Rightarrow> nat option" where
  "find_pid s [] = None"
| "find_pid s (i # is) = (if pid_flags s i = 0 then Some i else find_pid s is)"

text \<open>The copy of the program file, four bytes at a time, to the program page.\<close>

partial_function (option) load_loop :: "u32 \<Rightarrow> u32 \<Rightarrow> kernel \<Rightarrow> kernel option" where
  "load_loop inode i s =
     (let bytes = read_data inode (i * BUF_SIZE) BUF_SIZE s in
      if bytes = [] then Some s
      else do { s \<leftarrow> poke_bytes (LOAD_ADDR + i * BUF_SIZE) bytes s; load_loop inode (i + 1) s })"

text \<open>
  How \<^verbatim>\<open>execute\<close> and \<^verbatim>\<open>halt\<close> end: control returns to the caller of \<^verbatim>\<open>execute\<close> with a value, or a
  program is entered in user mode at an address with a stack pointer.
\<close>

datatype outcome = Returned int | Entered u32 u32

text \<open>The locals \<^verbatim>\<open>file_name\<close>, \<^verbatim>\<open>local_arg\<close>, \<^verbatim>\<open>buffer\<close>, \<^verbatim>\<open>entry_point\<close> before they are assigned.\<close>

record stack_frame =
  name0 :: "u8 list"
  larg0 :: "u8 list"
  buffer0 :: "u8 list"
  entry0 :: "u8 list"

definition execute_start :: "stack_frame \<Rightarrow> dentry_t \<Rightarrow> u8 list \<Rightarrow> bool \<Rightarrow> nat \<Rightarrow> kernel \<Rightarrow> (outcome \<times> kernel) option" where
  "execute_start frame program larg start i s =
     do { let s = s\<lparr>pid_flags := (pid_flags s)(i := 1)\<rparr>;
          let new_pid = int i;
          let s = map_program_page new_pid s;
          entry_point \<leftarrow> astore (entry0 frame) (read_data (inode_number program) ENTRY_POINT_LOCATION BUF_SIZE s);
          s \<leftarrow> load_loop (inode_number program) 0 s;
          s \<leftarrow> setup_PCB new_pid s;
          let s = s\<lparr>current_pid := new_pid\<rparr>;
          let s = set_cur_pcb ((cur_pcb s)\<lparr>parent_esp := esp s, parent_ebp := ebp s, parent_esp0 := tss_esp0 s\<rparr>) s;
          let s = s\<lparr>tss_ss0 := KERNEL_DS, tss_esp0 := (KERNEL_BOT_ADDR - word_of_int new_pid * EIGHT_KB) - 1\<rparr>;
          s \<leftarrow> (if start
               then do { str \<leftarrow> strcpy (arr_ptr larg);
                         new_args \<leftarrow> astore (args (cur_pcb s)) str;
                         Some (set_cur_pcb ((cur_pcb s)\<lparr>args := new_args\<rparr>) s) }
               else Some s);
          target_instruction \<leftarrow> load32_ptr (arr_ptr entry_point);
          let s = s\<lparr>execute_pid := (execute_pid s)(terminal_num s := current_pid s)\<rparr>;
          let s = sti s;
          Some (Entered target_instruction (VIRTUAL_BLOCK_BOTTOM - 1), s) }"

definition execute :: "stack_frame \<Rightarrow> rptr option \<Rightarrow> kernel \<Rightarrow> (outcome \<times> kernel) option" where
  "execute frame command s =
     (let s = cli s in
      case command of
        None \<Rightarrow> Some (Returned (-1), sti s)
      | Some cmd \<Rightarrow>
          do { (name, larg, start) \<leftarrow> parse_command cmd (name0 frame) (larg0 frame);
               found \<leftarrow> read_dentry_by_name (arr_ptr name) s;
               case found of
                 None \<Rightarrow> Some (Returned (-1), sti s)
               | Some program \<Rightarrow>
                   do { buffer \<leftarrow> astore (buffer0 frame) (read_data (inode_number program) 0 BUF_SIZE s);
                        c \<leftarrow> strncmp (arr_ptr buffer) (arr_ptr magic_number) BUF_SIZE;
                        if c \<noteq> 0 then Some (Returned (-1), sti s)
                        else case find_pid s [0..<MAX_PID] of
                               None \<Rightarrow>
                                 do { s \<leftarrow> kprintf (cbytes ''Maximum number of processes reached. Please exit shell. '' @ [0x0A]) [] s;
                                      Some (Returned 0, sti s) }
                             | Some i \<Rightarrow> execute_start frame program larg start i s } })"

text \<open>The code behind the label \<^verbatim>\<open>execute_return\<close>, where a halted program comes back.\<close>

definition execute_return :: "kernel \<Rightarrow> int" where
  "execute_return s = sint (return_value (cur_pcb s))"

fun close_all :: "nat list \<Rightarrow> kernel \<Rightarrow> kernel option" where
  "close_all [] s = Some s"
| "close_all (i # is) s = do { (ret, s) \<leftarrow> close_call (int i) s; close_all is s }"

definition resume_parent :: "int \<Rightarrow> kernel \<Rightarrow> (outcome \<times> kernel) option" where
  "resume_parent halting s =
     (let pcb_halt = pcbs s halting;
          s = s\<lparr>current_pid := sint (parent_id pcb_halt)\<rparr>;
          s = s\<lparr>execute_pid := (execute_pid s)(get_tty s := current_pid s)\<rparr>;
          s = map_program_page (current_pid s) s;
          s = s\<lparr>tss_ss0 := KERNEL_DS, tss_esp0 := parent_esp0 pcb_halt,
                esp := parent_esp pcb_halt, ebp := parent_ebp pcb_halt\<rparr>
      in Some (Returned (execute_return s), s))"

definition halt_256 :: "stack_frame \<Rightarrow> u32 \<Rightarrow> kernel \<Rightarrow> (outcome \<times> kernel) option" where
  "halt_256 frame status s =
     do { let halting = current_pid s;
          let parent = sint (parent_id (pcbs s halting));
          let s = set_pcb parent ((pcbs s parent)\<lparr>return_value := status\<rparr>) s;
          s \<leftarrow> close_all [0..<MAX_FD_NUM] s;
          let s = s\<lparr>pid_flags := (pid_flags s)(nat (current_pid s) := 0)\<rparr>;
          if word_of_int (current_pid s) = parent_id (pcbs s halting)
          then do { (r, s) \<leftarrow> execute frame (Some (arr_ptr (cbytes ''shell'' @ [0]))) s;
                    case r of Entered ip sp \<Rightarrow> Some (Entered ip sp, s)
                            | Returned v \<Rightarrow> resume_parent halting s }
          else resume_parent halting s }"

definition halt :: "stack_frame \<Rightarrow> u8 \<Rightarrow> kernel \<Rightarrow> (outcome \<times> kernel) option" where
  "halt frame status s = halt_256 frame (ucast status) s"

section \<open>Parsing a command\<close>

lemma list_update_append_drop:
  "k < length ys \<Longrightarrow> length xs = k \<Longrightarrow> (xs @ drop k ys)[k := v] = (xs @ [v]) @ drop (Suc k) ys"
  by (simp add: list_update_append Cons_nth_drop_Suc [symmetric])

lemma parse_word:
  assumes cmd: "cstr cmd xs" and len: "length n0 < 4294967296"
  shows "k \<le> length xs \<Longrightarrow> k \<le> length n0 \<Longrightarrow> 0x20 \<notin> set (take k xs) \<Longrightarrow>
    parse_loop cmd 0 n0 l0 0 0 0 0 = parse_loop cmd (of_nat k) (take k xs @ drop k n0) l0 0 0 0 0"
proof (induction k)
  case (Suc k)
  then have k: "k < length xs" "k < length n0" by auto
  have tk: "take (Suc k) xs = take k xs @ [xs ! k]" using k(1) by (rule take_Suc_conv_app_nth)
  then have ns: "xs ! k \<noteq> 0x20" "0x20 \<notin> set (take k xs)" using Suc.prems(3) by auto
  have c: "cmd (of_nat k) = Some (xs ! k)" "xs ! k \<noteq> 0" using cstr_char [OF cmd k(1)] by auto
  have u: "unat (of_nat k :: u32) = k" using k(2) len by (simp add: unat_of_nat_u32)
  have "aset (take k xs @ drop k n0) k (xs ! k) = Some (take (Suc k) xs @ drop (Suc k) n0)"
    using k list_update_append_drop [of k n0 "take k xs" "xs ! k"] by (simp add: tk)
  then have "parse_loop cmd (of_nat k) (take k xs @ drop k n0) l0 0 0 0 0 =
      parse_loop cmd (of_nat (Suc k)) (take (Suc k) xs @ drop (Suc k) n0) l0 0 0 0 0"
    using c ns u by (subst parse_loop.simps) (simp add: add.commute)
  then show ?case using Suc.IH k ns by simp
qed simp

text \<open>One more space, and one character of the arguments.\<close>

lemma parse_step_space:
  assumes "command i = Some 0x20" "spaces \<noteq> 0" "eofn + 1 \<noteq> 1"
  shows "parse_loop command i name larg file_length spaces eofn 0 =
    parse_loop command (i + 1) name larg file_length (spaces + 1) (eofn + 1) 0"
  using assms by (subst parse_loop.simps) simp

lemma parse_step_arg:
  assumes "command i = Some c" "c \<noteq> 0" "spaces \<noteq> 0" "eofn + 1 \<noteq> 1" "c \<noteq> 0x20 \<or> start = 1"
    and "aset larg (unat (i - (file_length + spaces))) c = Some larg'"
  shows "parse_loop command i name larg file_length spaces eofn start =
    parse_loop command (i + 1) name larg' file_length spaces (eofn + 1) 1"
  using assms by (subst parse_loop.simps) auto

text \<open>
  After the first word: \<open>w\<close> characters of the name, \<open>sp\<close> spaces, then the arguments \<open>ar\<close>. The state
  after \<open>k\<close> characters, \<open>w < k\<close>.
\<close>

lemma parse_rest:
  assumes cmd: "cstr cmd xs" and xs: "xs = word @ replicate sp 0x20 @ ar" and w: "w = length word" "w < length n0"
    and sp: "0 < sp" "0x20 \<notin> set word" and ar: "ar = [] \<or> hd ar \<noteq> 0x20" "length ar \<le> length l0"
    and len: "length xs < 2147483648" "length n0 < 4294967296" "length l0 < 4294967296"
  shows "w < k \<Longrightarrow> k \<le> length xs \<Longrightarrow>
    parse_loop cmd 0 n0 l0 0 0 0 0 =
    parse_loop cmd (of_nat k) (word @ 0 # drop (Suc w) n0) (take (k - w - sp) ar @ drop (k - w - sp) l0)
      (of_nat w) (of_nat (min (k - w) sp)) (of_nat (Suc (k - w))) (of_bool (w + sp < k))"
proof (induction k)
  case (Suc k)
  define q where "q = k - w - sp"
  have k: "k < length xs" using Suc.prems by simp
  have c: "cmd (of_nat k) = Some (xs ! k)" "xs ! k \<noteq> 0" using cstr_char [OF cmd k] by auto
  have u: "unat (of_nat k :: u32) = k" using k len by (simp add: unat_of_nat_u32)
  show ?case
  proof (cases "k = w")
    case True
    have "xs ! k = 0x20" using True xs w sp by (simp add: nth_append)
    moreover have "aset (word @ drop w n0) w 0 = Some (word @ 0 # drop (Suc w) n0)"
      using list_update_append_drop [OF w(2) w(1) [symmetric], of 0] w by (simp add: aset_def)
    ultimately have "parse_loop cmd (of_nat k) (word @ drop w n0) l0 0 0 0 0 =
        parse_loop cmd (of_nat (Suc k)) (word @ 0 # drop (Suc w) n0) l0 (of_nat w) 1 2 0"
      using c u True by (subst parse_loop.simps) (simp add: add.commute)
    moreover have "parse_loop cmd 0 n0 l0 0 0 0 0 = parse_loop cmd (of_nat k) (word @ drop w n0) l0 0 0 0 0"
      using parse_word [OF cmd len(2), of k l0] True xs w sp by simp
    ultimately show ?thesis using True sp by (simp add: min_def)
  next
    case False
    then have wk: "w < k" using Suc.prems by simp
    have eofn: "(of_nat (Suc (k - w)) + 1 :: u32) \<noteq> 1" "of_nat (Suc (k - w)) + 1 = (of_nat (Suc (Suc k - w)) :: u32)"
    proof -
      have "(of_nat (Suc (k - w)) :: u32) \<noteq> 0"
        using k len(1) of_nat_inj_u32 [of "Suc (k - w)" 0] by (simp del: of_nat_Suc)
      then show "(of_nat (Suc (k - w)) + 1 :: u32) \<noteq> 1" by simp
      show "of_nat (Suc (k - w)) + 1 = (of_nat (Suc (Suc k - w)) :: u32)" using wk by (simp add: Suc_diff_le)
    qed
    have spn: "(of_nat (min (k - w) sp) :: u32) \<noteq> 0"
    proof -
      have "min (k - w) sp \<noteq> 0" "min (k - w) sp < 4294967296" using wk sp(1) k len(1) by auto
      then show ?thesis using of_nat_inj_u32 [of "min (k - w) sp" 0] by simp
    qed
    note IH = Suc.IH [OF wk less_imp_le [OF k]]
    show ?thesis
    proof (cases "k < w + sp")
      case True
      then have "k - w < sp" using wk by simp
      then have "xs ! k = 0x20" using wk w(1) xs by (simp add: nth_append)
      moreover have "min (Suc k - w) sp = Suc (min (k - w) sp)" "q = 0" "Suc k - w - sp = 0" "min (k - w) sp = k - w"
        using True wk by (auto simp: q_def min_def)
      ultimately show ?thesis
        using IH parse_step_space [OF _ spn eofn(1)] True c(1) eofn(2)
        by (simp add: q_def of_nat_Suc_u32 del: of_nat_Suc)
    next
      case False
      then have q: "q < length ar" "xs ! k = ar ! q" "k = w + sp + q"
        using k wk w xs by (auto simp: nth_append q_def)
      have mn: "min (k - w) sp = sp" "min (Suc k - w) sp = sp" "Suc k - w - sp = Suc q"
        using False by (auto simp: q_def)
      have idx: "unat ((of_nat k :: u32) - (of_nat w + of_nat sp)) = q"
        using q ar(2) len by (simp add: unat_of_nat_u32)
      have set: "aset (take q ar @ drop q l0) q (xs ! k) = Some (take (Suc q) ar @ drop (Suc q) l0)"
        using q ar(2) list_update_append_drop [of q l0 "take q ar" "ar ! q"]
        by (simp add: take_Suc_conv_app_nth)
      have start: "xs ! k \<noteq> 0x20 \<or> (of_bool (w + sp < k) :: u32) = 1"
        using q ar(1) by (cases "q = 0") (auto simp: hd_conv_nth)
      have "w + sp < Suc k" using False by simp
      then show ?thesis
        unfolding IH q_def [symmetric] mn of_nat_Suc_u32 [of k] eofn(2) [symmetric]
        using c spn [unfolded mn(1)] eofn(1) start set
        by (subst parse_step_arg [where larg' = "take (Suc q) ar @ drop (Suc q) l0" and c = "xs ! k"])
           (simp_all only: idx, simp_all)
    qed
  qed
qed simp

lemma parse_command_spec:
  assumes cmd: "cstr cmd (word @ replicate sp 0x20 @ ar)" and word: "0x20 \<notin> set word" "length word < length n0"
    and ar: "sp = 0 \<Longrightarrow> ar = []" "ar = [] \<or> hd ar \<noteq> 0x20" "length ar < length l0" "length word < length l0"
    and len: "length word + sp + length ar < 2147483648" "length n0 < 4294967296" "length l0 < 4294967296"
  shows "parse_command cmd n0 l0 = Some (word @ 0 # drop (Suc (length word)) n0,
    if sp = 0 then l0[length word := 0] else ar @ 0 # drop (Suc (length ar)) l0, ar \<noteq> [])"
proof -
  let ?xs = "word @ replicate sp 0x20 @ ar" and ?w = "length word"
  define k where "k = length ?xs"
  have end_char: "cmd (of_nat k) = Some 0" unfolding k_def by (rule cstr_nul [OF cmd])
  have u: "unat (of_nat ?w :: u32) = ?w" "unat (of_nat (length ar) :: u32) = length ar" using len by (simp_all add: unat_of_nat_u32)
  have nm: "aset (word @ drop ?w n0) ?w 0 = Some (word @ 0 # drop (Suc ?w) n0)"
    using list_update_append_drop [OF word(2) refl, of 0] word(2) by (simp add: aset_def)
  show ?thesis
  proof (cases "sp = 0")
    case True
    then have k: "k = ?w" "?xs = word" using ar(1) by (simp_all add: k_def)
    have "parse_loop cmd 0 n0 l0 0 0 0 0 = parse_loop cmd (of_nat k) (word @ drop ?w n0) l0 0 0 0 0"
      using parse_word [OF cmd len(2), of k l0] k word by simp
    also have "\<dots> = Some (of_nat k, word @ drop ?w n0, l0, 0, 0, 0)"
      using end_char by (subst parse_loop.simps) simp
    finally show ?thesis using True k u nm ar(1,4) by (simp add: parse_command_def)
  next
    case False
    let ?n = "word @ 0 # drop (Suc ?w) n0" and ?l = "ar @ drop (length ar) l0"
    have q: "k - ?w - sp = length ar" "min (k - ?w) sp = sp" "?w < k" "k \<le> length ?xs" "?w + sp < k \<longleftrightarrow> ar \<noteq> []"
      using False by (auto simp: k_def)
    have "parse_loop cmd 0 n0 l0 0 0 0 0 =
        parse_loop cmd (of_nat k) ?n ?l (of_nat ?w) (of_nat sp) (of_nat (Suc (k - ?w))) (of_bool (ar \<noteq> []))"
      using parse_rest [OF cmd refl refl word(2) _ word(1) ar(2) less_imp_le [OF ar(3)] _ len(2,3) q(3,4)] False len(1)
      unfolding q by simp
    also have "\<dots> = Some (of_nat k, ?n, ?l, of_nat ?w, of_nat sp, of_bool (ar \<noteq> []))"
      using end_char by (subst parse_loop.simps) simp
    finally have pl: "parse_loop cmd 0 n0 l0 0 0 0 0 = Some (of_nat k, ?n, ?l, of_nat ?w, of_nat sp, of_bool (ar \<noteq> []))" .
    have idx: "(of_nat k :: u32) - (of_nat ?w + of_nat sp) = of_nat (length ar)" by (simp add: k_def)
    have lg: "aset ?l (length ar) 0 = Some (ar @ 0 # drop (Suc (length ar)) l0)"
      using list_update_append_drop [OF ar(3) refl, of 0] ar(3) by (simp add: aset_def)
    have "(of_nat sp :: u32) \<noteq> 0" using False len(1) of_nat_inj_u32 [of sp 0] by simp
    then show ?thesis using False lg by (simp add: parse_command_def pl idx u)
  qed
qed

text \<open>A first word of 32 or more characters runs over the array \<^verbatim>\<open>file_name\<close>.\<close>

lemma parse_command_overflow:
  assumes cmd: "cstr cmd xs" and long: "length n0 \<le> length xs" "0x20 \<notin> set (take (length n0) xs)"
    and len: "length n0 < 4294967296"
  shows "parse_command cmd n0 l0 = None"
proof -
  let ?k = "length n0"
  have pl: "parse_loop cmd 0 n0 l0 0 0 0 0 = parse_loop cmd (of_nat ?k) (take ?k xs) l0 0 0 0 0"
    using parse_word [OF cmd len, of ?k l0] long by simp
  have u: "unat (of_nat ?k :: u32) = ?k" using len by (simp add: unat_of_nat_u32)
  have out: "aset (take ?k xs) ?k v = None" for v using long by (simp add: aset_def)
  show ?thesis
  proof (cases "?k = length xs")
    case True
    then have "cmd (of_nat ?k) = Some 0" using cstr_nul [OF cmd] by simp
    then show ?thesis
      by (simp add: parse_command_def pl, subst parse_loop.simps)
         (use out u in \<open>auto split: Option.bind_splits\<close>)
  next
    case False
    then have c: "cmd (of_nat ?k) = Some (xs ! ?k)" "xs ! ?k \<noteq> 0"
      using cstr_char [OF cmd, of ?k] long by auto
    have "parse_loop cmd (of_nat ?k) (take ?k xs) l0 0 0 0 0 = None"
      using c u out by (subst parse_loop.simps) simp
    then show ?thesis by (simp add: parse_command_def pl)
  qed
qed

section \<open>Loading a program\<close>

definition prog_entry :: "int \<Rightarrow> u32" where
  "prog_entry pid = (KERNEL_BOT_ADDR + FOUR_MB * word_of_int pid) OR PROGRAM_PROPERTIES"

definition prog_addr :: "int \<Rightarrow> u32 \<Rightarrow> u32" where
  "prog_addr pid v = (prog_entry pid AND 0xFFC00000) OR (v AND 0x3FFFFF)"

lemma mmu_prog:
  assumes "0 \<le> pid" "pid < 6" "PDT s 32 = prog_entry pid" "drop_bit 22 v = (32 :: u32)"
  shows "mmu s user v = Some (prog_addr pid v)"
  using program_frame(2-4) [OF assms(1,2)] assms(3,4)
  by (simp add: mmu_def prog_addr_def prog_entry_def Let_def)

lemma prog_addr_frame:
  assumes "0 \<le> pid" "pid < 6"
  shows "drop_bit 22 (prog_addr pid v) = word_of_int (2 + pid)"
  unfolding prog_addr_def big_page_frame using program_frame(1) [OF assms] by (simp add: prog_entry_def)

lemma prog_addr_inj:
  assumes "drop_bit 22 v = (32 :: u32)" "drop_bit 22 w = 32" "prog_addr pid v = prog_addr pid w"
  shows "v = w"
proof -
  have m: "x AND 0x3FFFFF = take_bit 22 x" for x :: u32 by (simp add: take_bit_eq_mask mask_eq_exp_minus_1)
  have low: "prog_addr pid x AND 0x3FFFFF = x AND 0x3FFFFF" for x
  proof -
    have "(prog_entry pid AND 0xFFC00000) AND 0x3FFFFF = 0" by (simp add: and.assoc)
    then show ?thesis by (simp add: prog_addr_def bit.conj_disj_distrib2 and.assoc)
  qed
  have split: "x = push_bit 22 (drop_bit 22 x) OR take_bit 22 x" for x :: u32
    by (rule bit_word_eqI) (auto simp: bit_simps)
  show ?thesis using low [of v] low [of w] assms split [of v] split [of w] by (simp add: m)
qed

lemma load_page: "k < 0x3B8000 \<Longrightarrow> drop_bit 22 (LOAD_ADDR + of_nat k) = (32 :: u32)"
proof -
  assume "k < 0x3B8000"
  then have "unat (LOAD_ADDR + of_nat k :: u32) = 0x08048000 + k"
    by (simp add: unat_word_ariths unat_of_nat_u32)
  then have "unat (drop_bit 22 (LOAD_ADDR + of_nat k :: u32)) = (0x08048000 + k) div 0x400000"
    using \<open>k < 0x3B8000\<close> by (simp only: unsigned_drop_bit_eq drop_bit_nat_def take_bit_nat_def) simp
  moreover have "(0x08048000 + k) div 0x400000 = 32" using \<open>k < 0x3B8000\<close> by (intro div_nat_eqI) simp_all
  ultimately have "unat (drop_bit 22 (LOAD_ADDR + of_nat k :: u32)) = unat (32 :: u32)" by simp
  then show ?thesis by (simp only: unat_inj_u32)
qed

text \<open>Memory with the first \<open>j\<close> bytes of \<open>f\<close> in place.\<close>

definition blit :: "int \<Rightarrow> u8 list \<Rightarrow> nat \<Rightarrow> mem \<Rightarrow> mem" where
  "blit pid f j m = fold (\<lambda>k m. m(prog_addr pid (LOAD_ADDR + of_nat k) := f ! k)) [0..<j] m"

lemma blit_Suc: "blit pid f (Suc j) m = (blit pid f j m)(prog_addr pid (LOAD_ADDR + of_nat j) := f ! j)"
  by (simp add: blit_def)

lemma blit_outside:
  assumes "0 \<le> pid" "pid < 6" "drop_bit 22 a \<noteq> word_of_int (2 + pid)"
  shows "blit pid f j m a = m a"
proof (induction j)
  case (Suc j)
  have "a \<noteq> prog_addr pid (LOAD_ADDR + of_nat j)" using prog_addr_frame [OF assms(1,2)] assms(3) by metis
  then show ?case using Suc by (simp add: blit_Suc)
qed (simp add: blit_def)

lemma prog_addr_distinct:
  assumes "k < 0x3B8000" "j < 0x3B8000" "k \<noteq> j"
  shows "prog_addr pid (LOAD_ADDR + of_nat k) \<noteq> prog_addr pid (LOAD_ADDR + of_nat j)"
proof
  assume "prog_addr pid (LOAD_ADDR + of_nat k) = prog_addr pid (LOAD_ADDR + of_nat j)"
  then have "LOAD_ADDR + of_nat k = (LOAD_ADDR + of_nat j :: u32)"
    by (rule prog_addr_inj [OF load_page [OF assms(1)] load_page [OF assms(2)]])
  then have "(of_nat k :: u32) = of_nat j" by simp
  moreover have "k < 4294967296" "j < 4294967296" using assms(1,2) by linarith+
  ultimately show False using of_nat_inj_u32 assms(3) by blast
qed

lemma blit_inside: "j \<le> 0x3B8000 \<Longrightarrow> k < j \<Longrightarrow> blit pid f j m (prog_addr pid (LOAD_ADDR + of_nat k)) = f ! k"
proof (induction j)
  case (Suc j)
  show ?case
  proof (cases "k = j")
    case True
    then show ?thesis by (simp only: blit_Suc fun_upd_same)
  next
    case False
    then have "k < j" "k < 0x3B8000" "j < 0x3B8000" using Suc.prems by linarith+
    then show ?thesis
      unfolding blit_Suc using Suc.IH prog_addr_distinct [OF _ _ False]
      by (simp only: fun_upd_other) simp
  qed
qed simp

lemma poke_bytes_blit:
  assumes pid: "0 \<le> pid" "pid < 6" "PDT s 32 = prog_entry pid" and len: "length f \<le> 0x3B8000"
  shows "j + length bs \<le> length f \<Longrightarrow> bs = take (length bs) (drop j f) \<Longrightarrow>
    poke_bytes (LOAD_ADDR + of_nat j) bs (s\<lparr>mem := blit pid f j m\<rparr>) = Some (s\<lparr>mem := blit pid f (j + length bs) m\<rparr>)"
proof (induction bs arbitrary: j)
  case (Cons b bs)
  have j: "j < length f" using Cons.prems by simp
  then have d: "drop j f = f ! j # drop (Suc j) f" by (simp add: Cons_nth_drop_Suc)
  have b: "b = f ! j" "bs = take (length bs) (drop (Suc j) f)" using Cons.prems(2) unfolding d by simp_all
  have "mmu (s\<lparr>mem := blit pid f j m\<rparr>) False (LOAD_ADDR + of_nat j) = Some (prog_addr pid (LOAD_ADDR + of_nat j))"
    using mmu_prog [OF pid(1,2)] pid(3) load_page [of j] j len by simp
  then have "poke (LOAD_ADDR + of_nat j) b (s\<lparr>mem := blit pid f j m\<rparr>) = Some (s\<lparr>mem := blit pid f (Suc j) m\<rparr>)"
    by (simp add: poke_def b(1) blit_Suc)
  moreover have "LOAD_ADDR + of_nat j + 1 = (LOAD_ADDR + of_nat (Suc j) :: u32)" by simp
  moreover have "poke_bytes (LOAD_ADDR + of_nat (Suc j)) bs (s\<lparr>mem := blit pid f (Suc j) m\<rparr>) =
      Some (s\<lparr>mem := blit pid f (j + length (b # bs)) m\<rparr>)"
    using Cons.IH [of "Suc j"] Cons.prems(1) b(2) by (simp del: of_nat_Suc)
  ultimately show ?case by (simp only: poke_bytes.simps Option.bind_lunit)
qed simp

text \<open>The file stays readable while its program page is written.\<close>

definition image_outside :: "int \<Rightarrow> u32 \<Rightarrow> kernel \<Rightarrow> bool" where
  "image_outside pid inode s \<longleftrightarrow>
     (\<forall>m. (\<forall>a. drop_bit 22 a \<noteq> word_of_int (2 + pid) \<longrightarrow> m a = mem s a) \<longrightarrow>
          file_bytes (s\<lparr>mem := m\<rparr>) inode = file_bytes s inode)"

lemma load_loop_spec:
  assumes pid: "0 \<le> pid" "pid < 6" "PDT s 32 = prog_entry pid"
    and f: "f = file_bytes s inode" "length f \<le> 0x3B8000" and img: "image_outside pid inode s"
  shows "4 * i \<le> length f + 3 \<Longrightarrow>
    load_loop inode (of_nat i) (s\<lparr>mem := blit pid f (min (4 * i) (length f)) (mem s)\<rparr>) =
    Some (s\<lparr>mem := blit pid f (length f) (mem s)\<rparr>)"
proof (induction "length f - 4 * i" arbitrary: i rule: less_induct)
  case less
  let ?j = "min (4 * i) (length f)"
  let ?s = "s\<lparr>mem := blit pid f ?j (mem s)\<rparr>"
  have "file_bytes ?s inode = f"
    using img blit_outside [OF pid(1,2)] f(1) by (simp add: image_outside_def)
  moreover have "unat (of_nat i * 4 :: u32) = 4 * i"
    using less.prems f(2) by (simp add: unat_word_ariths unat_of_nat_u32)
  ultimately have rd: "read_data inode (of_nat i * 4) 4 ?s = take 4 (drop (4 * i) f)"
    by (simp add: read_data_slice)
  show ?case
  proof (cases "4 * i < length f")
    case True
    let ?bs = "take 4 (drop (4 * i) f)"
    have ne: "?bs \<noteq> []" using True by simp
    have jb: "4 * i + length ?bs = min (4 * Suc i) (length f)" using True by auto
    have a: "LOAD_ADDR + of_nat i * 4 = (LOAD_ADDR + of_nat (4 * i) :: u32)" by simp
    have "poke_bytes (LOAD_ADDR + of_nat (4 * i)) ?bs ?s =
        Some (s\<lparr>mem := blit pid f (min (4 * Suc i) (length f)) (mem s)\<rparr>)"
    proof -
      have "?bs = take (length ?bs) (drop (4 * i) f)" by (cases "length f - 4 * i \<le> 4") auto
      then show ?thesis
        using poke_bytes_blit [OF pid f(2), of "4 * i" ?bs "mem s"] True unfolding jb by simp
    qed
    moreover have "load_loop inode (of_nat (Suc i)) (s\<lparr>mem := blit pid f (min (4 * Suc i) (length f)) (mem s)\<rparr>) =
        Some (s\<lparr>mem := blit pid f (length f) (mem s)\<rparr>)"
      using less.hyps [of "Suc i"] True by simp
    ultimately show ?thesis using ne
      by (subst load_loop.simps) (simp only: rd Let_def if_False a Option.bind_lunit of_nat_Suc_u32 [symmetric])
  next
    case False
    then have j: "?j = length f" by simp
    have "read_data inode (of_nat i * 4) 4 ?s = []" using False unfolding rd by simp
    then show ?thesis unfolding j by (subst load_loop.simps) (simp only: Let_def if_True simp_thms)
  qed
qed

text \<open>Loading puts the whole file at the load address and touches nothing outside the program page.\<close>

lemma load_program:
  assumes pid: "0 \<le> pid" "pid < 6" "PDT s 32 = prog_entry pid"
    and len: "unat (inode_length s inode) \<le> 0x3B8000" and img: "image_outside pid inode s"
  shows "\<exists>m. load_loop inode 0 s = Some (s\<lparr>mem := m\<rparr>) \<and>
    (\<forall>k < unat (inode_length s inode). m (prog_addr pid (LOAD_ADDR + of_nat k)) = file_bytes s inode ! k) \<and>
    (\<forall>a. drop_bit 22 a \<noteq> word_of_int (2 + pid) \<longrightarrow> m a = mem s a)"
proof -
  let ?f = "file_bytes s inode"
  have "blit pid ?f 0 (mem s) = mem s" by (simp add: blit_def)
  then have "load_loop inode 0 s = Some (s\<lparr>mem := blit pid ?f (length ?f) (mem s)\<rparr>)"
    using load_loop_spec [OF pid refl _ img, of 0] len by simp
  moreover have "\<forall>k < length ?f. blit pid ?f (length ?f) (mem s) (prog_addr pid (LOAD_ADDR + of_nat k)) = ?f ! k"
    using blit_inside len by simp
  ultimately show ?thesis using blit_outside [OF pid(1,2)] by auto
qed

section \<open>Choosing a process id\<close>

lemma find_pid_Some: "find_pid s is = Some i \<Longrightarrow> i \<in> set is \<and> pid_flags s i = 0"
  by (induction s "is" rule: find_pid.induct) (auto split: if_splits)

lemma find_pid_None: "find_pid s is = None \<longleftrightarrow> (\<forall>i \<in> set is. pid_flags s i \<noteq> 0)"
  by (induction s "is" rule: find_pid.induct) auto

lemma find_pid_cong: "pid_flags s' = pid_flags s \<Longrightarrow> find_pid s' is = find_pid s is"
  by (induction s "is" rule: find_pid.induct) auto

section \<open>A new process\<close>

lemma fold_free_entries: "fold (\<lambda>i f. f(i := e)) [0..<n] f = (\<lambda>i. if i < n then e else f i)"
  by (induction n) (auto simp: fun_eq_iff)

definition new_fds :: "pcb_t \<Rightarrow> nat \<Rightarrow> fd_entry_t" where
  "new_fds p = (\<lambda>i. if i < 8 then free_entry else fd_entry p i)
     (0 := free_entry\<lparr>operations_pointer := stdin_table, flags := IN_USE\<rparr>,
      1 := free_entry\<lparr>operations_pointer := stdout_table, flags := IN_USE\<rparr>)"

lemma setup_PCB_eq:
  assumes "0 \<le> pid" "pid < 6"
  shows "setup_PCB pid s = Some (set_pcb pid ((pcbs s pid)\<lparr>fd_entry := new_fds (pcbs s pid), process_id := word_of_int pid,
     parent_id := word_of_int (current_pid s), parent_esp := 0, parent_ebp := 0, return_value := 0,
     tty := of_nat (terminal_num s)\<rparr>) s)"
  using assms by (simp add: setup_PCB_def fold_free_entries new_fds_def Let_def)

lemma new_fds_ok: "fd_entry p = new_fds q \<Longrightarrow> fds_ok p"
  by (auto simp: fds_ok_def new_fds_def entry_ok_def free_entry_def)

lemma map_program_page_frame [frame_simps]:
  "mem (map_program_page pid s) = mem s" "fs_start (map_program_page pid s) = fs_start s"
  "pcbs (map_program_page pid s) = pcbs s" "current_pid (map_program_page pid s) = current_pid s"
  by (simp_all add: map_program_page_def flush_tlb_def)

text \<open>The PCB of a program that \<^verbatim>\<open>execute\<close> has just started from state \<open>s\<close>.\<close>

definition started_pcb :: "kernel \<Rightarrow> nat \<Rightarrow> u8 list \<Rightarrow> pcb_t" where
  "started_pcb s i new_args = (pcbs s (int i))\<lparr>fd_entry := new_fds (pcbs s (int i)), process_id := of_nat i,
     parent_id := word_of_int (current_pid s), return_value := 0, tty := of_nat (terminal_num s),
     parent_esp := esp s, parent_ebp := ebp s, parent_esp0 := tss_esp0 s, args := new_args\<rparr>"

definition started :: "kernel \<Rightarrow> nat \<Rightarrow> u8 list \<Rightarrow> mem \<Rightarrow> kernel" where
  "started s i new_args m = s\<lparr>pid_flags := (pid_flags s)(i := 1),
     PDT := (PDT s)(32 := prog_entry (int i)), cr3 := (cr3 s AND 0xFFF) + PDT_addr s, mem := m,
     current_pid := int i, pcbs := (pcbs s)(int i := started_pcb s i new_args),
     tss_ss0 := KERNEL_DS, tss_esp0 := KERNEL_BOT_ADDR - of_nat i * EIGHT_KB - 1,
     execute_pid := (execute_pid s)(terminal_num s := int i), iflag := True\<rparr>"

lemma image_outside_cong:
  assumes "mem s' = mem s" "fs_start s' = fs_start s"
  shows "image_outside pid inode s' = image_outside pid inode s"
proof -
  have "file_bytes (s'\<lparr>mem := m\<rparr>) inode = file_bytes (s\<lparr>mem := m\<rparr>) inode" for m
    using assms by (intro file_bytes_cong) simp_all
  then show ?thesis
    unfolding image_outside_def assms(1) file_bytes_cong [OF assms] by (simp only:)
qed

lemma load32_ptr_4: "length xs = 4 \<Longrightarrow> \<exists>v. load32_ptr (arr_ptr xs) = Some v"
  by (simp add: load32_ptr_def arr_ptr_def aget_def)

text \<open>\<^verbatim>\<open>execute\<close> once the program is loaded: the entry point and the arguments decide what happens.\<close>

definition load_state :: "nat \<Rightarrow> kernel \<Rightarrow> kernel" where
  "load_state i s = map_program_page (int i) (s\<lparr>pid_flags := (pid_flags s)(i := 1)\<rparr>)"

lemma execute_start_loaded:
  assumes i: "i < 6" and m: "load_loop (inode_number d) 0 (load_state i s) = Some ((load_state i s)\<lparr>mem := m\<rparr>)"
  shows "execute_start frame d larg start i s =
    do { entry_point \<leftarrow> astore (entry0 frame) (read_data (inode_number d) 24 4 (load_state i s));
         new_args \<leftarrow> (if start then do { str \<leftarrow> strcpy (arr_ptr larg); astore (args (pcbs s (int i))) str }
                      else Some (args (pcbs s (int i))));
         eip \<leftarrow> load32_ptr (arr_ptr entry_point);
         Some (Entered eip 0x083FFFFF, started s i new_args m) }"
proof -
  define s1 where "s1 = load_state i s"
  have su: "setup_PCB (int i) (s1\<lparr>mem := m\<rparr>) = Some (set_pcb (int i) ((pcbs s (int i))\<lparr>fd_entry := new_fds (pcbs s (int i)),
      process_id := of_nat i, parent_id := word_of_int (current_pid s), parent_esp := 0, parent_ebp := 0, return_value := 0,
      tty := of_nat (terminal_num s)\<rparr>) (s1\<lparr>mem := m\<rparr>))"
    using setup_PCB_eq [of "int i"] i by (simp add: s1_def load_state_def map_program_page_def flush_tlb_def)
  define s4 where "s4 = s\<lparr>pid_flags := (pid_flags s)(i := 1),
     PDT := (PDT s)(32 := prog_entry (int i)), cr3 := (cr3 s AND 0xFFF) + PDT_addr s, mem := m,
     current_pid := int i, pcbs := (pcbs s)(int i := started_pcb s i (args (pcbs s (int i)))),
     tss_ss0 := KERNEL_DS, tss_esp0 := KERNEL_BOT_ADDR - of_nat i * EIGHT_KB - 1\<rparr>"
  let ?t = "(set_pcb (int i) ((pcbs s (int i))\<lparr>fd_entry := new_fds (pcbs s (int i)),
      process_id := of_nat i, parent_id := word_of_int (current_pid s), parent_esp := 0, parent_ebp := 0, return_value := 0,
      tty := of_nat (terminal_num s)\<rparr>) (s1\<lparr>mem := m\<rparr>))\<lparr>current_pid := int i\<rparr>"
  have step4: "(set_cur_pcb ((cur_pcb ?t)\<lparr>parent_esp := esp ?t, parent_ebp := ebp ?t, parent_esp0 := tss_esp0 ?t\<rparr>) ?t)
      \<lparr>tss_ss0 := KERNEL_DS, tss_esp0 := (KERNEL_BOT_ADDR - word_of_int (int i) * EIGHT_KB) - 1\<rparr> = s4"
    by (simp add: s4_def s1_def load_state_def set_pcb_def set_cur_pcb_def cur_pcb_def map_program_page_def flush_tlb_def
        prog_entry_def started_pcb_def)
  have s4: "execute_pid s4 = execute_pid s" "terminal_num s4 = terminal_num s" "current_pid s4 = int i"
      "args (cur_pcb s4) = args (pcbs s (int i))"
    by (simp_all add: s4_def cur_pcb_def started_pcb_def)
  have arg: "set_cur_pcb ((cur_pcb s4)\<lparr>args := na\<rparr>) s4 = s4\<lparr>pcbs := (pcbs s)(int i := started_pcb s i na)\<rparr>" for na
    by (simp add: s4_def cur_pcb_def set_cur_pcb_def set_pcb_def started_pcb_def)
  have no_arg: "s4 = s4\<lparr>pcbs := (pcbs s)(int i := started_pcb s i (args (pcbs s (int i))))\<rparr>" by (simp add: s4_def)
  have fin: "sti (s4\<lparr>pcbs := (pcbs s)(int i := started_pcb s i na), execute_pid := (execute_pid s)(terminal_num s := int i)\<rparr>) = started s i na m" for na
    by (simp add: s4_def started_def sti_def)
  have a4: "(if start then do { str \<leftarrow> strcpy (arr_ptr larg); new_args \<leftarrow> astore (args (cur_pcb s4)) str;
        Some (set_cur_pcb ((cur_pcb s4)\<lparr>args := new_args\<rparr>) s4) } else Some s4) =
      map_option (\<lambda>na. s4\<lparr>pcbs := (pcbs s)(int i := started_pcb s i na)\<rparr>)
        (if start then do { str \<leftarrow> strcpy (arr_ptr larg); astore (args (pcbs s (int i))) str } else Some (args (pcbs s (int i))))"
    using no_arg by (simp add: s4(4) arg map_option_bind bind_map_option [symmetric] split: Option.bind_split)
  show ?thesis
    unfolding execute_start_def Let_def load_state_def [symmetric] s1_def [symmetric] m [folded s1_def] Option.bind_lunit su step4 a4
    by (cases "if start then do { str \<leftarrow> strcpy (arr_ptr larg); astore (args (pcbs s (int i))) str } else Some (args (pcbs s (int i)))")
       (simp_all add: s4 fin)
qed

lemma execute_start_eq:
  assumes i: "i < 6" and img: "image_outside (int i) (inode_number d) s"
    and len: "28 \<le> unat (inode_length s (inode_number d))" "unat (inode_length s (inode_number d)) \<le> 0x3B8000"
    and entry0: "length (entry0 frame) = 4"
    and args: "start \<Longrightarrow> \<exists>str. strcpy (arr_ptr larg) = Some str \<and> astore (args (pcbs s (int i))) str = Some new_args"
      "\<not> start \<Longrightarrow> new_args = args (pcbs s (int i))"
  shows "\<exists>m eip. execute_start frame d larg start i s = Some (Entered eip 0x083FFFFF, started s i new_args m) \<and>
    load32_ptr (arr_ptr (take 4 (drop 24 (file_bytes s (inode_number d))))) = Some eip \<and>
    (\<forall>k < unat (inode_length s (inode_number d)).
       m (prog_addr (int i) (LOAD_ADDR + of_nat k)) = file_bytes s (inode_number d) ! k) \<and>
    (\<forall>a. drop_bit 22 a \<noteq> word_of_int (2 + int i) \<longrightarrow> m a = mem s a)"
proof -
  let ?inode = "inode_number d" and ?f = "file_bytes s (inode_number d)" and ?s1 = "load_state i s"
  have s1: "mem ?s1 = mem s" "fs_start ?s1 = fs_start s" "PDT ?s1 32 = prog_entry (int i)"
    by (simp_all add: load_state_def frame_simps prog_entry_def)
  have fb: "file_bytes ?s1 ?inode = ?f" "inode_length ?s1 ?inode = inode_length s ?inode"
    using file_bytes_cong [OF s1(1,2)] by (simp_all add: inode_length_def inode_ptr_def s1)
  obtain m where m: "load_loop ?inode 0 ?s1 = Some (?s1\<lparr>mem := m\<rparr>)"
      "\<forall>k < unat (inode_length s ?inode). m (prog_addr (int i) (LOAD_ADDR + of_nat k)) = ?f ! k"
      "\<forall>a. drop_bit 22 a \<noteq> word_of_int (2 + int i) \<longrightarrow> m a = mem s a"
    using load_program [OF _ _ s1(3), of ?inode] i len(2) img image_outside_cong [OF s1(1,2)] by (auto simp: fb s1)
  let ?e = "take 4 (drop 24 ?f)"
  have e4: "length ?e = 4" using len(1) by simp
  obtain eip where eip: "load32_ptr (arr_ptr ?e) = Some eip"
    using load32_ptr_4 [OF e4] by blast
  have "astore (entry0 frame) (read_data ?inode ENTRY_POINT_LOCATION BUF_SIZE ?s1) = Some ?e"
    using entry0 e4 by (simp add: read_data_slice fb astore_def)
  moreover have "(if start then do { str \<leftarrow> strcpy (arr_ptr larg); astore (args (pcbs s (int i))) str }
      else Some (args (pcbs s (int i)))) = Some new_args"
    using args by auto
  ultimately have "execute_start frame d larg start i s = Some (Entered eip 0x083FFFFF, started s i new_args m)"
    unfolding execute_start_loaded [OF i m(1)] using eip by simp
  then show ?thesis using m eip by blast
qed

text \<open>What \<^verbatim>\<open>execute\<close> does with a good command.\<close>

definition frame_ok :: "stack_frame \<Rightarrow> bool" where
  "frame_ok frame \<longleftrightarrow> length (name0 frame) = 32 \<and> length (larg0 frame) = 128 \<and>
     length (buffer0 frame) = 4 \<and> length (entry0 frame) = 4"

text \<open>A command line: the program's name, spaces, arguments.\<close>

definition command_ok :: "u8 list \<Rightarrow> nat \<Rightarrow> u8 list \<Rightarrow> bool" where
  "command_ok word sp ar \<longleftrightarrow> 0x20 \<notin> set word \<and> length word < 32 \<and> length ar < 128 \<and> sp < 1000000 \<and>
     (sp = 0 \<longrightarrow> ar = []) \<and> (ar = [] \<or> hd ar \<noteq> 0x20)"

lemma strncmp_4:
  assumes "length a = 4"
  shows "\<exists>d. strncmp (arr_ptr a) (arr_ptr magic_number) 4 = Some d \<and> (d = 0 \<longleftrightarrow> a = magic_number)"
proof -
  from assms obtain w x y z where a: "a = [w, x, y, z]"
    by (auto simp: length_Suc_conv eval_nat_numeral)
  show ?thesis
    using signed_inj_u8 [of w "0x7F"] signed_inj_u8 [of x "0x45"] signed_inj_u8 [of y "0x4C"] signed_inj_u8 [of z "0x46"]
    unfolding a strncmp_def magic_number_def
    by (simp add: strncmp_loop.simps arr_ptr_def aget_def)
qed

lemma cli_frame [simp, frame_simps]:
  "mem (cli s) = mem s" "fs_start (cli s) = fs_start s" "pid_flags (cli s) = pid_flags s" "pcbs (cli s) = pcbs s"
  "current_pid (cli s) = current_pid s" "terminal_num (cli s) = terminal_num s"
  by (simp_all add: cli_def)

lemma dentry_list_cong: "mem s' = mem s \<Longrightarrow> fs_start s' = fs_start s \<Longrightarrow> dentry_list s' = dentry_list s"
  by (simp add: dentry_list_def)

lemma parse_ok:
  assumes "cstr cmd (word @ replicate sp 0x20 @ ar)" "command_ok word sp ar" "frame_ok frame"
  shows "\<exists>name larg. parse_command cmd (name0 frame) (larg0 frame) = Some (name, larg, ar \<noteq> []) \<and>
    cstr (arr_ptr name) word \<and> (ar \<noteq> [] \<longrightarrow> cstr (arr_ptr larg) ar)"
proof -
  have nz: "0 \<notin> set word" "0 \<notin> set ar" using assms(1) by (auto simp: cstr_def)
  have "cstr (arr_ptr (word @ 0 # ys)) word" "cstr (arr_ptr (ar @ 0 # ys)) ar" for ys
    using nz assms(2) by (auto intro!: cstr_arr_ptr simp: command_ok_def)
  then show ?thesis
    using parse_command_spec [OF assms(1), of "name0 frame" "larg0 frame"] assms(2,3)
    by (auto simp: command_ok_def frame_ok_def)
qed

lemma execute_starts:
  assumes cmd: "cstr cmd (word @ replicate sp 0x20 @ ar)" "command_ok word sp ar" and frame: "frame_ok frame"
    and found: "List.find (name_found word) (dentry_list s) = Some d"
    and magic: "take 4 (file_bytes s (inode_number d)) = magic_number"
    and pid: "find_pid s [0..<6] = Some i" and img: "image_outside (int i) (inode_number d) s"
    and len: "28 \<le> unat (inode_length s (inode_number d))" "unat (inode_length s (inode_number d)) \<le> 0x3B8000"
    and args: "length (args (pcbs s (int i))) = 128"
  shows "\<exists>m eip new_args.
    execute frame (Some cmd) s = Some (Entered eip 0x083FFFFF, started (cli s) i new_args m) \<and>
    load32_ptr (arr_ptr (take 4 (drop 24 (file_bytes s (inode_number d))))) = Some eip \<and>
    (\<forall>k < unat (inode_length s (inode_number d)).
       m (prog_addr (int i) (LOAD_ADDR + of_nat k)) = file_bytes s (inode_number d) ! k) \<and>
    (\<forall>a. drop_bit 22 a \<noteq> word_of_int (2 + int i) \<longrightarrow> m a = mem s a) \<and>
    (if ar = [] then new_args = args (pcbs s (int i)) else cstr (arr_ptr new_args) ar)"
proof -
  let ?s = "cli s" and ?inode = "inode_number d"
  obtain name larg where parse: "parse_command cmd (name0 frame) (larg0 frame) = Some (name, larg, ar \<noteq> [])"
      "cstr (arr_ptr name) word" "ar \<noteq> [] \<longrightarrow> cstr (arr_ptr larg) ar"
    using parse_ok [OF cmd frame] by blast
  have fb: "file_bytes ?s ?inode = file_bytes s ?inode" "inode_length ?s ?inode = inode_length s ?inode"
    using file_bytes_cong [of ?s s] by (simp_all add: inode_length_def inode_ptr_def)
  define new_args where "new_args = (if ar = [] then args (pcbs s (int i)) else ar @ 0 # drop (Suc (length ar)) (args (pcbs s (int i))))"
  have i: "i < 6" using find_pid_Some [OF pid] by simp
  have l4: "length (take 4 (file_bytes s ?inode)) = 4" using len(1) by simp
  have buf: "astore (buffer0 frame) (read_data ?inode 0 4 ?s) = Some magic_number"
    using frame magic l4 by (simp add: read_data_slice fb astore_def frame_ok_def)
  obtain c where c: "strncmp (arr_ptr magic_number) (arr_ptr magic_number) 4 = Some c" "c = 0"
    using strncmp_4 [of magic_number] by (auto simp: magic_number_def)
  have look: "read_dentry_by_name (arr_ptr name) ?s = Some (Some d)"
    using found dentry_list_cong [of ?s s] by (simp add: read_dentry_by_name_find [OF parse(2)])
  have "find_pid ?s [0..<6] = Some i" using pid find_pid_cong [of ?s s] by simp
  then have ex: "execute frame (Some cmd) s = execute_start frame d larg (ar \<noteq> []) i ?s"
    by (simp add: execute_def parse look buf c)
  have "\<exists>str. strcpy (arr_ptr larg) = Some str \<and> astore (args (pcbs ?s (int i))) str = Some new_args" if "ar \<noteq> []"
    using that strcpy_cstr [of "arr_ptr larg" ar] parse(3) args cmd(2)
    by (simp add: astore_def new_args_def command_ok_def)
  then obtain m eip where "execute_start frame d larg (ar \<noteq> []) i ?s = Some (Entered eip 0x083FFFFF, started ?s i new_args m)"
      "load32_ptr (arr_ptr (take 4 (drop 24 (file_bytes s ?inode)))) = Some eip"
      "\<forall>k < unat (inode_length s ?inode). m (prog_addr (int i) (LOAD_ADDR + of_nat k)) = file_bytes s ?inode ! k"
      "\<forall>a. drop_bit 22 a \<noteq> word_of_int (2 + int i) \<longrightarrow> m a = mem s a"
    using execute_start_eq [of i d ?s frame "ar \<noteq> []" larg new_args] i img len frame image_outside_cong [of ?s s]
    by (auto simp: fb frame_ok_def new_args_def)
  moreover have "if ar = [] then new_args = args (pcbs s (int i)) else cstr (arr_ptr new_args) ar"
  proof -
    have "0 \<notin> set ar" "length ar < 4294967296" using cmd by (auto simp: cstr_def command_ok_def)
    then show ?thesis using cstr_arr_ptr by (simp add: new_args_def)
  qed
  ultimately show ?thesis unfolding ex by blast
qed

section \<open>Termination of a process\<close>

definition close_fds :: "nat list \<Rightarrow> pcb_t \<Rightarrow> pcb_t" where
  "close_fds is p = p\<lparr>fd_entry := (\<lambda>k. if k \<in> set is \<and> 2 \<le> k \<and> k < 8 \<and> flags (fd_entry p k) \<noteq> FREE
                                 then free_entry else fd_entry p k)\<rparr>"

lemma set_cur_pcb_simps [simp]:
  "set_cur_pcb q (set_fd i e s) = set_cur_pcb q s" "set_cur_pcb (cur_pcb s) s = s"
  by (simp_all add: set_cur_pcb_def set_fd_def set_pcb_def cur_pcb_def)

lemma close_all_eq:
  "fds_ok (cur_pcb s) \<Longrightarrow> close_all is s = Some (set_cur_pcb (close_fds is (cur_pcb s)) s)"
proof (induction "is" arbitrary: s)
  case Nil
  then show ?case by (simp add: close_fds_def)
next
  case (Cons i "is")
  show ?case
  proof (cases "2 \<le> i \<and> i < 8 \<and> flags (fd_entry (cur_pcb s) i) \<noteq> FREE")
    case True
    let ?s = "set_fd i free_entry s"
    have c: "close_call (int i) s = Some (0, ?s)" using True close_call_eq [OF Cons.prems, of "int i"] by simp
    then have ok: "fds_ok (cur_pcb ?s)" using close_call_fds_ok [OF Cons.prems] by blast
    have "close_fds is (cur_pcb ?s) = close_fds (i # is) (cur_pcb s)"
      using True by (auto simp: close_fds_def fun_eq_iff free_entry_def intro!: pcb_t.equality)
    then show ?thesis using c Cons.IH [OF ok] by simp
  next
    case False
    then have c: "close_call (int i) s = Some (-1, s)" using close_call_eq [OF Cons.prems, of "int i"] by auto
    have "close_fds is (cur_pcb s) = close_fds (i # is) (cur_pcb s)"
      using False by (auto simp: close_fds_def fun_eq_iff intro!: pcb_t.equality)
    then show ?thesis using c Cons.IH [OF Cons.prems] by simp
  qed
qed

text \<open>The state after process \<open>p\<close>, child of \<open>q\<close>, has halted with \<open>status\<close>.\<close>

definition halted :: "kernel \<Rightarrow> int \<Rightarrow> int \<Rightarrow> u32 \<Rightarrow> kernel" where
  "halted s p q status = s\<lparr>
     pcbs := (pcbs s)(q := (pcbs s q)\<lparr>return_value := status\<rparr>, p := close_fds [0..<8] (pcbs s p)),
     pid_flags := (pid_flags s)(nat p := 0), current_pid := q,
     execute_pid := (execute_pid s)(unat (tty (pcbs s q)) := q),
     PDT := (PDT s)(32 := prog_entry q), cr3 := (cr3 s AND 0xFFF) + PDT_addr s,
     tss_ss0 := KERNEL_DS, tss_esp0 := parent_esp0 (pcbs s p), esp := parent_esp (pcbs s p), ebp := parent_ebp (pcbs s p)\<rparr>"

lemma sint_pid: "0 \<le> q \<Longrightarrow> q < 6 \<Longrightarrow> sint (word_of_int q :: u32) = q"
  by (simp add: sint_sbintrunc' signed_take_bit_int_eq_self)

lemma halt_256_child:
  assumes p: "current_pid s = p" "0 \<le> p" "p < 6" and q: "parent_id (pcbs s p) = word_of_int q" "0 \<le> q" "q < 6" "q \<noteq> p"
    and ok: "fds_ok (pcbs s p)"
  shows "halt_256 frame status s = Some (Returned (sint status), halted s p q status)"
proof -
  define s1 where "s1 = set_pcb q ((pcbs s q)\<lparr>return_value := status\<rparr>) s"
  have s1: "current_pid s1 = p" "cur_pcb s1 = pcbs s p"
    using p(1) q(4) by (simp_all add: s1_def set_pcb_def cur_pcb_def)
  define s2 where "s2 = set_cur_pcb (close_fds [0..<8] (pcbs s p)) s1"
  have cl: "close_all [0..<8] s1 = Some s2" unfolding s2_def using close_all_eq [of s1] ok s1 by simp
  have neq: "(word_of_int p :: u32) \<noteq> word_of_int q" using word_of_int_inj_u32 [of p q] p q by simp
  have pq: "sint (parent_id (pcbs s p)) = q" using q sint_pid by simp
  have h: "halt_256 frame status s = resume_parent p (s2\<lparr>pid_flags := (pid_flags s)(nat p := 0)\<rparr>)"
    unfolding halt_256_def Let_def p(1) pq s1_def [symmetric] cl
    using neq q(1) p(1) q(4) s1(1)
    by (simp add: s2_def set_cur_pcb_def set_pcb_def close_fds_def) (simp add: s1_def set_pcb_def)
  have s2: "s2 = s\<lparr>pcbs := (pcbs s)(q := (pcbs s q)\<lparr>return_value := status\<rparr>, p := close_fds [0..<8] (pcbs s p))\<rparr>"
    using s1(1) by (simp add: s2_def set_cur_pcb_def set_pcb_def s1_def)
  show ?thesis unfolding h s2
    using pq q(1,4) by (simp add: resume_parent_def execute_return_def cur_pcb_def get_tty_def map_program_page_def
        flush_tlb_def Let_def halted_def prog_entry_def close_fds_def)
qed

text \<open>Starting a program and halting it gives the parent back its context.\<close>

lemma sint_status: "sint (ucast (st :: u8) :: u32) = uint st"
proof -
  have "unat st < 256" using unsigned_less [of st] by simp
  moreover from this have "unat (ucast st :: u32) = unat st"
    by (simp add: unsigned_ucast_eq take_bit_nat_eq_self)
  ultimately show ?thesis using sint_small_u32 [of "ucast st"] by simp
qed

lemma execute_halt:
  assumes q: "current_pid s = q" "0 \<le> q" "q < 6" "pid_flags s (nat q) \<noteq> 0" and i: "find_pid s [0..<6] = Some i"
  shows "halt frame st (started s i new_args m) = Some (Returned (uint st), halted (started s i new_args m) (int i) q (ucast st))"
    and "let s' = halted (started s i new_args m) (int i) q (ucast st) in
      current_pid s' = q \<and> pid_flags s' = pid_flags s \<and> esp s' = esp s \<and> ebp s' = ebp s \<and> tss_esp0 s' = tss_esp0 s \<and>
      PDT s' 32 = prog_entry q \<and> pcbs s' q = (pcbs s q)\<lparr>return_value := ucast st\<rparr> \<and>
      (\<forall>pid. pid \<noteq> int i \<and> pid \<noteq> q \<longrightarrow> pcbs s' pid = pcbs s pid)"
proof -
  have ip: "i < 6" "pid_flags s i = 0" using find_pid_Some [OF i] by auto
  then have ne: "q \<noteq> int i" using q(2,4) by auto
  let ?u = "started s i new_args m"
  have u: "current_pid ?u = int i" "pcbs ?u (int i) = started_pcb s i new_args" by (simp_all add: started_def)
  have "fds_ok (pcbs ?u (int i))" unfolding u by (rule new_fds_ok [of _ "pcbs s (int i)"]) (simp add: started_pcb_def)
  then show "halt frame st ?u = Some (Returned (uint st), halted ?u (int i) q (ucast st))"
    using halt_256_child [OF u(1), of q frame "ucast st"] ip q ne unfolding u
    by (simp add: halt_def sint_status started_pcb_def)
  have pf: "(pid_flags s)(i := 0) = pid_flags s" using ip by auto
  show "let s' = halted ?u (int i) q (ucast st) in
      current_pid s' = q \<and> pid_flags s' = pid_flags s \<and> esp s' = esp s \<and> ebp s' = ebp s \<and> tss_esp0 s' = tss_esp0 s \<and>
      PDT s' 32 = prog_entry q \<and> pcbs s' q = (pcbs s q)\<lparr>return_value := ucast st\<rparr> \<and>
      (\<forall>pid. pid \<noteq> int i \<and> pid \<noteq> q \<longrightarrow> pcbs s' pid = pcbs s pid)"
    using ne pf by (simp add: halted_def started_def started_pcb_def Let_def)
qed

end
