(* ===== verification/Syscall.thy ===== *)
theory Syscall
  imports Process
begin

text \<open>
  The remaining system calls of \<^verbatim>\<open>student-distrib/system_call.c\<close> (\<^verbatim>\<open>getargs\<close>, \<^verbatim>\<open>vidmap\<close>,
  \<^verbatim>\<open>set_handler\<close>, \<^verbatim>\<open>sigreturn\<close>) and the dispatch of all ten in \<^verbatim>\<open>system_wrapper.S\<close>.
\<close>

section \<open>The other calls\<close>

definition getargs :: "u32 \<Rightarrow> u32 \<Rightarrow> kernel \<Rightarrow> (int \<times> u8 list \<times> kernel) option" where
  "getargs buf nbytes s =
     (if buf = 0 then Some (-1, [], s)
      else do { n \<leftarrow> strlen (arr_ptr (args (cur_pcb s)));
                if n = 0 then Some (-1, [], s)
                else do { bytes \<leftarrow> strncpy (arr_ptr (args (cur_pcb s))) nbytes;
                          new_args \<leftarrow> aset (args (cur_pcb s)) 0 0;
                          Some (0, bytes, set_cur_pcb ((cur_pcb s)\<lparr>args := new_args\<rparr>) s) } })"

definition user_vid_mem_addr :: "nat \<Rightarrow> u32" where
  "user_vid_mem_addr t = [0x06400000, 0x06401000, 0x06402000] ! t"

definition vidmap :: "u32 \<Rightarrow> kernel \<Rightarrow> (int \<times> kernel) option" where
  "vidmap screen_start s =
     (if screen_start < VIRTUAL_BLOCK_TOP \<or> screen_start > VIRTUAL_BLOCK_BOTTOM then Some (-1, s)
      else do { let destination_mem = user_vid_mem_addr (terminal_num s);
                s \<leftarrow> poke_bytes screen_start (map (\<lambda>k. byte_of k destination_mem) [0, 1, 2, 3]) s;
                Some (0, s) })"

definition set_handler :: "u32 \<Rightarrow> u32 \<Rightarrow> kernel \<Rightarrow> int \<times> kernel" where
  "set_handler signum handler_address s = (-1, s)"

definition sigreturn :: "kernel \<Rightarrow> int \<times> kernel" where
  "sigreturn s = (-1, s)"

section \<open>Dispatch\<close>

text \<open>
  The registers of the caller: the call number in \<open>eax\<close>, arguments in \<open>ebx\<close>, \<open>ecx\<close>, \<open>edx\<close>. The
  bytes a call stores into a buffer of the caller go through the page tables. \<open>Returned v\<close>
  resumes the current process with \<open>v\<close> in \<open>eax\<close>.
\<close>

definition sys_handler ::
  "environment \<Rightarrow> stack_frame \<Rightarrow> u32 \<Rightarrow> u32 \<Rightarrow> u32 \<Rightarrow> u32 \<Rightarrow> kernel \<Rightarrow> (outcome \<times> kernel) option" where
  "sys_handler env frame eax ebx ecx edx s =
     (if sint eax < 1 \<or> sint eax > 10 then Some (Returned (-1), s)
      else if eax = 1 then halt frame (ucast ebx) s
      else if eax = 2 then execute frame (user_ptr s ebx) s
      else if eax = 3
      then do { (ret, bytes, s) \<leftarrow> read_call env (sint ebx) ecx edx s;
                s \<leftarrow> poke_bytes ecx bytes s; Some (Returned ret, s) }
      else if eax = 4
      then do { (ret, s) \<leftarrow> write_call env (sint ebx) (user_ptr s ecx) edx s; Some (Returned ret, s) }
      else if eax = 5 then do { (ret, s) \<leftarrow> open_call env (user_ptr s ebx) s; Some (Returned ret, s) }
      else if eax = 6 then do { (ret, s) \<leftarrow> close_call (sint ebx) s; Some (Returned ret, s) }
      else if eax = 7
      then do { (ret, bytes, s) \<leftarrow> getargs ebx ecx s; s \<leftarrow> poke_bytes ebx bytes s; Some (Returned ret, s) }
      else if eax = 8 then do { (ret, s) \<leftarrow> vidmap ebx s; Some (Returned ret, s) }
      else if eax = 9 then (let (ret, s) = set_handler ebx ecx s in Some (Returned ret, s))
      else (let (ret, s) = sigreturn s in Some (Returned ret, s)))"

section \<open>Arguments are handed over once\<close>

lemma getargs_spec:
  assumes "cstr (arr_ptr (args (cur_pcb s))) ar" "ar \<noteq> []" "buf \<noteq> 0"
  defines "s' \<equiv> set_cur_pcb ((cur_pcb s)\<lparr>args := (args (cur_pcb s))[0 := 0]\<rparr>) s"
  shows "getargs buf n s = Some (0, take (unat n) ar @ replicate (unat n - length ar) 0, s')"
    and "getargs buf' n' s' = Some (-1, [], s')"
proof -
  have "(of_nat (length ar) :: u32) \<noteq> 0"
    using of_nat_inj_u32 [of "length ar" 0] cstr_length [OF assms(1)] assms(2) by simp
  moreover have pos: "0 < length (args (cur_pcb s))"
    using cstr_char [OF assms(1), of 0] assms(2) by (auto simp: arr_ptr_def aget_def split: if_splits)
  ultimately show "getargs buf n s = Some (0, take (unat n) ar @ replicate (unat n - length ar) 0, s')"
    using strlen_cstr [OF assms(1)] strncpy_cstr [OF assms(1), of n] assms(3) by (simp add: getargs_def s'_def)
  have "cstr (arr_ptr ((args (cur_pcb s))[0 := 0])) []"
    using pos by (auto simp: cstr_def arr_ptr_def)
  then show "getargs buf' n' s' = Some (-1, [], s')"
    using strlen_cstr by (fastforce simp: getargs_def s'_def)
qed

section \<open>The video mapping\<close>

text \<open>
  The user's video page of terminal \<open>t\<close> follows the kernel's pointer \<open>video_mem\<close>: it shows the screen
  while \<open>t\<close> is displayed and the terminal's backup page otherwise.
\<close>

lemma user_video_follows:
  assumes "video_ok s" "tables_aligned s" "PDT s 25 = PT1_addr s OR 0x7" "t < 3" "k < 0x1000"
  shows "mmu s user (user_vid_mem_addr t + k) =
    Some ((if t = terminal_num s then VIDEO else backup_mem_addr t) OR k)"
proof -
  have al: "PT1_addr s AND 0xFFF = 0" using assms(2) by (simp add: tables_aligned_def)
  have tbl: "page_table s (PDT s 25 AND 0xFFFFF000) = Some (PT1 s)"
    unfolding assms(3) aligned_frame(2) [OF al] using assms(2) by (auto simp: page_table_def tables_aligned_def)
  have pte: "PT1 s t = (if t = terminal_num s then USER_VID_MEM_ENTRY else VID_MEM_BACKUP t)"
    using assms(1,4) by (simp add: video_ok_def)
  have idx: "unat (drop_bit 10 (take_bit 20 (0x6400 + of_nat t :: u32))) = 25"
      "unat (take_bit 20 (0x6400 + of_nat t :: u32) AND 0x3FF) = t"
    using assms(4) by (auto simp: less_3)
  have bits: "bit (PT1 s t) 0" "bit (PT1 s t) 2"
    using assms(4) by (auto simp: pte less_3 VID_MEM_BACKUP_def bit_numeral_rec)
  have mmu: "mmu s user (push_bit 12 (0x6400 + of_nat t) + k) = Some ((PT1 s t AND 0xFFFFF000) OR k)"
    using mmu_page_table [OF assms(5), of "PDT s 25" s "0x6400 + of_nat t" "PT1 s" "PT1 s t" user, unfolded idx]
      tbl aligned_bits [OF al] bits by (simp add: assms(3) bit_or_iff)
  have "push_bit 12 (0x6400 + of_nat t) = user_vid_mem_addr t" "VID_MEM_BACKUP t AND 0xFFFFF000 = backup_mem_addr t"
    using assms(4) by (auto simp: less_3 user_vid_mem_addr_def backup_mem_addr_def VID_MEM_BACKUP_def)
  then show ?thesis using mmu by (simp add: pte)
qed

text \<open>
  The entries of the terminals' video pages stay right under any sequence of switches, from the tables of \<^verbatim>\<open>init_paging\<close> on.
\<close>

lemma switches_keep_video:
  assumes "video_ok s" "set ns \<subseteq> {0, 1, 2}"
  shows "video_ok (fold terminal_switch ns s) \<and> terminal_num (fold terminal_switch ns s) = last (terminal_num s # ns) \<and>
    PDT (fold terminal_switch ns s) = PDT s \<and> PT0_addr (fold terminal_switch ns s) = PT0_addr s \<and> PT1_addr (fold terminal_switch ns s) = PT1_addr s"
  using assms
proof (induction ns arbitrary: s)
  case (Cons n ns)
  have "video_ok (terminal_switch n s)" using terminal_switch_video_ok [OF Cons.prems(1)] Cons.prems(2) by auto
  moreover have "PDT (terminal_switch n s) = PDT s" "PT0_addr (terminal_switch n s) = PT0_addr s" "PT1_addr (terminal_switch n s) = PT1_addr s"
    by (simp_all add: terminal_switch_eq recolor_def update_cursor_def outb_def Let_def)
  ultimately show ?case using Cons.IH [of "terminal_switch n s"] Cons.prems(2) by simp
qed simp

lemma boot_video_ok:
  assumes "terminal_num s = 0" "video_mem s 0 = VIDEO" "video_mem s 1 = backup_mem_addr 1" "video_mem s 2 = backup_mem_addr 2"
  shows "video_ok (paging_tables s)"
  using assms by (auto simp: video_ok_def less_3 paging_tables_eq VID_MEM_BACKUP_def)

text \<open>Four bytes stored in the program page read back.\<close>

lemma program_page_index: "0x08000000 \<le> unat v \<Longrightarrow> unat v + k < 0x08400000 \<Longrightarrow> drop_bit 22 (v + of_nat k) = (32 :: u32)"
proof -
  assume "0x08000000 \<le> unat v" "unat v + k < 0x08400000"
  moreover from this have "unat (v + of_nat k) = unat v + k" by (simp add: unat_word_ariths unat_of_nat_u32)
  ultimately have "unat (drop_bit 22 (v + of_nat k)) = unat (32 :: u32)"
    unfolding unat_drop_bit_eq by (simp add: drop_bit_eq_div div_nat_eqI)
  then show ?thesis by (simp only: unat_inj_u32)
qed

lemma poke_word:
  assumes pid: "0 \<le> pid" "pid < 6" "PDT s 32 = prog_entry pid" and v: "0x08000000 \<le> unat v" "unat v + 3 < 0x08400000"
  shows "\<exists>m. poke_bytes v (map (\<lambda>k. byte_of k w) [0, 1, 2, 3]) s = Some (s\<lparr>mem := m\<rparr>) \<and> load32_ptr (virt_ptr (s\<lparr>mem := m\<rparr>) v) = Some w"
proof -
  have pg: "drop_bit 22 v = 32" "drop_bit 22 (v + 1) = 32" "drop_bit 22 (v + 2) = 32" "drop_bit 22 (v + 3) = 32"
    using program_page_index [OF v(1), of 0] program_page_index [OF v(1), of 1] program_page_index [OF v(1), of 2]
      program_page_index [OF v(1), of 3] v(2) by simp_all
  let ?a = "prog_addr pid"
  have ne: "?a v \<noteq> ?a (v + 1)" "?a v \<noteq> ?a (v + 2)" "?a v \<noteq> ?a (v + 3)" "?a (v + 1) \<noteq> ?a (v + 2)" "?a (v + 1) \<noteq> ?a (v + 3)" "?a (v + 2) \<noteq> ?a (v + 3)"
    using prog_addr_inj [OF pg(1,2)] prog_addr_inj [OF pg(1,3)] prog_addr_inj [OF pg(1,4)] prog_addr_inj [OF pg(2,3)] prog_addr_inj [OF pg(2,4)]
      prog_addr_inj [OF pg(3,4)] by auto
  let ?m = "(mem s)(?a v := byte_of 0 w, ?a (v + 1) := byte_of 1 w, ?a (v + 2) := byte_of 2 w, ?a (v + 3) := byte_of 3 w)"
  have mm: "mmu (s\<lparr>mem := m\<rparr>) u x = Some (?a x)" if "drop_bit 22 x = 32" for m u x using mmu_prog [OF pid(1,2) _ that] pid(3) by simp
  have add: "v + 1 + 1 = v + 2" "v + 2 + 1 = v + 3" by simp_all
  have "poke_bytes v (map (\<lambda>k. byte_of k w) [0, 1, 2, 3]) s = Some (s\<lparr>mem := ?m\<rparr>)"
    using mm [of v "mem s"] by (simp add: poke_def mm pg add)
  moreover have "load32_ptr (virt_ptr (s\<lparr>mem := ?m\<rparr>) v) = Some w"
    using ne word_of_bytes [of w] by (simp add: load32_ptr_def virt_ptr_def mm pg)
  ultimately show ?thesis by blast
qed

lemma vidmap_hands_out:
  assumes "0 \<le> pid" "pid < 6" "PDT s 32 = prog_entry pid" "0x08000000 \<le> unat v" "unat v + 3 < 0x08400000"
  shows "\<exists>s'. vidmap v s = Some (0, s') \<and> load32_ptr (virt_ptr s' v) = Some (user_vid_mem_addr (terminal_num s))"
proof -
  have "\<not> (v < VIRTUAL_BLOCK_TOP \<or> v > VIRTUAL_BLOCK_BOTTOM)" using assms(4,5) by (auto simp: word_less_nat_alt)
  then show ?thesis
    using poke_word [OF assms, of "user_vid_mem_addr (terminal_num s)"] by (auto simp: vidmap_def Let_def simp del: poke_bytes.simps)
qed

lemma video_pages_follow:
  assumes s: "tables_aligned s" "terminal_num s = 0" "video_mem s 0 = VIDEO" "video_mem s 1 = backup_mem_addr 1" "video_mem s 2 = backup_mem_addr 2"
    and ns: "set ns \<subseteq> {0, 1, 2}" and t: "t < 3" "k < 0x1000" and p: "0 \<le> p" "p < 6" and v: "0x08000000 \<le> unat v" "unat v + 3 < 0x08400000"
    and u: "u = map_program_page p (fold terminal_switch ns (paging_tables s))"
  shows "mmu u user (user_vid_mem_addr t + k) = Some ((if t = last (0 # ns) then VIDEO else backup_mem_addr t) OR k)"
    and "\<exists>u'. vidmap v u = Some (0, u') \<and> load32_ptr (virt_ptr u' v) = Some (user_vid_mem_addr (last (0 # ns)))"
proof -
  let ?w = "fold terminal_switch ns (paging_tables s)"
  note w = switches_keep_video [OF boot_video_ok [OF s(2-5)] ns]
  have u': "terminal_num u = last (0 # ns)" "video_ok u" "tables_aligned u" "PDT u 25 = PT1_addr u OR 0x7" "PDT u 32 = prog_entry p"
    using w s(1,2) by (simp_all add: u map_program_page_def flush_tlb_def prog_entry_def video_ok_def tables_aligned_def paging_tables_eq)
  show "mmu u user (user_vid_mem_addr t + k) = Some ((if t = last (0 # ns) then VIDEO else backup_mem_addr t) OR k)"
    using user_video_follows [OF u'(2-4) t] u'(1) by simp
  show "\<exists>u'. vidmap v u = Some (0, u') \<and> load32_ptr (virt_ptr u' v) = Some (user_vid_mem_addr (last (0 # ns)))"
    using vidmap_hands_out [OF p u'(5) v] u'(1) by simp
qed

lemma poke_bytes_frame:
  "poke_bytes v bs s = Some s' \<Longrightarrow> \<exists>m. s' = s\<lparr>mem := m\<rparr>"
proof (induction bs arbitrary: v s)
  case Nil
  then show ?case by (auto intro: exI [of _ "mem s"])
next
  case (Cons b bs)
  then obtain s1 m1 where "poke_bytes (v + 1) bs s1 = Some s'" "s1 = s\<lparr>mem := m1\<rparr>"
    by (auto simp: poke_def split: Option.bind_splits)
  then show ?case using Cons.IH [of "v + 1" s1] by auto
qed

section \<open>System calls keep the descriptor tables well-formed\<close>

lemma fds_ok_args [simp]: "fds_ok (p\<lparr>args := a\<rparr>) = fds_ok p"
  by (simp add: fds_ok_def)

lemma getargs_fds_ok:
  "getargs buf n s = Some (r, bs, s') \<Longrightarrow> fds_ok (cur_pcb s) \<Longrightarrow> fds_ok (cur_pcb s')"
  by (auto simp: getargs_def split: if_splits Option.bind_splits)

lemma poke_bytes_fds_ok:
  "poke_bytes v bs s = Some s' \<Longrightarrow> fds_ok (cur_pcb s') = fds_ok (cur_pcb s)"
  by (auto dest!: poke_bytes_frame simp: cur_pcb_def)

lemma write_call_keeps:
  assumes "write_call env fd p n s = Some (ret, s')"
  shows "keeps_tables s s'"
proof -
  have same: "keeps_tables s (u\<lparr>terminal_num := t\<rparr>)" "keeps_tables s (sti u)" "keeps_tables s (update_cursor x y u)"
    if "keeps_tables s u" for u t x y
    using that by (simp_all add: keeps_tables_def sti_def)
  have call: "keeps_tables s u" if "call_write env f fd' p' n ((cli s)\<lparr>terminal_num := t\<rparr>) = Some (r, u)" for f fd' p' t r u
    using call_write_keeps [OF that] by (simp add: keeps_tables_def cli_def)
  show ?thesis
    using assms unfolding write_call_def
    by (auto simp: Let_def keeps_tables_same intro!: same dest!: call split: if_splits Option.bind_splits)
qed

lemma vidmap_fds_ok: "vidmap a s = Some (r, s') \<Longrightarrow> fds_ok (cur_pcb s') = fds_ok (cur_pcb s)"
  by (auto simp: vidmap_def Let_def poke_bytes_fds_ok simp del: poke_bytes.simps split: if_splits Option.bind_splits)

lemma keeps_tables_cur: "keeps_tables s s' \<Longrightarrow> fds_ok (cur_pcb s) \<Longrightarrow> fds_ok (cur_pcb s')"
  using keeps_tables_fds_ok [of s s' "current_pid s"] by (simp add: keeps_tables_def cur_pcb_def)

lemma sys_handler_fds_ok:
  assumes ok: "fds_ok (cur_pcb s)" and call: "sys_handler env frame eax ebx ecx edx s = Some (Returned v, s')"
    and num: "eax \<noteq> 1" "eax \<noteq> 2" and irqs: "handlers env = map irq_effect qs"
    and name: "eax = 5 \<Longrightarrow> \<exists>xs. cstr (virt_ptr s ebx) xs"
  shows "fds_ok (cur_pcb s')"
proof -
  have rd: "fds_ok (cur_pcb t)" if "read_call env fd b n s = Some (r, bs, u)" "poke_bytes a bs u = Some t" for fd b n r bs u a t
    using keeps_tables_cur [OF read_call_keeps [OF that(1) irqs] ok] that(2) by (simp add: poke_bytes_fds_ok)
  have ga: "fds_ok (cur_pcb t)" if "getargs b n s = Some (r, bs, u)" "poke_bytes a bs u = Some t" for b n r bs u a t
    using getargs_fds_ok [OF that(1) ok] that(2) by (simp add: poke_bytes_fds_ok)
  have op: "fds_ok (cur_pcb t)" if "eax = 5" "open_call env (user_ptr s ebx) s = Some (r, t)" for r t
  proof (rule open_call_fds_ok [OF ok that(2)])
    show "\<exists>xs. cstr p xs" if "user_ptr s ebx = Some p" for p
      using that name [OF \<open>eax = 5\<close>] by (auto simp: user_ptr_def split: if_splits)
  qed
  show ?thesis
    using call num ok unfolding sys_handler_def
    by (auto simp: set_handler_def sigreturn_def vidmap_fds_ok split: if_splits Option.bind_splits
        dest: rd ga op close_call_fds_ok [OF ok] keeps_tables_cur [OF write_call_keeps])
qed

text \<open>A number outside 1 to 10, signed, is refused and nothing changes.\<close>

lemma sys_handler_bad_number:
  "sint eax < 1 \<or> 10 < sint eax \<Longrightarrow> sys_handler env frame eax ebx ecx edx s = Some (Returned (-1), s)"
  by (simp add: sys_handler_def)

end
