(* ===== verification/Sched.thy ===== *)
theory Sched
  imports Syscall
begin

text \<open>
  The scheduler, \<^verbatim>\<open>student-distrib/sched.c\<close>, and the timer that drives it, \<^verbatim>\<open>student-distrib/pit.c\<close>.
  Each tick of the timer saves the stack registers of the running process in its PCB, starts the
  shell of a terminal that has none yet, and otherwise goes on to the process of the next
  terminal. The theory shows that a switched-out process gets its processor context back when
  its terminal's turn comes again.
\<close>

section \<open>Operations of sched.c\<close>

text \<open>How \<^verbatim>\<open>task_switch\<close> ends: a new shell was entered, or it returns on the stack of the process it chose.\<close>

datatype switch_result = Shell_entered u32 u32 | Resumed

definition save_context :: "kernel \<Rightarrow> kernel" where
  "save_context s =
     set_cur_pcb ((cur_pcb s)\<lparr>sched_ebp := ebp s, sched_esp := esp s, sched_esp0 := tss_esp0 s\<rparr>) s"

text \<open>The loop over the terminals; \<open>frames i\<close> are the locals of the \<^verbatim>\<open>execute\<close> of iteration \<open>i\<close>.\<close>

fun start_shells :: "(nat \<Rightarrow> stack_frame) \<Rightarrow> nat list \<Rightarrow> kernel \<Rightarrow> (switch_result \<times> kernel) option" where
  "start_shells frames [] s = Some (Resumed, s)"
| "start_shells frames (i # is) s =
     (if pid_flags s i = 0
      then do { let s = s\<lparr>current_pid := int i, terminal_num := i\<rparr>;
                let s = send_eoi 0 s;
                let s = sti s;
                let s = (if i = TERMINAL_COUNT - 1 then s\<lparr>terminals_initialized := 1\<rparr> else s);
                (r, s) \<leftarrow> execute (frames i) (Some (arr_ptr (cbytes ''shell'' @ [0]))) s;
                case r of Entered ip sp \<Rightarrow> Some (Shell_entered ip sp, s)
                        | Returned v \<Rightarrow> start_shells frames is s }
      else start_shells frames is s)"

definition next_task :: "kernel \<Rightarrow> kernel" where
  "next_task s =
     (let s = (if terminals_initialized s \<noteq> 0 then s\<lparr>terminal_num := 0, terminals_initialized := 0\<rparr> else s);
          s = s\<lparr>pit_terminal_num := (pit_terminal_num s + 1) mod TERMINAL_COUNT\<rparr>;
          s = s\<lparr>current_pid := execute_pid s (pit_terminal_num s)\<rparr>;
          pcb_next = cur_pcb s;
          s = map_program_page (current_pid s) s;
          s = s\<lparr>tss_ss0 := KERNEL_DS, tss_esp0 := sched_esp0 pcb_next,
                esp := sched_esp pcb_next, ebp := sched_ebp pcb_next\<rparr>;
          s = update_cursor (screen_x s (terminal_num s)) (screen_y s (terminal_num s)) s
      in sti s)"

definition task_switch :: "(nat \<Rightarrow> stack_frame) \<Rightarrow> kernel \<Rightarrow> (switch_result \<times> kernel) option" where
  "task_switch frames s =
     do { (r, s) \<leftarrow> start_shells frames [0..<TERMINAL_COUNT] (save_context s);
          case r of Shell_entered ip sp \<Rightarrow> Some (Shell_entered ip sp, s)
                  | Resumed \<Rightarrow> Some (Resumed, next_task s) }"

section \<open>Operations of pit.c\<close>

abbreviation (input) CHANNNEL_0 :: u16 where "CHANNNEL_0 \<equiv> 0x40"
abbreviation (input) COMMAND_REGISTER :: u16 where "COMMAND_REGISTER \<equiv> 0x43"

definition intitalize_PIT :: "kernel \<Rightarrow> kernel" where
  "intitalize_PIT s =
     (let divisor = (word_of_int (1193180 sdiv 100) :: u16);
          s = outb 0x36 COMMAND_REGISTER s;
          s = outb (ucast (divisor AND 0xFF)) CHANNNEL_0 s;
          s = outb (word_of_int (drop_bit 8 (sint divisor))) CHANNNEL_0 s
      in enable_irq 0 s)"

definition PIT_handler :: "(nat \<Rightarrow> stack_frame) \<Rightarrow> kernel \<Rightarrow> (switch_result \<times> kernel) option" where
  "PIT_handler frames s = task_switch frames (send_eoi 0 s)"

section \<open>The switch as a function\<close>

definition shells_running :: "kernel \<Rightarrow> bool" where
  "shells_running s \<longleftrightarrow> pid_flags s 0 \<noteq> 0 \<and> pid_flags s 1 \<noteq> 0 \<and> pid_flags s 2 \<noteq> 0 \<and> pit_terminal_num s < 3"

definition switched :: "kernel \<Rightarrow> kernel" where
  "switched s = next_task (save_context s)"

lemma save_context_frame [simp, frame_simps]:
  "pid_flags (save_context s) = pid_flags s" "pit_terminal_num (save_context s) = pit_terminal_num s"
  "execute_pid (save_context s) = execute_pid s" "current_pid (save_context s) = current_pid s"
  "mem (save_context s) = mem s" "fs_start (save_context s) = fs_start s"
  "esp (save_context s) = esp s" "ebp (save_context s) = ebp s" "tss_esp0 (save_context s) = tss_esp0 s"
  "terminals_initialized (save_context s) = terminals_initialized s" "terminal_num (save_context s) = terminal_num s"
  by (simp_all add: save_context_def set_cur_pcb_def set_pcb_def)

lemma save_context_pcbs:
  "pcbs (save_context s) = (pcbs s)(current_pid s :=
     (cur_pcb s)\<lparr>sched_ebp := ebp s, sched_esp := esp s, sched_esp0 := tss_esp0 s\<rparr>)"
  by (simp add: save_context_def set_cur_pcb_def set_pcb_def)

lemma start_shells_none:
  "\<forall>i \<in> set is. pid_flags s i \<noteq> 0 \<Longrightarrow> start_shells frames is s = Some (Resumed, s)"
  by (induction frames "is" s rule: start_shells.induct) simp_all

lemma task_switch_running:
  assumes "shells_running s"
  shows "task_switch frames s = Some (Resumed, switched s)"
proof -
  have "\<forall>i \<in> set [0..<3]. pid_flags (save_context s) i \<noteq> 0"
    using assms by (simp add: shells_running_def upt_rec numeral_2_eq_2)
  then show ?thesis by (simp only: task_switch_def start_shells_none Option.bind_lunit split_conv switch_result.case switched_def)
qed

lemma sti_frame [simp, frame_simps]:
  "mem (sti s) = mem s" "pcbs (sti s) = pcbs s" "pid_flags (sti s) = pid_flags s" "execute_pid (sti s) = execute_pid s"
  "current_pid (sti s) = current_pid s" "terminal_num (sti s) = terminal_num s" "pit_terminal_num (sti s) = pit_terminal_num s"
  "esp (sti s) = esp s" "ebp (sti s) = ebp s" "tss_esp0 (sti s) = tss_esp0 s" "PDT (sti s) = PDT s" "fs_start (sti s) = fs_start s"
  "terminals_initialized (sti s) = terminals_initialized s"
  by (simp_all add: sti_def)

text \<open>What a switch does to the scheduler's data.\<close>

definition context_of :: "kernel \<Rightarrow> u32 \<times> u32 \<times> u32" where
  "context_of s = (esp s, ebp s, tss_esp0 s)"

definition saved_context :: "kernel \<Rightarrow> int \<Rightarrow> u32 \<times> u32 \<times> u32" where
  "saved_context s p = (sched_esp (pcbs s p), sched_ebp (pcbs s p), sched_esp0 (pcbs s p))"

lemma next_task_frame [simp, frame_simps]:
  "pid_flags (next_task s) = pid_flags s" "execute_pid (next_task s) = execute_pid s" "pcbs (next_task s) = pcbs s"
  "pit_terminal_num (next_task s) = (pit_terminal_num s + 1) mod 3" "mem (next_task s) = mem s"
  by (simp_all add: next_task_def Let_def map_program_page_def flush_tlb_def)

lemma next_task_current:
  "current_pid (next_task s) = execute_pid s ((pit_terminal_num s + 1) mod 3)"
  "context_of (next_task s) = saved_context s (execute_pid s ((pit_terminal_num s + 1) mod 3))"
  "PDT (next_task s) 32 = prog_entry (execute_pid s ((pit_terminal_num s + 1) mod 3))"
  by (simp_all add: next_task_def Let_def map_program_page_def flush_tlb_def context_of_def saved_context_def
      cur_pcb_def prog_entry_def)

lemma switched_frame [simp, frame_simps]:
  "pid_flags (switched s) = pid_flags s" "execute_pid (switched s) = execute_pid s"
  "pit_terminal_num (switched s) = (pit_terminal_num s + 1) mod 3" "mem (switched s) = mem s"
  by (simp_all add: switched_def)

lemma saved_context_save: "saved_context (save_context s) = (saved_context s)(current_pid s := context_of s)"
  by (simp add: saved_context_def save_context_pcbs context_of_def fun_eq_iff)

lemma saved_context_next_task [simp]: "saved_context (next_task s) = saved_context s"
  by (simp add: saved_context_def fun_eq_iff)

lemma switched_current:
  "current_pid (switched s) = execute_pid s ((pit_terminal_num s + 1) mod 3)"
  "context_of (switched s) = saved_context (switched s) (current_pid (switched s))"
  "PDT (switched s) 32 = prog_entry (current_pid (switched s))"
  "saved_context (switched s) = (saved_context s)(current_pid s := context_of s)"
  using next_task_current [of "save_context s"] saved_context_save [of s]
  by (simp_all add: switched_def)

section \<open>Round robin\<close>

text \<open>
  The contract of a round-robin switch over three slots: it saves the live context under the
  running process, moves to the next slot and loads the saved context of that slot's process.
  The client's fact is what a process may rely on: whatever the others do in between, as long
  as they leave its slot and its saved context alone, it continues where it stopped.
\<close>

locale round_robin =
  fixes switch :: "'s \<Rightarrow> 's" and ready :: "'s \<Rightarrow> bool" and slot :: "'s \<Rightarrow> nat" and owner :: "'s \<Rightarrow> nat \<Rightarrow> 'p"
    and current :: "'s \<Rightarrow> 'p" and live :: "'s \<Rightarrow> 'c" and saved :: "'s \<Rightarrow> 'p \<Rightarrow> 'c"
  assumes switch_ready: "ready s \<Longrightarrow> ready (switch s)"
    and slot_bound: "ready s \<Longrightarrow> slot s < 3"
    and switch_slot: "slot (switch s) = (slot s + 1) mod 3"
    and switch_owner: "owner (switch s) = owner s"
    and switch_current: "current (switch s) = owner s (slot (switch s))"
    and switch_saved: "saved (switch s) = (saved s)(current s := live s)"
    and switch_live: "live (switch s) = saved (switch s) (current (switch s))"
begin

text \<open>What the others may do while process \<open>p\<close> of slot \<open>t\<close> is away.\<close>

definition leaves_alone :: "'p \<Rightarrow> nat \<Rightarrow> 's \<Rightarrow> 's \<Rightarrow> bool" where
  "leaves_alone p t s s' \<longleftrightarrow> ready s' \<and> slot s' = slot s \<and> owner s' t = owner s t \<and> saved s' p = saved s p \<and> current s' \<noteq> p"

lemma next_slot_current:
  assumes "ready s"
  shows "current (switch s) = owner s ((slot s + 1) mod 3)"
  using switch_current switch_slot by metis

lemma third_slot: "t < 3 \<Longrightarrow> Suc (Suc (Suc t mod 3) mod 3) mod 3 = (t :: nat)"
  by (simp add: mod_simps)

lemma resumes:
  assumes s: "ready s" "current s = p" "slot s = t" "owner s t = p"
    and w1: "leaves_alone p t (switch s) s1" and w2: "leaves_alone p t (switch s1) s2"
  shows "current (switch s2) = p \<and> slot (switch s2) = t \<and> live (switch s2) = live s"
proof -
  have t: "t < 3" using slot_bound s by blast
  have slots: "slot (switch s2) = t"
    using w1 w2 t third_slot by (simp add: leaves_alone_def switch_slot s(3))
  have own: "owner s2 t = p" using w1 w2 s(4) by (simp add: leaves_alone_def switch_owner)
  have "saved s1 p = live s" using w1 s(2) by (simp add: leaves_alone_def switch_saved)
  then have "saved s2 p = live s" using w1 w2 by (auto simp: leaves_alone_def switch_saved)
  then have "saved (switch s2) p = live s" using w2 by (auto simp: leaves_alone_def switch_saved)
  then show ?thesis using slots own by (simp add: switch_live switch_current)
qed

end

lemma switched_round_robin:
  "round_robin switched shells_running pit_terminal_num execute_pid current_pid context_of saved_context"
  by unfold_locales (simp_all add: shells_running_def switched_current(1,3,4), simp add: switched_current)

interpretation rr: round_robin switched shells_running pit_terminal_num execute_pid current_pid context_of saved_context
  by (rule switched_round_robin)

text \<open>
  What may happen to the state while process \<open>p\<close> of terminal \<open>t\<close> is switched out.
\<close>

definition undisturbed :: "int \<Rightarrow> nat \<Rightarrow> kernel \<Rightarrow> kernel \<Rightarrow> bool" where
  "undisturbed p t s s' \<longleftrightarrow> shells_running s' \<and> pit_terminal_num s' = pit_terminal_num s \<and>
     execute_pid s' t = execute_pid s t \<and> saved_context s' p = saved_context s p \<and> current_pid s' \<noteq> p"

lemma undisturbed_leaves_alone: "undisturbed p t s s' = rr.leaves_alone p t s s'"
  by (simp add: undisturbed_def rr.leaves_alone_def)

lemma process_resumes:
  assumes "shells_running s" "current_pid s = p" "pit_terminal_num s = t" "execute_pid s t = p"
  shows "\<exists>s1. task_switch frames s = Some (Resumed, s1) \<and>
    (\<forall>s1'. undisturbed p t s1 s1' \<longrightarrow> (\<exists>s2. task_switch frames s1' = Some (Resumed, s2) \<and>
      (\<forall>s2'. undisturbed p t s2 s2' \<longrightarrow> (\<exists>s3. task_switch frames s2' = Some (Resumed, s3) \<and>
         current_pid s3 = p \<and> context_of s3 = context_of s \<and> PDT s3 32 = prog_entry p))))"
  using task_switch_running rr.resumes [OF assms] switched_current(3) assms(1)
  unfolding undisturbed_leaves_alone by (metis rr.leaves_alone_def)

section \<open>Starting the shells\<close>

text \<open>
  Physical frames 2 to 7 (of 4 MB) are the program pages. The file system image must lie
  outside them to survive the loading of programs.
\<close>

definition in_program_frames :: "u32 \<Rightarrow> bool" where
  "in_program_frames a \<longleftrightarrow> 2 \<le> drop_bit 22 a \<and> drop_bit 22 a \<le> 7"

definition same_outside :: "mem \<Rightarrow> mem \<Rightarrow> bool" where
  "same_outside m m' \<longleftrightarrow> (\<forall>a. \<not> in_program_frames a \<longrightarrow> m' a = m a)"

definition fs_stable :: "kernel \<Rightarrow> u32 \<Rightarrow> bool" where
  "fs_stable s inode \<longleftrightarrow> (\<forall>m. same_outside (mem s) m \<longrightarrow>
     dentry_list (s\<lparr>mem := m\<rparr>) = dentry_list s \<and> file_bytes (s\<lparr>mem := m\<rparr>) inode = file_bytes s inode)"

lemma frame_in_program_frames:
  assumes "i < 6" "drop_bit 22 a = (word_of_int (2 + int i) :: u32)"
  shows "in_program_frames a"
proof -
  have "i = 0 \<or> i = 1 \<or> i = 2 \<or> i = 3 \<or> i = 4 \<or> i = 5" using assms(1) by auto
  then show ?thesis using assms(2) by (auto simp: in_program_frames_def)
qed

lemma fs_stable_image:
  assumes "fs_stable s inode" "i < 6"
  shows "image_outside (int i) inode s"
proof -
  have "same_outside (mem s) m" if "\<forall>a. drop_bit 22 a \<noteq> word_of_int (2 + int i) \<longrightarrow> m a = mem s a" for m
    using that frame_in_program_frames [OF assms(2)] by (auto simp: same_outside_def)
  then show ?thesis using assms(1) by (auto simp: image_outside_def fs_stable_def)
qed

lemma fs_stable_cong:
  assumes "fs_stable s inode" "fs_start s' = fs_start s" "same_outside (mem s) (mem s')"
  shows "fs_stable s' inode" and "dentry_list s' = dentry_list s" and "file_bytes s' inode = file_bytes s inode"
proof -
  have ext: "dentry_list (s'\<lparr>mem := m\<rparr>) = dentry_list (s\<lparr>mem := m\<rparr>)"
    "file_bytes (s'\<lparr>mem := m\<rparr>) inode = file_bytes (s\<lparr>mem := m\<rparr>) inode" for m
    using assms(2) file_bytes_cong [of "s'\<lparr>mem := m\<rparr>" "s\<lparr>mem := m\<rparr>"] dentry_list_cong [of "s'\<lparr>mem := m\<rparr>" "s\<lparr>mem := m\<rparr>"]
    by simp_all
  have same: "dentry_list (s'\<lparr>mem := m\<rparr>) = dentry_list s \<and> file_bytes (s'\<lparr>mem := m\<rparr>) inode = file_bytes s inode"
    if "same_outside (mem s) m" for m
    using assms(1) that by (simp add: ext fs_stable_def)
  then show *: "dentry_list s' = dentry_list s" "file_bytes s' inode = file_bytes s inode"
    using assms(3) same [of "mem s'"] by simp_all
  show "fs_stable s' inode"
    using assms(3) same by (simp add: fs_stable_def * same_outside_def)
qed

text \<open>A shell is installed: the directory has an executable file of that name.\<close>

definition shell_file :: "kernel \<Rightarrow> dentry_t \<Rightarrow> bool" where
  "shell_file s d \<longleftrightarrow> List.find (name_found (cbytes ''shell'')) (dentry_list s) = Some d \<and>
     take 4 (file_bytes s (inode_number d)) = magic_number \<and>
     28 \<le> length (file_bytes s (inode_number d)) \<and> length (file_bytes s (inode_number d)) \<le> 0x3B8000 \<and>
     fs_stable s (inode_number d)"

lemma shell_file_cong:
  "shell_file s d \<Longrightarrow> fs_start s' = fs_start s \<Longrightarrow> same_outside (mem s) (mem s') \<Longrightarrow> shell_file s' d"
  unfolding shell_file_def using fs_stable_cong [of s "inode_number d" s'] by simp

lemma shell_command:
  "cstr (arr_ptr (cbytes ''shell'' @ [0])) (cbytes ''shell'' @ replicate 0 0x20 @ [])" "command_ok (cbytes ''shell'') 0 []"
proof -
  have "0 \<notin> set (cbytes ''shell'')" "0x20 \<notin> set (cbytes ''shell'')" "length (cbytes ''shell'') = 5"
    by (simp_all add: cbytes_def)
  then show "cstr (arr_ptr (cbytes ''shell'' @ [0])) (cbytes ''shell'' @ replicate 0 0x20 @ [])"
    and "command_ok (cbytes ''shell'') 0 []"
    using cstr_arr_ptr [of "cbytes ''shell''" "[]"] by (simp_all add: command_ok_def)
qed

text \<open>The state in which \<^verbatim>\<open>execute\<close> is called for terminal \<open>i\<close>.\<close>

definition shell_call :: "nat \<Rightarrow> kernel \<Rightarrow> kernel" where
  "shell_call i s =
     (let s = sti (send_eoi 0 (s\<lparr>current_pid := int i, terminal_num := i\<rparr>))
      in if i = 2 then s\<lparr>terminals_initialized := 1\<rparr> else s)"

lemma shell_call_frame [simp]:
  "pid_flags (shell_call i s) = pid_flags s" "mem (shell_call i s) = mem s" "fs_start (shell_call i s) = fs_start s"
  "pcbs (shell_call i s) = pcbs s" "execute_pid (shell_call i s) = execute_pid s" "terminal_num (shell_call i s) = i"
  "current_pid (shell_call i s) = int i" "pit_terminal_num (shell_call i s) = pit_terminal_num s"
  "terminals_initialized (shell_call i s) = (if i = 2 then 1 else terminals_initialized s)"
  by (simp_all add: shell_call_def send_eoi_def outb_def sti_def Let_def)

lemma find_first_pid:
  assumes "i < 6" "pid_flags s i = 0" "\<forall>j < i. pid_flags s j \<noteq> 0"
  shows "find_pid s [0..<6] = Some i"
proof -
  have skip: "find_pid s (xs @ i # ys) = Some i" if "\<forall>j \<in> set xs. pid_flags s j \<noteq> 0" for xs ys
    using that assms(2) by (induction xs) simp_all
  have "[0..<6] = [0..<i] @ i # [Suc i..<6]"
    using assms(1) by (metis upt_add_eq_append upt_conv_Cons le_add_diff_inverse less_imp_le zero_le)
  then show ?thesis using skip [of "[0..<i]" "[Suc i..<6]"] assms(3) by simp
qed

lemma start_shells_skip:
  "\<forall>j \<in> set xs. pid_flags s j \<noteq> 0 \<Longrightarrow> start_shells frames (xs @ ys) s = start_shells frames ys s"
  by (induction xs) simp_all

lemma start_shells_at:
  assumes "i < 3" "pid_flags s i = 0" "\<forall>j < i. pid_flags s j \<noteq> 0"
    and "execute (frames i) (Some (arr_ptr (cbytes ''shell'' @ [0]))) (shell_call i s) = Some (Entered ip sp, s')"
  shows "start_shells frames [0..<3] s = Some (Shell_entered ip sp, s')"
proof -
  have "[0..<3] = [0..<i] @ i # [Suc i..<3]"
    using assms(1) by (metis upt_add_eq_append upt_conv_Cons le_add_diff_inverse less_imp_le zero_le)
  moreover have "start_shells frames (i # ys) s = Some (Shell_entered ip sp, s')" for ys
    using assms(2,4) by (simp add: shell_call_def Let_def split: if_splits)
  ultimately show ?thesis using start_shells_skip [of "[0..<i]" s frames] assms(3) by simp
qed

text \<open>A tick that finds terminal \<open>i\<close> without a shell starts one there, as process \<open>i\<close> and its own parent.\<close>

definition shell_started :: "nat \<Rightarrow> kernel \<Rightarrow> kernel \<Rightarrow> bool" where
  "shell_started i s s' \<longleftrightarrow> pid_flags s' = (pid_flags s)(i := 1) \<and> execute_pid s' = (execute_pid s)(i := int i) \<and>
     current_pid s' = int i \<and> terminal_num s' = i \<and> parent_id (pcbs s' (int i)) = of_nat i \<and> tty (pcbs s' (int i)) = of_nat i \<and>
     fds_ok (pcbs s' (int i)) \<and> PDT s' 32 = prog_entry (int i) \<and> pit_terminal_num s' = pit_terminal_num s \<and>
     terminals_initialized s' = (if i = 2 then 1 else terminals_initialized s) \<and> fs_start s' = fs_start s \<and>
     same_outside (mem s) (mem s') \<and> (\<forall>p. args (pcbs s' p) = args (pcbs s p))"

lemma tick_enters_shell:
  assumes i: "i < 3" "pid_flags s i = 0" "\<forall>j < i. pid_flags s j \<noteq> 0"
    and shell: "shell_file s d" and frame: "frame_ok (frames i)" and args: "length (args (pcbs s (int i))) = 128"
  shows "\<exists>eip m. task_switch frames s =
      Some (Shell_entered eip 0x083FFFFF, started (cli (shell_call i (save_context s))) i (args (pcbs s (int i))) m) \<and>
    load32_ptr (arr_ptr (take 4 (drop 24 (file_bytes s (inode_number d))))) = Some eip \<and>
    (\<forall>a. drop_bit 22 a \<noteq> word_of_int (2 + int i) \<longrightarrow> m a = mem s a)"
proof -
  let ?c = "shell_call i (save_context s)" and ?inode = "inode_number d"
  have sf: "shell_file ?c d" "shell_file s d" "file_bytes ?c ?inode = file_bytes s ?inode"
    using shell shell_file_cong [of s d ?c] file_bytes_cong [of ?c s] by (simp_all add: same_outside_def)
  have il: "inode_length ?c ?inode = inode_length s ?inode" by (simp add: inode_length_def inode_ptr_def)
  have ar: "args (pcbs (save_context s) p) = args (pcbs s p)" for p by (simp add: save_context_pcbs cur_pcb_def)
  have pid: "find_pid ?c [0..<6] = Some i" using i by (intro find_first_pid) simp_all
  obtain m eip where ex: "execute (frames i) (Some (arr_ptr (cbytes ''shell'' @ [0]))) ?c =
        Some (Entered eip 0x083FFFFF, started (cli ?c) i (args (pcbs s (int i))) m)"
      and eip: "load32_ptr (arr_ptr (take 4 (drop 24 (file_bytes s ?inode)))) = Some eip"
      and m: "\<forall>a. drop_bit 22 a \<noteq> word_of_int (2 + int i) \<longrightarrow> m a = mem s a"
    using execute_starts [OF shell_command frame, of ?c d i] sf pid i args fs_stable_image [of ?c ?inode i]
    by (auto simp: shell_file_def ar il)
  have "task_switch frames s = Some (Shell_entered eip 0x083FFFFF, started (cli ?c) i (args (pcbs s (int i))) m)"
    using start_shells_at [of i "save_context s" frames] ex i by (simp add: task_switch_def)
  then show ?thesis using eip m by blast
qed

lemma tick_starts_shell:
  assumes i: "i < 3" "pid_flags s i = 0" "\<forall>j < i. pid_flags s j \<noteq> 0"
    and shell: "shell_file s d" and frame: "frame_ok (frames i)" and args: "length (args (pcbs s (int i))) = 128"
  shows "\<exists>eip s'. task_switch frames s = Some (Shell_entered eip 0x083FFFFF, s') \<and>
    load32_ptr (arr_ptr (take 4 (drop 24 (file_bytes s (inode_number d))))) = Some eip \<and> shell_started i s s'"
proof -
  let ?c = "shell_call i (save_context s)"
  obtain eip m where t: "task_switch frames s = Some (Shell_entered eip 0x083FFFFF, started (cli ?c) i (args (pcbs s (int i))) m)"
      "load32_ptr (arr_ptr (take 4 (drop 24 (file_bytes s (inode_number d))))) = Some eip"
      and m: "\<forall>a. drop_bit 22 a \<noteq> word_of_int (2 + int i) \<longrightarrow> m a = mem s a"
    using tick_enters_shell [of i s d frames] assms by blast
  have ar: "args (pcbs (save_context s) p) = args (pcbs s p)" for p by (simp add: save_context_pcbs cur_pcb_def)
  have "same_outside (mem s) m"
    using m frame_in_program_frames [of i] i(1) by (auto simp: same_outside_def)
  moreover have "fds_ok (started_pcb (cli ?c) i (args (pcbs s (int i))))"
    by (rule new_fds_ok) (simp add: started_pcb_def)
  ultimately have "shell_started i s (started (cli ?c) i (args (pcbs s (int i))) m)"
    by (auto simp: shell_started_def started_def ar)
       (simp_all add: started_pcb_def cli_def)
  then show ?thesis using t by blast
qed

text \<open>
  The boot sequence: three ticks start the three shells, the next one brings the display back to
  the first terminal and switches to the shell of the second.
\<close>

lemma boot_shells:
  assumes free: "\<forall>i < 3. pid_flags s i = 0" and pit: "pit_terminal_num s = 0"
    and shell: "shell_file s d" and frames: "\<forall>i. frame_ok (frames i)" and args: "\<forall>p. length (args (pcbs s p)) = 128"
  shows "\<exists>eip s1 s2 s3.
    task_switch frames s = Some (Shell_entered eip 0x083FFFFF, s1) \<and>
    task_switch frames s1 = Some (Shell_entered eip 0x083FFFFF, s2) \<and>
    task_switch frames s2 = Some (Shell_entered eip 0x083FFFFF, s3) \<and>
    task_switch frames s3 = Some (Resumed, switched s3) \<and>
    (\<forall>i < 3. execute_pid s3 i = int i) \<and> terminal_num (switched s3) = 0 \<and> current_pid (switched s3) = 1"
proof -
  obtain eip s1 where 1: "task_switch frames s = Some (Shell_entered eip 0x083FFFFF, s1)" "shell_started 0 s s1"
      and eip: "load32_ptr (arr_ptr (take 4 (drop 24 (file_bytes s (inode_number d))))) = Some eip"
    using tick_starts_shell [of 0 s d frames] assms by auto
  have sh1: "shell_file s1 d" using shell_file_cong [OF shell, of s1] 1(2) by (simp add: shell_started_def)
  have fb1: "file_bytes s1 (inode_number d) = file_bytes s (inode_number d)"
    using fs_stable_cong(3) [of s "inode_number d" s1] shell 1(2) by (simp add: shell_file_def shell_started_def)
  obtain s2 where 2: "task_switch frames s1 = Some (Shell_entered eip 0x083FFFFF, s2)" "shell_started 1 s1 s2"
    using tick_starts_shell [of 1 s1 d frames] sh1 1(2) assms eip fb1 by (auto simp: shell_started_def)
  have sh2: "shell_file s2 d" using shell_file_cong [OF sh1, of s2] 2(2) by (simp add: shell_started_def)
  have fb2: "file_bytes s2 (inode_number d) = file_bytes s (inode_number d)"
    using fs_stable_cong(3) [of s1 "inode_number d" s2] sh1 2(2) fb1 by (simp add: shell_file_def shell_started_def)
  have fl2: "\<forall>j < 2. pid_flags s2 j \<noteq> 0" "pid_flags s2 2 = 0"
    using 1(2) 2(2) free by (auto simp: shell_started_def less_2_cases_iff)
  obtain s3 where 3: "task_switch frames s2 = Some (Shell_entered eip 0x083FFFFF, s3)" "shell_started 2 s2 s3"
    using tick_starts_shell [of 2 s2 d frames] sh2 fl2 1(2) 2(2) assms eip fb2 by (auto simp: shell_started_def)
  have run: "shells_running s3" using 1(2) 2(2) 3(2) pit by (simp add: shells_running_def shell_started_def)
  have ex: "\<forall>i < 3. execute_pid s3 i = int i"
    using 1(2) 2(2) 3(2) by (auto simp: shell_started_def less_Suc_eq numeral_3_eq_3 numeral_2_eq_2)
  have "terminals_initialized s3 = 1" "pit_terminal_num s3 = 0" using 1(2) 2(2) 3(2) pit by (simp_all add: shell_started_def)
  then have "terminal_num (switched s3) = 0" "current_pid (switched s3) = 1"
    using ex by (simp_all add: switched_current(1) switched_def next_task_def Let_def map_program_page_def flush_tlb_def)
  then show ?thesis using 1(1) 2(1) 3(1) task_switch_running [OF run] ex by blast
qed

end
