(* ===== verification/Idt.thy ===== *)
theory Idt
  imports Sched
begin

text \<open>
  The interrupt descriptor table, \<^verbatim>\<open>student-distrib/idt.c\<close>, the exception handlers of
  \<^verbatim>\<open>student-distrib/idt.h\<close> and the descriptor types of \<^verbatim>\<open>student-distrib/x86_desc.h\<close>. The addresses the
  linker gives the handlers are an argument. The theory shows what the processor reads in the
  table after \<^verbatim>\<open>init_idt\<close>, and that an exception of a program ends that program only.
\<close>

section \<open>Gates\<close>

record idt_desc_t =
  offset_15_00 :: u16
  seg_selector :: u16
  reserved4 :: u8
  reserved3 :: "1 word"
  reserved2 :: "1 word"
  reserved1 :: "1 word"
  size :: "1 word"
  reserved0 :: "1 word"
  dpl :: "2 word"
  present :: "1 word"
  offset_31_16 :: u16

text \<open>The functions the table points at: the exception handlers by number, and the others.\<close>

datatype handler = Exception nat | Undefined_interrupt | Sys_handler | K_handler | R_handler | P_handler

definition SET_IDT_ENTRY :: "u32 \<Rightarrow> idt_desc_t \<Rightarrow> idt_desc_t" where
  "SET_IDT_ENTRY handler str =
     str\<lparr>offset_31_16 := ucast (drop_bit 16 (handler AND 0xFFFF0000)), offset_15_00 := ucast (handler AND 0xFFFF)\<rparr>"

definition init_gate :: "(handler \<Rightarrow> u32) \<Rightarrow> nat \<Rightarrow> idt_desc_t \<Rightarrow> idt_desc_t" where
  "init_gate addr i g =
     (let g = g\<lparr>present := 1, dpl := 0, reserved0 := 0, size := 1, reserved1 := 1, reserved2 := 1, reserved3 := 0,
               reserved4 := 0, seg_selector := 0x10\<rparr>;
          g = (if i < 0x20 then g\<lparr>reserved3 := 0\<rparr> else g);
          g = (if i = 0x80 then g\<lparr>reserved3 := 1, dpl := 3\<rparr> else g)
      in SET_IDT_ENTRY (addr Undefined_interrupt) g)"

definition init_idt :: "(handler \<Rightarrow> u32) \<Rightarrow> (nat \<Rightarrow> idt_desc_t) \<Rightarrow> nat \<Rightarrow> idt_desc_t" where
  "init_idt addr idt =
     (let idt = fold (\<lambda>i t. t(i := init_gate addr i (t i))) [0..<256] idt;
          idt = fold (\<lambda>i t. t(i := SET_IDT_ENTRY (addr (Exception i)) (t i))) [0..<20] idt;
          idt = idt(0x80 := SET_IDT_ENTRY (addr Sys_handler) (idt 0x80));
          idt = idt(0x21 := SET_IDT_ENTRY (addr K_handler) (idt 0x21));
          idt = idt(0x28 := SET_IDT_ENTRY (addr R_handler) (idt 0x28))
      in idt(0x20 := SET_IDT_ENTRY (addr P_handler) (idt 0x20)))"

section \<open>Exceptions\<close>

type_synonym exception_handler = "stack_frame \<Rightarrow> kernel \<Rightarrow> (outcome \<times> kernel) option"

text \<open>The common body: print, enable interrupts, \<^verbatim>\<open>halt_256(256)\<close>, which does not come back.\<close>

definition exception_exit :: "u8 list \<Rightarrow> exception_handler" where
  "exception_exit msg frame s =
     do { s \<leftarrow> kprintf msg [] s; let s = sti s; halt_256 frame 256 s }"

definition DE :: exception_handler where
  "DE = exception_exit (cbytes '' Divide Error!!!'' @ [0x0A])"

definition DB :: exception_handler where
  "DB = exception_exit (cbytes ''RESERVED!!!'' @ [0x0A])"

definition NMI :: exception_handler where
  "NMI = exception_exit (cbytes ''Nonmaskable Interrupt Exception!!!'' @ [0x0A])"

definition BP :: exception_handler where
  "BP = exception_exit (cbytes ''Breakpoint Exception!!!'' @ [0x0A])"

definition OF :: exception_handler where
  "OF = exception_exit (cbytes ''Overflow Exception!!!'' @ [0x0A])"

definition BR :: exception_handler where
  "BR = exception_exit (cbytes ''BOUND Range Exceeded Exception!!!'' @ [0x0A])"

definition UD :: exception_handler where
  "UD = exception_exit (cbytes ''Invalid Opcode Exception!!!'' @ [0x0A])"

definition NM :: exception_handler where
  "NM = exception_exit (cbytes ''Device Not Available Exception!!!'' @ [0x0A])"

definition DF :: exception_handler where
  "DF = exception_exit (cbytes ''Double Fault Exception!!!'' @ [0x0A])"

definition CSO :: exception_handler where
  "CSO = exception_exit (cbytes ''Coprocessor Segment Overrun Exception!!!'' @ [0x0A])"

definition TS :: exception_handler where
  "TS = exception_exit (cbytes ''Invalid TSS Exception!!!'' @ [0x0A])"

definition NP :: exception_handler where
  "NP = exception_exit (cbytes ''Segment Not Present!!!'' @ [0x0A])"

definition SS :: exception_handler where
  "SS = exception_exit (cbytes ''Stack-Segment Fault Exception!!!'' @ [0x0A])"

definition GP :: exception_handler where
  "GP = exception_exit (cbytes ''General Protection Exception!!!'' @ [0x0A])"

definition PF :: exception_handler where
  "PF = exception_exit (cbytes ''Page Fault Exception!!!'' @ [0x0A])"

definition Resr :: exception_handler where
  "Resr = exception_exit (cbytes ''Reserved!!!'' @ [0x0A])"

definition MF :: exception_handler where
  "MF = exception_exit (cbytes ''Floating Point Error Exception!!!'' @ [0x0A])"

definition AC :: exception_handler where
  "AC = exception_exit (cbytes ''Alignment Check Exception!!!'' @ [0x0A])"

definition MC :: exception_handler where
  "MC = exception_exit (cbytes ''Machine Check Exception!!!'' @ [0x0A])"

definition XF :: exception_handler where
  "XF = exception_exit (cbytes ''SIMD Floating Point Exception!!!'' @ [0x0A])"

definition exception_handlers :: "exception_handler list" where
  "exception_handlers = [DE, DB, NMI, BP, OF, BR, UD, NM, DF, CSO, TS, NP, SS, GP, PF, Resr, MF, AC, MC, XF]"

text \<open>The handler of all other vectors prints and loops for ever; the result is the state it loops in.\<close>

definition undefined_interrupt :: "kernel \<Rightarrow> kernel option" where
  "undefined_interrupt s = kprintf (cbytes '' Undefined Interrupt!!!'' @ [0x0A]) [] s"

section \<open>The assembly wrappers\<close>

text \<open>
  Each wrapper saves the registers, calls the C handler, restores them and returns with \<^verbatim>\<open>iret\<close>. The
  gate has cleared the interrupt flag and \<^verbatim>\<open>iret\<close> restores the one of the interrupted code; after
  \<^verbatim>\<open>PIT_handler\<close> that is the code of the process that was switched in, which had it set
  when the timer interrupted it.
\<close>

definition k_handler :: "u8 \<Rightarrow> kernel \<Rightarrow> kernel option" where
  "k_handler c s = map_option (\<lambda>s'. s'\<lparr>iflag := iflag s\<rparr>) (keyboard_handler c (cli s))"

definition R_handler_wrapper :: "kernel \<Rightarrow> kernel" where
  "R_handler_wrapper s = (RTC_handler (s\<lparr>iflag := False\<rparr>))\<lparr>iflag := iflag s\<rparr>"

definition P_handler_wrapper :: "(nat \<Rightarrow> stack_frame) \<Rightarrow> kernel \<Rightarrow> (switch_result \<times> kernel) option" where
  "P_handler_wrapper frames s =
     do { (r, s) \<leftarrow> PIT_handler frames (s\<lparr>iflag := False\<rparr>);
          Some (r, case r of Resumed \<Rightarrow> s\<lparr>iflag := True\<rparr> | Shell_entered ip sp \<Rightarrow> s) }"

section \<open>The table the processor reads\<close>

text \<open>The target address and the attribute word (bits 8 to 15 of the second dword) of a gate.\<close>

definition gate_target :: "idt_desc_t \<Rightarrow> u32" where
  "gate_target g = push_bit 16 (ucast (offset_31_16 g)) OR ucast (offset_15_00 g)"

definition gate_attr :: "idt_desc_t \<Rightarrow> u8" where
  "gate_attr g = push_bit 7 (ucast (present g)) OR push_bit 5 (ucast (dpl g)) OR push_bit 4 (ucast (reserved0 g)) OR
     push_bit 3 (ucast (size g)) OR push_bit 2 (ucast (reserved1 g)) OR push_bit 1 (ucast (reserved2 g)) OR ucast (reserved3 g)"

text \<open>The handler a vector is meant for.\<close>

definition vector_handler :: "nat \<Rightarrow> handler" where
  "vector_handler v = (if v < 20 then Exception v else if v = 0x20 then P_handler else if v = 0x21 then K_handler
     else if v = 0x28 then R_handler else if v = 0x80 then Sys_handler else Undefined_interrupt)"

lemma gate_target_SET [simp]: "gate_target (SET_IDT_ENTRY a g) = a"
proof -
  have "push_bit 16 (ucast (ucast (drop_bit 16 (a AND 0xFFFF0000)) :: u16)) OR ucast (ucast (a AND 0xFFFF) :: u16) = (a :: u32)"
  proof -
    have m: "(0xFFFF :: u32) = mask 16" "(0xFFFF0000 :: u32) = push_bit 16 (mask 16)" by (simp_all add: mask_eq_exp_minus_1)
    show ?thesis unfolding m by (rule bit_word_eqI) (auto simp: bit_simps)
  qed
  then show ?thesis by (simp add: gate_target_def SET_IDT_ENTRY_def)
qed

lemma gate_attr_SET [simp]: "gate_attr (SET_IDT_ENTRY a g) = gate_attr g" "seg_selector (SET_IDT_ENTRY a g) = seg_selector g"
  by (simp_all add: gate_attr_def SET_IDT_ENTRY_def)

lemma fold_gates: "fold (\<lambda>i t. t(i := f i (t i))) [0..<n] t = (\<lambda>v. if v < n then f v (t v) else t v)"
  by (induction n) (auto simp: fun_eq_iff less_Suc_eq)

lemma init_gate_attr:
  "gate_attr (init_gate addr i g) = (if i = 0x80 then 0xEF else 0x8E)" "seg_selector (init_gate addr i g) = 0x10"
  "gate_target (init_gate addr i g) = addr Undefined_interrupt"
proof -
  show "gate_target (init_gate addr i g) = addr Undefined_interrupt" by (simp only: init_gate_def Let_def gate_target_SET)
qed (simp_all add: init_gate_def Let_def gate_attr_def SET_IDT_ENTRY_def)

text \<open>
  Every vector has a present gate into the kernel's code segment, at ring 0 as an interrupt gate
  except for the system call, which is a trap gate that user code may enter; and it leads to
  the vector's handler.
\<close>

lemma init_idt_vector:
  assumes "v < 256"
  shows "gate_target (init_idt addr idt v) = addr (vector_handler v) \<and> seg_selector (init_idt addr idt v) = 0x10 \<and>
    gate_attr (init_idt addr idt v) = (if v = 0x80 then 0xEF else 0x8E)"
  using assms fold_gates [of "init_gate addr" 256 idt] fold_gates [of "\<lambda>i. SET_IDT_ENTRY (addr (Exception i))" 20]
  by (simp add: init_idt_def Let_def init_gate_attr vector_handler_def)

section \<open>Exceptions end the program\<close>

text \<open>A message with a reference rendering is printed, and printing changes only the screen.\<close>

lemma kprintf_render:
  assumes "0 \<notin> set msg" "length msg < 4294967296" "render msg vargs = Some out"
  shows "\<exists>s'. kprintf msg vargs s = Some s' \<and> screen_only s s'"
proof -
  let ?s = "if check_out_of_bound s \<noteq> 0 then scroll_screen s else s"
  have "screen_only t (out_text xs t)" for xs t
    unfolding out_text_def by (induction xs arbitrary: t) (auto intro: screen_only_trans screen_only_putc)
  moreover have "screen_only s ?s" using screen_only_scroll by simp
  ultimately have "screen_only s (out_text out ?s)" using screen_only_trans by blast
  then show ?thesis
    using printf_render [OF cstr_arr_ptr [OF assms(1,2)] assms(3), of "[]" s] by (simp add: kprintf_def)
qed

lemma render_plain: "0x25 \<notin> set xs \<Longrightarrow> render xs vs = Some xs"
  by (induction xs) auto

lemmas kprintf_plain = kprintf_render [OF _ _ render_plain]

lemmas exception_defs = DE_def DB_def NMI_def BP_def OF_def BR_def UD_def NM_def DF_def CSO_def TS_def NP_def SS_def GP_def PF_def Resr_def MF_def AC_def MC_def XF_def

text \<open>The messages are single lines of plain text.\<close>

definition text_line :: "u8 list \<Rightarrow> bool" where
  "text_line msg \<longleftrightarrow> 0 \<notin> set msg \<and> 0x25 \<notin> set msg \<and> 0x0A \<notin> set msg \<and> 0x0D \<notin> set msg \<and> length msg \<le> 57"

lemma exception_message:
  assumes "n < 20"
  shows "\<exists>msg. exception_handlers ! n = exception_exit (msg @ [0x0A]) \<and> text_line msg"
proof -
  have "list_all (\<lambda>h. \<exists>msg. h = exception_exit (msg @ [0x0A]) \<and> text_line msg) exception_handlers"
    unfolding exception_handlers_def list.pred_inject
    by (intro conjI list.pred_inject(1)) (rule exI, rule conjI, rule exception_defs, simp add: text_line_def cbytes_def)+
  moreover have "length exception_handlers = 20" by (simp add: exception_handlers_def)
  ultimately show ?thesis using assms by (simp add: list_all_length)
qed

text \<open>An exception in a program that another process started ends it: the parent's \<^verbatim>\<open>execute\<close> returns 256.\<close>

lemma exception_ends_program:
  assumes n: "n < 20" and p: "current_pid s = p" "0 \<le> p" "p < 6"
    and q: "parent_id (pcbs s p) = word_of_int q" "0 \<le> q" "q < 6" "q \<noteq> p" and ok: "fds_ok (pcbs s p)"
  shows "\<exists>s'. screen_only s s' \<and> (exception_handlers ! n) frame s = Some (Returned 256, halted s' p q 256)"
proof -
  obtain msg where h: "exception_handlers ! n = exception_exit (msg @ [0x0A])" "text_line msg"
    using exception_message [OF n] by blast
  obtain t where t: "kprintf (msg @ [0x0A]) [] s = Some t" "screen_only s t"
    using kprintf_plain [of "msg @ [0x0A]" "[]" s] h(2) by (auto simp: text_line_def)
  have "screen_only t (sti t)"
    by (rule screen_onlyI [where m = "mem t" and x = "screen_x t" and y = "screen_y t" and out = "outs t" and i = True]) (simp add: sti_def)
  then have so: "screen_only s (sti t)" using t(2) screen_only_trans by blast
  have "halt_256 frame 256 (sti t) = Some (Returned (sint (256 :: u32)), halted (sti t) p q 256)"
    using p q ok screen_onlyD(13,14) [OF so] by (intro halt_256_child) simp_all
  then have "exception_exit (msg @ [0x0A]) frame s = Some (Returned 256, halted (sti t) p q 256)"
    using t(1) by (simp add: exception_exit_def)
  then show ?thesis using so h(1) by auto
qed

end
