(* ===== verification/User_Lib.thy ===== *)
theory User_Lib
  imports Syscall
begin

text \<open>
  The library the user programs are linked with: the call stubs of \<^verbatim>\<open>syscalls/ece391syscall.S\<close> and
  the routines of \<^verbatim>\<open>syscalls/ece391support.c\<close>. A program's local array is a list of bytes; the bytes
  the kernel hands over are stored into it, and a store or an access outside it is \<open>None\<close>. The
  kernel only tests the address of a buffer against NULL, so all arrays have the address
  \<open>USER_BUF\<close>, some address of the program's stack. \<open>None\<close> is also a call that is still waiting.
\<close>

section \<open>System calls\<close>

abbreviation (input) USER_BUF :: u32 where "USER_BUF \<equiv> 0x083FF000"

definition astore_at :: "u8 list \<Rightarrow> nat \<Rightarrow> u8 list \<Rightarrow> u8 list option" where
  "astore_at xs k bs =
     (if k + length bs \<le> length xs then Some (take k xs @ bs @ drop (k + length bs) xs) else None)"

definition ece391_read :: "environment \<Rightarrow> int \<Rightarrow> u8 list \<Rightarrow> nat \<Rightarrow> u32 \<Rightarrow> kernel \<Rightarrow> (int \<times> u8 list \<times> kernel) option" where
  "ece391_read env fd buf k nbytes s =
     do { (ret, bytes, s) \<leftarrow> read_call env fd USER_BUF nbytes s;
          buf \<leftarrow> astore_at buf k bytes;
          Some (ret, buf, s) }"

definition ece391_write :: "environment \<Rightarrow> int \<Rightarrow> rptr \<Rightarrow> u32 \<Rightarrow> kernel \<Rightarrow> (int \<times> kernel) option" where
  "ece391_write env fd buf nbytes s = write_call env fd (Some buf) nbytes s"

definition ece391_open :: "environment \<Rightarrow> rptr \<Rightarrow> kernel \<Rightarrow> (int \<times> kernel) option" where
  "ece391_open env filename s = open_call env (Some filename) s"

definition ece391_close :: "int \<Rightarrow> kernel \<Rightarrow> (int \<times> kernel) option" where
  "ece391_close fd s = close_call fd s"

definition ece391_getargs :: "u8 list \<Rightarrow> u32 \<Rightarrow> kernel \<Rightarrow> (int \<times> u8 list \<times> kernel) option" where
  "ece391_getargs buf nbytes s =
     do { (ret, bytes, s) \<leftarrow> getargs USER_BUF nbytes s;
          buf \<leftarrow> astore_at buf 0 bytes;
          Some (ret, buf, s) }"

definition ece391_vidmap :: "u32 \<Rightarrow> kernel \<Rightarrow> (int \<times> kernel) option" where
  "ece391_vidmap screen_start s = vidmap screen_start s"

text \<open>
  \<^verbatim>\<open>execute\<close> comes back with its own result, or after the program it entered has halted: \<open>child ip sp\<close>
  is the run of that program from its entry to the moment the caller resumes.
\<close>

type_synonym user_run = "u32 \<Rightarrow> u32 \<Rightarrow> kernel \<Rightarrow> (int \<times> kernel) option"

definition ece391_execute :: "stack_frame \<Rightarrow> user_run \<Rightarrow> rptr \<Rightarrow> kernel \<Rightarrow> (int \<times> kernel) option" where
  "ece391_execute frame child command s =
     do { (r, s) \<leftarrow> execute frame (Some command) s;
          case r of Returned v \<Rightarrow> Some (v, s) | Entered ip sp \<Rightarrow> child ip sp s }"

text \<open>\<^verbatim>\<open>_start\<close>: run \<^verbatim>\<open>main\<close>, then halt with its return value.\<close>

definition start_main :: "stack_frame \<Rightarrow> (kernel \<Rightarrow> (int \<times> kernel) option) \<Rightarrow> kernel \<Rightarrow> (outcome \<times> kernel) option" where
  "start_main frame main s = do { (eax, s) \<leftarrow> main s; halt frame (word_of_int eax) s }"

section \<open>ece391support.c\<close>

partial_function (option) ece391_strlen_loop :: "rptr \<Rightarrow> u32 \<Rightarrow> u32 \<Rightarrow> u32 option" where
  "ece391_strlen_loop p s len =
     do { c \<leftarrow> p s; if 0 \<noteq> c then ece391_strlen_loop p (s + 1) (len + 1) else Some len }"

definition ece391_strlen :: "rptr \<Rightarrow> u32 option" where
  "ece391_strlen s = ece391_strlen_loop s 0 0"

text \<open>A copy inside one array, from index \<open>src\<close> to index \<open>dst\<close>.\<close>

function ece391_strcpy :: "u8 list \<Rightarrow> nat \<Rightarrow> nat \<Rightarrow> u8 list option" where
  "ece391_strcpy a dst src =
     do { c \<leftarrow> aget a src;
          a \<leftarrow> aset a dst c;
          if 0 \<noteq> c then ece391_strcpy a (Suc dst) (Suc src) else Some a }"
  by pat_completeness auto
termination
  by (relation "measure (\<lambda>(a, dst, src). length a - src)")
     (auto simp: aget_def aset_def split: if_splits)

declare ece391_strcpy.simps [simp del]

definition ece391_fdputs :: "environment \<Rightarrow> int \<Rightarrow> rptr \<Rightarrow> kernel \<Rightarrow> kernel option" where
  "ece391_fdputs env fd s k =
     do { n \<leftarrow> ece391_strlen s; (ret, k) \<leftarrow> ece391_write env fd s n k; Some k }"

partial_function (option) ece391_strcmp_loop :: "rptr \<Rightarrow> rptr \<Rightarrow> u32 \<Rightarrow> int option" where
  "ece391_strcmp_loop s1 s2 i =
     do { a \<leftarrow> s1 i; b \<leftarrow> s2 i;
          if a = b then if a = 0 then Some 0 else ece391_strcmp_loop s1 s2 (i + 1)
          else Some (uint a - uint b) }"

definition ece391_strcmp :: "rptr \<Rightarrow> rptr \<Rightarrow> int option" where
  "ece391_strcmp s1 s2 = ece391_strcmp_loop s1 s2 0"

function ece391_strncmp_loop :: "rptr \<Rightarrow> rptr \<Rightarrow> u32 \<Rightarrow> u32 \<Rightarrow> int option" where
  "ece391_strncmp_loop s1 s2 n i =
     do { a \<leftarrow> s1 i; b \<leftarrow> s2 i;
          if a = b then if a = 0 \<or> n - 1 = 0 then Some 0 else ece391_strncmp_loop s1 s2 (n - 1) (i + 1)
          else Some (uint a - uint b) }"
  by pat_completeness auto
termination
proof (relation "measure (\<lambda>(s1, s2, n, i). unat (n - 1))", goal_cases)
  case (2 s1 s2 n i)
  then have "n - 1 \<noteq> 0" by simp
  then have "unat (n - 1 - 1) < unat (n - 1)" by (metis measure_unat)
  then show ?case by simp
qed simp

declare ece391_strncmp_loop.simps [simp del]

definition ece391_strncmp :: "rptr \<Rightarrow> rptr \<Rightarrow> u32 \<Rightarrow> int option" where
  "ece391_strncmp s1 s2 n = (if 0 = n then Some 0 else ece391_strncmp_loop s1 s2 n 0)"

definition ece391_strrev :: "u8 list \<Rightarrow> u8 list option" where
  "ece391_strrev s =
     do { len \<leftarrow> ece391_strlen (arr_ptr s);
          let end = sint (len - 1);
          Some (if end \<le> 0 then s else strrev_loop s 0 end) }"

definition ece391_itoa :: "u32 \<Rightarrow> u8 list \<Rightarrow> u32 \<Rightarrow> u8 list option" where
  "ece391_itoa value buf radix =
     (if value = 0
      then do { b \<leftarrow> aset buf 0 (of_nat (of_char (CHR ''0''))); aset b 1 0 }
      else do { b \<leftarrow> itoa_loop buf 0 value radix; ece391_strrev b })"

text \<open>String literals of the programs; \<open>litn\<close> has a newline at the end.\<close>

abbreviation lit :: "string \<Rightarrow> rptr" where "lit str \<equiv> arr_ptr (cbytes str @ [0])"
abbreviation litn :: "string \<Rightarrow> rptr" where "litn str \<equiv> arr_ptr (cbytes str @ [0x0A, 0])"

text \<open>A local array of \<open>n\<close> bytes holds what happens to be on the stack.\<close>

definition local_array :: "nat \<Rightarrow> (nat \<Rightarrow> u8) \<Rightarrow> u8 list" where
  "local_array n junk = map junk [0..<n]"

lemma local_array_length [simp]: "length (local_array n junk) = n"
  by (simp add: local_array_def)

section \<open>The stubs\<close>

text \<open>The result of a call does not depend on where the caller's buffer is.\<close>

lemma read_call_any_buffer:
  "a \<noteq> 0 \<Longrightarrow> b \<noteq> 0 \<Longrightarrow> read_call env fd a n s = read_call env fd b n s"
proof -
  assume "a \<noteq> 0" "b \<noteq> 0"
  then have "call_read env f k a n s = call_read env f k b n s" for f k
    by (cases f) (simp_all add: call_read_def terminal_read_def read_RTC_def read_file_def read_directory_def)
  then show ?thesis by (simp add: read_call_def cong: if_cong)
qed

lemma astore_at_Some: "k + length bs \<le> length xs \<Longrightarrow> astore_at xs k bs = Some (take k xs @ bs @ drop (k + length bs) xs)"
  by (simp add: astore_at_def)

lemma arr_ptr_prefix: "k < length xs \<Longrightarrow> length xs < 4294967296 \<Longrightarrow> arr_ptr (xs @ ys) (of_nat k) = Some (xs ! k)"
  by (simp add: arr_ptr_def unat_of_nat_u32 nth_append)

section \<open>Strings\<close>

lemma ece391_strlen_loop_cstr:
  "cstr p xs \<Longrightarrow> k \<le> length xs \<Longrightarrow> ece391_strlen_loop p (of_nat k) (of_nat k) = Some (of_nat (length xs))"
proof (induction "length xs - k" arbitrary: k)
  case 0
  then have "k = length xs" by simp
  then show ?case using cstr_nul [OF 0(2)] by (subst ece391_strlen_loop.simps) simp
next
  case (Suc d)
  then have k: "k < length xs" by simp
  from Suc have "ece391_strlen_loop p (of_nat (Suc k)) (of_nat (Suc k)) = Some (of_nat (length xs))"
    by (intro Suc.hyps(1)) simp_all
  then show ?case using cstr_char [OF Suc.prems(1) k] by (subst ece391_strlen_loop.simps) (simp add: add.commute)
qed

lemma ece391_strlen_cstr: "cstr p xs \<Longrightarrow> ece391_strlen p = Some (of_nat (length xs))"
  using ece391_strlen_loop_cstr [of p xs 0] by (simp add: ece391_strlen_def)

lemma ece391_strcmp_loop_cstr:
  assumes "cstr p xs" "cstr q ys"
  shows "k \<le> length xs \<Longrightarrow> k \<le> length ys \<Longrightarrow>
    \<exists>r. ece391_strcmp_loop p q (of_nat k) = Some r \<and> (r = 0 \<longleftrightarrow> drop k xs = drop k ys)"
proof (induction "length xs - k" arbitrary: k)
  case 0
  then have k: "k = length xs" by simp
  then have p: "p (of_nat k) = Some 0" using cstr_nul [OF assms(1)] by simp
  show ?case
  proof (cases "k = length ys")
    case True
    then show ?thesis using p cstr_nul [OF assms(2)] k by (subst ece391_strcmp_loop.simps) simp
  next
    case False
    then have k2: "k < length ys" using 0 by simp
    then show ?thesis using p cstr_char [OF assms(2) k2] k by (subst ece391_strcmp_loop.simps) (auto simp: uint_0_iff)
  qed
next
  case (Suc d)
  then have k: "k < length xs" by simp
  note p = cstr_char [OF assms(1) k]
  have dx: "drop k xs = xs ! k # drop (Suc k) xs" using k by (simp add: Cons_nth_drop_Suc)
  show ?case
  proof (cases "k = length ys")
    case True
    then show ?thesis using p cstr_nul [OF assms(2)] k by (subst ece391_strcmp_loop.simps) (auto simp: dx uint_0_iff)
  next
    case False
    then have k2: "k < length ys" using Suc by simp
    note q = cstr_char [OF assms(2) k2]
    have dy: "drop k ys = ys ! k # drop (Suc k) ys" using k2 by (simp add: Cons_nth_drop_Suc)
    have "\<exists>r. ece391_strcmp_loop p q (of_nat (Suc k)) = Some r \<and> (r = 0 \<longleftrightarrow> drop (Suc k) xs = drop (Suc k) ys)"
      using Suc k k2 by (intro Suc.hyps(1)) simp_all
    moreover have "uint (xs ! k) = uint (ys ! k) \<longleftrightarrow> xs ! k = ys ! k" by (metis unsigned_word_eqI)
    ultimately show ?thesis using p q by (subst ece391_strcmp_loop.simps) (simp add: dx dy add.commute)
  qed
qed

lemma ece391_strcmp_cstr:
  "cstr p xs \<Longrightarrow> cstr q ys \<Longrightarrow> \<exists>r. ece391_strcmp p q = Some r \<and> (r = 0 \<longleftrightarrow> xs = ys)"
  using ece391_strcmp_loop_cstr [of p xs q ys 0] by (simp add: ece391_strcmp_def)

section \<open>Output\<close>

text \<open>
  What a process changes of the kernel by printing and by calls on its own descriptors: screens and
  cursors, port output, the interrupt flag, its descriptors and arguments.
\<close>

definition process_frame :: "kernel \<Rightarrow> kernel \<Rightarrow> bool" where
  "process_frame s s' \<longleftrightarrow> (\<exists>m x y out i f a. s' = s\<lparr>mem := m, screen_x := x, screen_y := y, outs := out, iflag := i,
     pcbs := (pcbs s)(current_pid s := (cur_pcb s)\<lparr>fd_entry := f, args := a\<rparr>)\<rparr>)"

lemma process_frameI:
  "s' = s\<lparr>mem := m, screen_x := x, screen_y := y, outs := out, iflag := i,
     pcbs := (pcbs s)(current_pid s := (cur_pcb s)\<lparr>fd_entry := f, args := a\<rparr>)\<rparr> \<Longrightarrow> process_frame s s'"
  unfolding process_frame_def by blast

lemma process_frame_pcb: "process_frame s (set_cur_pcb ((cur_pcb s)\<lparr>fd_entry := f, args := a\<rparr>) s)"
  by (rule process_frameI [where m = "mem s" and x = "screen_x s" and y = "screen_y s" and out = "outs s" and i = "iflag s"])
     (simp add: set_cur_pcb_def set_pcb_def)

lemma process_frame_screen: "screen_only s s' \<Longrightarrow> process_frame s s'"
proof -
  assume "screen_only s s'"
  then obtain m x y out i where "s' = s\<lparr>mem := m, screen_x := x, screen_y := y, outs := out, iflag := i\<rparr>"
    unfolding screen_only_def by blast
  moreover have "(pcbs s)(current_pid s := (cur_pcb s)\<lparr>fd_entry := fd_entry (cur_pcb s), args := args (cur_pcb s)\<rparr>) = pcbs s"
    by (simp add: cur_pcb_def)
  ultimately show ?thesis
    by (intro process_frameI [where f = "fd_entry (cur_pcb s)" and a = "args (cur_pcb s)"]) simp
qed

lemma process_frameD:
  assumes "process_frame s s'"
  shows "current_pid s' = current_pid s" "fs_start s' = fs_start s" "video_mem s' = video_mem s"
    "terminal_num s' = terminal_num s" "pid_flags s' = pid_flags s" "get_tty s' = get_tty s"
    "parent_id (cur_pcb s') = parent_id (cur_pcb s)" "\<And>pid. pid \<noteq> current_pid s \<Longrightarrow> pcbs s' pid = pcbs s pid"
  using assms by (auto simp: process_frame_def cur_pcb_def get_tty_def)

lemma process_frame_trans:
  assumes "process_frame s s'" "process_frame s' s''"
  shows "process_frame s s''"
proof -
  obtain m x y out i f a where s'': "s'' = s'\<lparr>mem := m, screen_x := x, screen_y := y, outs := out, iflag := i,
     pcbs := (pcbs s')(current_pid s' := (cur_pcb s')\<lparr>fd_entry := f, args := a\<rparr>)\<rparr>"
    using assms(2) unfolding process_frame_def by blast
  show ?thesis
    by (rule process_frameI [where m = m and x = x and y = y and out = out and i = i and f = f and a = a])
       (use assms(1) in \<open>auto simp: s'' process_frame_def cur_pcb_def\<close>)
qed

text \<open>
  \<open>shown xs s s'\<close>: the current process has printed \<open>xs\<close> on its own terminal. Apart from that terminal's
  page memory is as it was, the other screens too, and the process can go on printing.
\<close>

definition shown :: "u8 list \<Rightarrow> kernel \<Rightarrow> kernel \<Rightarrow> bool" where
  "shown xs s s' \<longleftrightarrow> stdout_ok s' \<and> process_frame s s' \<and>
     confined (video_mem s (get_tty s)) (mem s) (mem s') \<and>
     abs_screen s' (get_tty s) = fold emit xs (abs_screen s (get_tty s)) \<and>
     (\<forall>u < 3. u \<noteq> get_tty s \<longrightarrow> abs_screen s' u = abs_screen s u)"

lemma shown_trans [trans]: "shown xs s s' \<Longrightarrow> shown ys s' s'' \<Longrightarrow> shown (xs @ ys) s s''"
  using confined_trans process_frame_trans process_frameD(3,6) [of s s'] unfolding shown_def by (auto 0 4)

lemma shown_refl: "stdout_ok s \<Longrightarrow> shown [] s s"
  by (simp add: shown_def process_frame_screen)

lemma shown_stdout_ok: "shown xs s s' \<Longrightarrow> stdout_ok s'"
  by (simp add: shown_def)

lemma printed_shown: "stdout_ok s \<Longrightarrow> printed (get_tty s) xs s s' \<Longrightarrow> shown xs s s'"
  using printed_stdout_ok [of s xs s'] process_frame_screen by (simp add: shown_def printed_def)

lemma write_shows:
  assumes "stdout_ok s" "\<And>k. k < length xs \<Longrightarrow> p (of_nat k) = Some (xs ! k)" "length xs < 2147483648" "0x0D \<notin> set xs"
  shows "\<exists>s'. ece391_write env 1 p (of_nat (length xs)) s = Some (int (length xs), s') \<and> shown xs s s' \<and> cur_pcb s' = cur_pcb s"
proof -
  obtain s' where "write_call env 1 (Some p) (of_nat (length xs)) s = Some (int (length xs), s')" "printed (get_tty s) xs s s'"
    using write_stdout [OF assms] by blast
  then show ?thesis using printed_shown [OF assms(1)] screen_only_cur by (auto simp: ece391_write_def printed_def)
qed

lemma fdputs_shows:
  assumes "stdout_ok s" "cstr p xs" "length xs < 2147483648" "0x0D \<notin> set xs"
  shows "\<exists>s'. ece391_fdputs env 1 p s = Some s' \<and> shown xs s s' \<and> cur_pcb s' = cur_pcb s"
proof -
  obtain s' where "ece391_write env 1 p (of_nat (length xs)) s = Some (int (length xs), s')" "shown xs s s'" "cur_pcb s' = cur_pcb s"
    using write_shows [of s xs p env] assms cstr_char [OF assms(2)] by blast
  then show ?thesis by (simp add: ece391_fdputs_def ece391_strlen_cstr [OF assms(2)])
qed

text \<open>A change of a descriptor or of the arguments shows nothing.\<close>

lemma shown_pcb:
  assumes "stdout_ok s" "fds_ok ((cur_pcb s)\<lparr>fd_entry := f, args := a\<rparr>)"
  shows "shown [] s (set_cur_pcb ((cur_pcb s)\<lparr>fd_entry := f, args := a\<rparr>) s)" (is "shown [] s ?s")
proof -
  have "get_tty ?s = get_tty s" by (simp add: get_tty_def)
  then show ?thesis
    using assms process_frame_pcb [where s = s and f = f and a = a] by (simp add: shown_def stdout_ok_def cursor_ok_def pages_ok_def)
       (simp add: set_cur_pcb_def set_pcb_def abs_screen_def char_at_def cong: if_cong)
qed

lemma shown_set_fd:
  assumes "stdout_ok s" "entry_ok fd e"
  shows "shown [] s (set_fd fd e s)"
  using shown_pcb [OF assms(1), where f = "(fd_entry (cur_pcb s))(fd := e)" and a = "args (cur_pcb s)"] assms
  by (simp add: set_fd_def fds_ok_def stdout_ok_def)

section \<open>Files and the screen\<close>

text \<open>
  The file system lies outside the page of the process's terminal, so printing changes no directory
  entry and no byte of the file \<open>inode\<close>.
\<close>

definition off_screen :: "kernel \<Rightarrow> u32 \<Rightarrow> bool" where
  "off_screen s inode \<longleftrightarrow> (\<forall>m. confined (video_mem s (get_tty s)) (mem s) m \<longrightarrow>
     dentry_list (s\<lparr>mem := m\<rparr>) = dentry_list s \<and> file_bytes (s\<lparr>mem := m\<rparr>) inode = file_bytes s inode)"

lemma off_screen_shown:
  assumes "off_screen s inode" "shown xs s s'"
  shows "off_screen s' inode" and "dentry_list s' = dentry_list s" and "file_bytes s' inode = file_bytes s inode"
proof -
  have *: "dentry_list (s'\<lparr>mem := m\<rparr>) = dentry_list s \<and> file_bytes (s'\<lparr>mem := m\<rparr>) inode = file_bytes s inode"
    if "confined (video_mem s (get_tty s)) (mem s) m" for m
    using assms that dentry_list_cong [of "s'\<lparr>mem := m\<rparr>" "s\<lparr>mem := m\<rparr>"] file_bytes_cong [of "s'\<lparr>mem := m\<rparr>" "s\<lparr>mem := m\<rparr>" inode]
    by (simp add: off_screen_def shown_def process_frameD(2))
  have c: "confined (video_mem s (get_tty s)) (mem s) (mem s')" using assms(2) by (simp add: shown_def)
  show d: "dentry_list s' = dentry_list s" and f: "file_bytes s' inode = file_bytes s inode" using * [OF c] by simp_all
  have "video_mem s' = video_mem s" "get_tty s' = get_tty s" using assms(2) process_frameD(3,6) by (auto simp: shown_def)
  then show "off_screen s' inode" using * confined_trans [OF c] unfolding off_screen_def d f by simp
qed

end
