(* ===== verification/User_Programs.thy ===== *)
theory User_Programs
  imports User_Lib
begin

text \<open>
  The user programs of \<^verbatim>\<open>syscalls/\<close>: \<^verbatim>\<open>ece391cat.c\<close>, \<^verbatim>\<open>ece391ls.c\<close>, \<^verbatim>\<open>ece391grep.c\<close>, \<^verbatim>\<open>ece391hello.c\<close>,
  \<^verbatim>\<open>ece391counter.c\<close>, \<^verbatim>\<open>ece391shell.c\<close>, \<^verbatim>\<open>ece391testprint.c\<close>, \<^verbatim>\<open>ece391pingpong.c\<close>. Each \<open>_main\<close> maps the kernel state
  at the program's start to the value \<^verbatim>\<open>main\<close> returns and the state then.
\<close>

section \<open>cat\<close>

partial_function (option) cat_loop :: "environment \<Rightarrow> int \<Rightarrow> u8 list \<Rightarrow> kernel \<Rightarrow> (int \<times> kernel) option" where
  "cat_loop env fd buf s =
     do { (cnt, buf, s) \<leftarrow> ece391_read env fd buf 0 1024 s;
          if 0 \<noteq> cnt
          then if -1 = cnt then do { s \<leftarrow> ece391_fdputs env 1 (litn ''file read failed'') s; Some (3, s) }
               else do { (ret, s) \<leftarrow> ece391_write env 1 (arr_ptr buf) (word_of_int cnt) s;
                         if -1 = ret then Some (3, s) else cat_loop env fd buf s }
          else Some (0, s) }"

definition cat_main :: "environment \<Rightarrow> (nat \<Rightarrow> u8) \<Rightarrow> kernel \<Rightarrow> (int \<times> kernel) option" where
  "cat_main env junk s =
     do { let buf = local_array 1024 junk;
          (ret, buf, s) \<leftarrow> ece391_getargs buf 1024 s;
          if 0 \<noteq> ret then do { s \<leftarrow> ece391_fdputs env 1 (litn ''could not read arguments'') s; Some (3, s) }
          else do { (fd, s) \<leftarrow> ece391_open env (arr_ptr buf) s;
                    if -1 = fd then do { s \<leftarrow> ece391_fdputs env 1 (litn ''file not found'') s; Some (2, s) }
                    else cat_loop env fd buf s } }"

section \<open>ls\<close>

partial_function (option) ls_loop :: "environment \<Rightarrow> int \<Rightarrow> u8 list \<Rightarrow> kernel \<Rightarrow> (int \<times> kernel) option" where
  "ls_loop env fd buf s =
     do { (cnt, buf, s) \<leftarrow> ece391_read env fd buf 0 32 s;
          if 0 \<noteq> cnt
          then if -1 = cnt then do { s \<leftarrow> ece391_fdputs env 1 (litn ''directory entry read failed'') s; Some (3, s) }
               else do { buf \<leftarrow> aset buf (nat cnt) 0x0A;
                         (ret, s) \<leftarrow> ece391_write env 1 (arr_ptr buf) (word_of_int (cnt + 1)) s;
                         if -1 = ret then Some (3, s) else ls_loop env fd buf s }
          else Some (0, s) }"

definition ls_main :: "environment \<Rightarrow> (nat \<Rightarrow> u8) \<Rightarrow> kernel \<Rightarrow> (int \<times> kernel) option" where
  "ls_main env junk s =
     do { (fd, s) \<leftarrow> ece391_open env (lit ''.'') s;
          if -1 = fd then do { s \<leftarrow> ece391_fdputs env 1 (litn ''directory open failed'') s; Some (2, s) }
          else ls_loop env fd (local_array 33 junk) s }"

section \<open>grep\<close>

function find_line_end :: "u8 list \<Rightarrow> nat \<Rightarrow> nat \<Rightarrow> nat option" where
  "find_line_end data line_end lst =
     (if line_end < lst
      then do { c \<leftarrow> aget data line_end;
                if 0x0A \<noteq> c then find_line_end data (Suc line_end) lst else Some line_end }
      else Some line_end)"
  by pat_completeness auto
termination
  by (relation "measure (\<lambda>(data, line_end, lst). lst - line_end)") auto

declare find_line_end.simps [simp del]

text \<open>
  The search of one line. The string \<open>str\<close> is of signed characters and the data of unsigned ones, which
  the comparison of the first character promotes to integers.
\<close>

function search_line ::
  "environment \<Rightarrow> rptr \<Rightarrow> u32 \<Rightarrow> rptr \<Rightarrow> u8 list \<Rightarrow> nat \<Rightarrow> nat \<Rightarrow> nat \<Rightarrow> kernel \<Rightarrow> kernel option" where
  "search_line env str s_len fname data line_start check line_end s =
     (if check < line_end
      then do { c \<leftarrow> str 0; d \<leftarrow> aget data check;
                found \<leftarrow> (if sint c = uint d then map_option (\<lambda>r. 0 = r) (ece391_strncmp (arr_ptr (drop check data)) str s_len)
                         else Some False);
                if found
                then do { s \<leftarrow> ece391_fdputs env 1 fname s;
                          s \<leftarrow> ece391_fdputs env 1 (lit '':'') s;
                          s \<leftarrow> ece391_fdputs env 1 (arr_ptr (drop line_start data)) s;
                          ece391_fdputs env 1 (litn '''') s }
                else search_line env str s_len fname data line_start (Suc check) line_end s }
      else Some s)"
  by pat_completeness auto
termination
  by (relation "measure (\<lambda>(env, str, s_len, fname, data, line_start, check, line_end, s). line_end - check)") auto

declare search_line.simps [simp del]

text \<open>The lines held in \<open>data\<close>; the result is the array and \<^verbatim>\<open>last\<close> for the next read.\<close>

partial_function (option) lines_loop ::
  "environment \<Rightarrow> rptr \<Rightarrow> u32 \<Rightarrow> rptr \<Rightarrow> int \<Rightarrow> u8 list \<Rightarrow> nat \<Rightarrow> nat \<Rightarrow> kernel \<Rightarrow> (u8 list \<times> nat \<times> kernel) option" where
  "lines_loop env str s_len fname cnt data lst line_start s =
     do { line_end \<leftarrow> find_line_end data line_start lst;
          c \<leftarrow> aget data line_end;
          data \<leftarrow> aset data line_end 0;
          if 0x0A \<noteq> c \<and> 0 \<noteq> cnt \<and> line_start \<noteq> 0
          then do { data \<leftarrow> ece391_strcpy data 0 line_start; Some (data, lst - line_start, s) }
          else do { s \<leftarrow> search_line env str s_len fname data line_start line_start line_end s;
                    let line_start = line_end + 1;
                    if line_start \<ge> lst then Some (data, 0, s)
                    else lines_loop env str s_len fname cnt data lst line_start s } }"

partial_function (option) file_loop ::
  "environment \<Rightarrow> rptr \<Rightarrow> u32 \<Rightarrow> rptr \<Rightarrow> int \<Rightarrow> u8 list \<Rightarrow> nat \<Rightarrow> kernel \<Rightarrow> (int \<times> kernel) option" where
  "file_loop env str s_len fname fd data lst s =
     do { (cnt, data, s) \<leftarrow> ece391_read env fd data lst (1024 - of_nat lst) s;
          if -1 = cnt then do { s \<leftarrow> ece391_fdputs env 1 (litn ''file read failed'') s; Some (-1, s) }
          else do { (data, lst, s) \<leftarrow> lines_loop env str s_len fname cnt data (lst + nat cnt) 0 s;
                    if 0 = cnt
                    then do { (ret, s) \<leftarrow> ece391_close fd s;
                              if -1 = ret then do { s \<leftarrow> ece391_fdputs env 1 (litn ''file close failed'') s; Some (-1, s) }
                              else Some (0, s) }
                    else file_loop env str s_len fname fd data lst s } }"

definition do_one_file :: "environment \<Rightarrow> (nat \<Rightarrow> u8) \<Rightarrow> rptr \<Rightarrow> rptr \<Rightarrow> kernel \<Rightarrow> (int \<times> kernel) option" where
  "do_one_file env junk str fname s =
     do { s_len \<leftarrow> ece391_strlen str;
          (fd, s) \<leftarrow> ece391_open env fname s;
          if -1 = fd then do { s \<leftarrow> ece391_fdputs env 1 (litn ''file open failed'') s; Some (-1, s) }
          else file_loop env str s_len fname fd (local_array 1025 junk) 0 s }"

partial_function (option) grep_loop ::
  "environment \<Rightarrow> (nat \<Rightarrow> u8) \<Rightarrow> u8 list \<Rightarrow> int \<Rightarrow> u8 list \<Rightarrow> kernel \<Rightarrow> (int \<times> kernel) option" where
  "grep_loop env junk search fd buf s =
     do { (cnt, buf, s) \<leftarrow> ece391_read env fd buf 0 32 s;
          if 0 \<noteq> cnt
          then if -1 = cnt then do { s \<leftarrow> ece391_fdputs env 1 (litn ''directory entry read failed'') s; Some (3, s) }
               else do { c \<leftarrow> aget buf 0;
                         if 0x2E = c then grep_loop env junk search fd buf s
                         else do { buf \<leftarrow> aset buf (nat cnt) 0;
                                   (ret, s) \<leftarrow> do_one_file env junk (arr_ptr search) (arr_ptr buf) s;
                                   if 0 \<noteq> ret then Some (3, s) else grep_loop env junk search fd buf s } }
          else Some (0, s) }"

definition grep_main :: "environment \<Rightarrow> (nat \<Rightarrow> u8) \<Rightarrow> kernel \<Rightarrow> (int \<times> kernel) option" where
  "grep_main env junk s =
     do { (ret, search, s) \<leftarrow> ece391_getargs (local_array 1024 junk) 1024 s;
          if 0 \<noteq> ret then do { s \<leftarrow> ece391_fdputs env 1 (litn ''could not read argument'') s; Some (3, s) }
          else do { (fd, s) \<leftarrow> ece391_open env (lit ''.'') s;
                    if -1 = fd then do { s \<leftarrow> ece391_fdputs env 1 (litn ''directory open failed'') s; Some (2, s) }
                    else grep_loop env junk search fd (local_array 33 junk) s } }"

section \<open>hello, counter, testprint\<close>

definition hello_main :: "environment \<Rightarrow> (nat \<Rightarrow> u8) \<Rightarrow> kernel \<Rightarrow> (int \<times> kernel) option" where
  "hello_main env junk s =
     do { s \<leftarrow> ece391_fdputs env 1 (lit ''Hi, what's your name? '') s;
          (cnt, buf, s) \<leftarrow> ece391_read env 0 (local_array 1024 junk) 0 1023 s;
          if -1 = cnt then do { s \<leftarrow> ece391_fdputs env 1 (litn ''Can't read name from keyboard.'') s; Some (3, s) }
          else do { buf \<leftarrow> aset buf (nat cnt) 0;
                    s \<leftarrow> ece391_fdputs env 1 (lit ''Hello, '') s;
                    s \<leftarrow> ece391_fdputs env 1 (arr_ptr buf) s;
                    Some (0, s) } }"

function counter_loop :: "environment \<Rightarrow> u32 \<Rightarrow> u8 list \<Rightarrow> u32 \<Rightarrow> kernel \<Rightarrow> kernel option" where
  "counter_loop env mx buf i s =
     (if i < mx
      then do { buf \<leftarrow> ece391_itoa (i + 1) buf 10;
                s \<leftarrow> ece391_fdputs env 1 (arr_ptr buf) s;
                s \<leftarrow> ece391_fdputs env 1 (litn '''') s;
                counter_loop env mx buf (i + 1) s }
      else Some s)"
  by pat_completeness auto
termination
  by (relation "measure (\<lambda>(env, mx, buf, i, s). unat mx - unat i)")
     (auto simp: unat_Suc_u32 word_less_nat_alt)

declare counter_loop.simps [simp del]

definition counter_max :: "u8 \<Rightarrow> u32" where
  "counter_max c = (if c = 0x30 then 100 else if c = 0x31 then 10000 else if c = 0x32 then 100000 else 0)"

definition counter_main :: "environment \<Rightarrow> (nat \<Rightarrow> u8) \<Rightarrow> kernel \<Rightarrow> (int \<times> kernel) option" where
  "counter_main env junk s =
     do { s \<leftarrow> ece391_fdputs env 1 (litn ''Enter the Test Number: (0): 100, (1): 10000, (2): 100000'') s;
          (cnt, buf, s) \<leftarrow> ece391_read env 0 (local_array 1024 junk) 0 1023 s;
          if -1 = cnt then do { s \<leftarrow> ece391_fdputs env 1 (litn ''Can't read the number from keyboard.'') s; Some (3, s) }
          else do { buf \<leftarrow> aset buf (nat cnt) 0;
                    n \<leftarrow> ece391_strlen (arr_ptr buf);
                    c \<leftarrow> aget buf 0;
                    if n > 2 \<or> n = 2 \<and> (c < 0x30 \<or> c > 0x32)
                    then do { s \<leftarrow> ece391_fdputs env 1 (litn ''Wrong Choice!'') s; Some (0, s) }
                    else do { s \<leftarrow> counter_loop env (counter_max c) buf 0 s; Some (0, s) } } }"

definition testprint_main :: "environment \<Rightarrow> kernel \<Rightarrow> (int \<times> kernel) option" where
  "testprint_main env s =
     do { s \<leftarrow> ece391_fdputs env 1 (litn ''Hello, if this ran, the program was correct. Yay!'') s; Some (0, s) }"

section \<open>shell\<close>

text \<open>
  Round \<open>r\<close> of the shell's loop reads a line under the interrupts of \<open>envs r\<close> and runs the program it
  executes as \<open>children r\<close>.
\<close>

partial_function (option) shell_loop ::
  "(nat \<Rightarrow> environment) \<Rightarrow> (nat \<Rightarrow> stack_frame) \<Rightarrow> (nat \<Rightarrow> user_run) \<Rightarrow> nat \<Rightarrow> u8 list \<Rightarrow> kernel \<Rightarrow> (int \<times> kernel) option" where
  "shell_loop envs frames children r buf s =
     do { let env = envs r;
          s \<leftarrow> ece391_fdputs env 1 (lit ''391OS> '') s;
          (cnt, buf, s) \<leftarrow> ece391_read env 0 buf 0 1023 s;
          if -1 = cnt then do { s \<leftarrow> ece391_fdputs env 1 (litn ''read from keyboard failed'') s; Some (3, s) }
          else do {
            cnt \<leftarrow> (if cnt > 0 then do { c \<leftarrow> aget buf (nat (cnt - 1)); Some (if 0x0A = c then cnt - 1 else cnt) }
                   else Some cnt);
            buf \<leftarrow> aset buf (nat cnt) 0;
            e \<leftarrow> ece391_strcmp (arr_ptr buf) (lit ''exit'');
            if 0 = e then Some (0, s)
            else do {
              c \<leftarrow> aget buf 0;
              if 0 = c then shell_loop envs frames children (Suc r) buf s
              else do {
                (rval, s) \<leftarrow> ece391_execute (frames r) (children r) (arr_ptr buf) s;
                s \<leftarrow> (if -1 = rval then ece391_fdputs env 1 (litn ''no such command'') s
                     else if 256 = rval then ece391_fdputs env 1 (litn ''program terminated by exception'') s
                     else if 0 \<noteq> rval then ece391_fdputs env 1 (litn ''program terminated abnormally'') s
                     else Some s);
                shell_loop envs frames children (Suc r) buf s } } } }"

definition shell_main ::
  "(nat \<Rightarrow> environment) \<Rightarrow> (nat \<Rightarrow> stack_frame) \<Rightarrow> (nat \<Rightarrow> user_run) \<Rightarrow> (nat \<Rightarrow> u8) \<Rightarrow> kernel \<Rightarrow> (int \<times> kernel) option" where
  "shell_main envs frames children junk s =
     do { s \<leftarrow> ece391_fdputs (envs 0) 1 (litn ''Starting 391 Shell'') s;
          shell_loop envs frames children 0 (local_array 1024 junk) s }"

section \<open>pingpong\<close>

text \<open>One frame of the animation: the character at column \<open>j\<close>, then a wait for the clock.\<close>

definition pingpong_frame :: "environment \<Rightarrow> int \<Rightarrow> u8 \<Rightarrow> nat \<Rightarrow> u8 list \<times> kernel \<Rightarrow> (u8 list \<times> kernel) option" where
  "pingpong_frame env rtc_fd curchar j bs =
     do { let (buf, s) = bs;
          let buf = fold (\<lambda>i b. b[i := 0x20]) [2..<78] buf;
          let buf = buf[j := curchar];
          s \<leftarrow> ece391_fdputs env 1 (arr_ptr buf) s;
          (ret, garbage, s) \<leftarrow> ece391_read env rtc_fd [0, 0, 0, 0] 0 4 s;
          Some (buf, s) }"

fun pingpong_frames :: "(nat \<Rightarrow> environment) \<Rightarrow> int \<Rightarrow> u8 \<Rightarrow> nat list \<Rightarrow> u8 list \<times> kernel \<Rightarrow> (u8 list \<times> kernel) option" where
  "pingpong_frames envs rtc_fd curchar [] bs = Some bs"
| "pingpong_frames envs rtc_fd curchar (j # js) bs =
     do { bs \<leftarrow> pingpong_frame (envs j) rtc_fd curchar j bs; pingpong_frames envs rtc_fd curchar js bs }"

text \<open>
  The loop never ends: \<open>pingpong_rounds n\<close> is its first \<open>n\<close> rounds, out and back, with \<open>envs r d j\<close> what
  happens during the wait of frame \<open>j\<close> in round \<open>r\<close> and direction \<open>d\<close>.
\<close>

fun pingpong_rounds ::
  "(nat \<Rightarrow> bool \<Rightarrow> nat \<Rightarrow> environment) \<Rightarrow> int \<Rightarrow> u8 \<Rightarrow> nat \<Rightarrow> nat \<Rightarrow> u8 list \<times> kernel \<Rightarrow> (u8 list \<times> kernel) option" where
  "pingpong_rounds envs rtc_fd curchar r 0 bs = Some bs"
| "pingpong_rounds envs rtc_fd curchar r (Suc n) bs =
     do { bs \<leftarrow> pingpong_frames (envs r False) rtc_fd curchar [2..<78] bs;
          bs \<leftarrow> pingpong_frames (envs r True) rtc_fd curchar (rev [2..<78]) bs;
          pingpong_rounds envs rtc_fd (if curchar = 0x5A then 0x41 else curchar + 1) (Suc r) n bs }"

definition pingpong_main ::
  "environment \<Rightarrow> (nat \<Rightarrow> bool \<Rightarrow> nat \<Rightarrow> environment) \<Rightarrow> (nat \<Rightarrow> u8) \<Rightarrow> nat \<Rightarrow> kernel \<Rightarrow> (u8 list \<times> kernel) option" where
  "pingpong_main env envs junk n s =
     do { let buf = fold (\<lambda>i b. b[i := 0x20]) [0..<81] (local_array 81 junk);
          let buf = buf[80 := 0, 79 := 0x0A, 78 := 0x7C, 1 := 0x7C];
          (rtc_fd, s) \<leftarrow> ece391_open env (lit ''rtc'') s;
          (ret_val, s) \<leftarrow> ece391_write env rtc_fd (arr_ptr [32, 0, 0, 0]) 4 s;
          pingpong_rounds envs rtc_fd 0x41 0 n (buf, s) }"

section \<open>cat prints the file\<close>

lemma read_open_file:
  fixes s :: kernel and fd :: nat and n :: u32
  assumes "stdout_ok s" "2 \<le> fd" "fd < 8" "k + unat n \<le> length buf"
    and "flags (fd_entry (cur_pcb s) fd) = IN_USE" "operations_pointer (fd_entry (cur_pcb s) fd) = file_table"
  defines "bs \<equiv> take (unat n) (file_rest fd s)"
  shows "\<exists>s'. ece391_read env (int fd) buf k n s = Some (int (length bs), take k buf @ bs @ drop (k + length bs) buf, s') \<and>
    shown [] s s' \<and> file_rest fd s' = drop (unat n) (file_rest fd s) \<and>
    flags (fd_entry (cur_pcb s') fd) = IN_USE \<and> operations_pointer (fd_entry (cur_pcb s') fd) = file_table \<and>
    inode_index (fd_entry (cur_pcb s') fd) = inode_index (fd_entry (cur_pcb s) fd)"
proof -
  define s' where "s' = snd (snd (read_file fd USER_BUF n s))"
  have b: "fst (snd (read_file fd USER_BUF n s)) = bs" by (simp add: read_file_bytes bs_def)
  have r: "file_rest fd s' = drop (unat n) (file_rest fd s)" unfolding s'_def by (simp add: read_file_rest)
  have c: "fst (read_file fd USER_BUF n s) = int (length bs)" using b by (simp add: read_file_def Let_def)
  have e: "s' = set_fd fd ((fd_entry (cur_pcb s) fd)\<lparr>file_position := file_position (fd_entry (cur_pcb s) fd) + of_nat (length bs)\<rparr>) s"
    unfolding s'_def using b by (simp add: read_file_def Let_def)
  have "read_call env (int fd) USER_BUF n s = Some (int (length bs), bs, s')"
    using read_call_file [of "int fd" s env USER_BUF n] assms(1-6) b c by (simp add: s'_def prod_eq_iff)
  moreover have "shown [] s s'"
    unfolding e using assms(1-6) by (intro shown_set_fd) (auto simp: entry_ok_def)
  moreover have "k + length bs \<le> length buf" using assms(4) by (simp add: bs_def)
  ultimately show ?thesis using assms(5,6) r by (simp add: ece391_read_def astore_at_Some e)
qed

lemma cat_loop_shows:
  assumes "stdout_ok s" "2 \<le> fd" "fd < 8" "length buf = 1024"
    and "flags (fd_entry (cur_pcb s) fd) = IN_USE" "operations_pointer (fd_entry (cur_pcb s) fd) = file_table"
    and "off_screen s (inode_index (fd_entry (cur_pcb s) fd))" "0x0D \<notin> set (file_rest fd s)"
  shows "\<exists>s'. cat_loop env (int fd) buf s = Some (0, s') \<and> shown (file_rest fd s) s s'"
  using assms
proof (induction "length (file_rest fd s)" arbitrary: s buf rule: less_induct)
  case less
  let ?bs = "take 1024 (file_rest fd s)"
  define buf' where "buf' = drop (length ?bs) buf"
  have "0 + unat (1024 :: u32) \<le> length buf" using less.prems(4) by simp
  then obtain s1 where
    rd: "ece391_read env (int fd) buf 0 1024 s = Some (int (length ?bs), ?bs @ buf', s1)"
    and s1: "length (?bs @ buf') = 1024" "shown [] s s1" "file_rest fd s1 = drop 1024 (file_rest fd s)"
      "flags (fd_entry (cur_pcb s1) fd) = IN_USE" "operations_pointer (fd_entry (cur_pcb s1) fd) = file_table"
      "inode_index (fd_entry (cur_pcb s1) fd) = inode_index (fd_entry (cur_pcb s) fd)"
    using read_open_file [OF less.prems(1-3) _ less.prems(5,6), where env = env] less.prems(4) unfolding buf'_def by fastforce
  show ?case
  proof (cases "file_rest fd s = []")
    case True
    then show ?thesis using rd s1(2) by (subst cat_loop.simps) simp
  next
    case False
    let ?inode = "inode_index (fd_entry (cur_pcb s) fd)"
    have cr: "0x0D \<notin> set ?bs" using less.prems(8) by (meson in_set_takeD)
    have lb: "length ?bs < 2147483648" "\<And>k. k < length ?bs \<Longrightarrow> arr_ptr (?bs @ buf') (of_nat k) = Some (?bs ! k)"
      by (simp_all add: arr_ptr_prefix)
    obtain s2 where wr: "ece391_write env 1 (arr_ptr (?bs @ buf')) (of_nat (length ?bs)) s1 = Some (int (length ?bs), s2)"
      and s2: "shown ?bs s1 s2" "cur_pcb s2 = cur_pcb s1"
      using write_shows [OF shown_stdout_ok [OF s1(2)] lb(2) lb(1) cr, of env] by blast
    have os1: "off_screen s1 ?inode" by (rule off_screen_shown(1) [OF less.prems(7) s1(2)])
    have os2: "off_screen s2 ?inode" "file_bytes s2 ?inode = file_bytes s1 ?inode"
      by (rule off_screen_shown [OF os1 s2(1)])+
    have r2: "file_rest fd s2 = drop 1024 (file_rest fd s)"
      using s1(3,6) os2(2) by (simp add: file_rest_def s2(2) Let_def)
    have "0 < length (file_rest fd s)" using False by simp
    then have "length (file_rest fd s2) < length (file_rest fd s)" unfolding r2 by simp
    then have "\<exists>s'. cat_loop env (int fd) (?bs @ buf') s2 = Some (0, s') \<and> shown (file_rest fd s2) s2 s'"
    proof (rule less.hyps)
      show "0x0D \<notin> set (file_rest fd s2)" unfolding r2 using less.prems(8) by (meson in_set_dropD)
    qed (use less.prems(2,3) s1 s2 os2 shown_stdout_ok in auto)
    then obtain s' where loop: "cat_loop env (int fd) (?bs @ buf') s2 = Some (0, s')" and sh: "shown (file_rest fd s2) s2 s'"
      by blast
    have "shown (?bs @ file_rest fd s2) s s'"
      using shown_trans [OF shown_trans [OF s1(2) s2(1)] sh] by simp
    moreover have "cat_loop env (int fd) buf s = Some (0, s')"
      using rd wr loop False by (subst cat_loop.simps) simp
    ultimately show ?thesis by (auto simp: r2)
  qed
qed

text \<open>The arguments as \<^verbatim>\<open>getargs\<close> leaves them in an array of 1024 bytes.\<close>

lemma getargs_local:
  assumes "stdout_ok s" "cstr (arr_ptr (args (cur_pcb s))) ar" "ar \<noteq> []" "length ar < 128" "length buf = 1024"
  shows "\<exists>buf' s'. ece391_getargs buf 1024 s = Some (0, buf', s') \<and> length buf' = 1024 \<and> cstr (arr_ptr buf') ar \<and>
    shown [] s s' \<and> fd_entry (cur_pcb s') = fd_entry (cur_pcb s)"
proof -
  let ?s = "set_cur_pcb ((cur_pcb s)\<lparr>args := (args (cur_pcb s))[0 := 0]\<rparr>) s"
  have ar: "length ar < 128" "0 \<notin> set ar" using assms(2,4) by (simp_all add: cstr_def)
  let ?b = "ar @ replicate (1024 - length ar) 0"
  have "getargs USER_BUF 1024 s = Some (0, ?b, ?s)"
    using getargs_spec(1) [OF assms(2,3), of USER_BUF 1024] ar by simp
  moreover have "cstr (arr_ptr ?b) ar"
  proof -
    have "1024 - length ar = Suc (1023 - length ar)" using ar(1) by simp
    then show ?thesis using cstr_arr_ptr [OF ar(2)] ar(1) by simp
  qed
  moreover have "shown [] s ?s" using assms(1) shown_pcb [where s = s and f = "fd_entry (cur_pcb s)" and a = "(args (cur_pcb s))[0 := 0]"] by (simp add: stdout_ok_def)
  ultimately show ?thesis using ar(1) assms(5) by (simp add: ece391_getargs_def astore_at_Some)
qed

lemma open_named:
  assumes "stdout_ok s" "cstr p xs" "take 5 xs \<noteq> cbytes ''stdin''" "take 6 xs \<noteq> cbytes ''stdout''"
    and "List.find (name_found xs) (dentry_list s) = Some d" "find_fd (cur_pcb s) [2..<8] = Some fd"
    and "table_of_type (file_type d) = Some tbl" "tbl \<noteq> rtc_table"
  shows "\<exists>s'. ece391_open env p s = Some (int fd, s') \<and> shown [] s s' \<and> fd_entry (cur_pcb s') fd = opened d tbl \<and> 2 \<le> fd \<and> fd < 8"
proof -
  have fd: "2 \<le> fd" "fd < 8" using find_fd_Some [OF assms(6)] by auto
  moreover have "ece391_open env p s = Some (int fd, set_fd fd (opened d tbl) s)"
    using assms by (simp add: ece391_open_def open_call_eq)
  moreover have "shown [] s (set_fd fd (opened d tbl) s)"
    using fd table_of_type_cases [OF assms(7)] by (intro shown_set_fd assms(1)) (auto simp: entry_ok_def opened_def)
  ultimately show ?thesis by simp
qed

lemma cat_main_shows:
  assumes ok: "stdout_ok s" and args: "cstr (arr_ptr (args (cur_pcb s))) name" "name \<noteq> []" "length name < 128"
    and name: "take 5 name \<noteq> cbytes ''stdin''" "take 6 name \<noteq> cbytes ''stdout''"
    and found: "List.find (name_found name) (dentry_list s) = Some d" "file_type d = 2"
    and fd: "find_fd (cur_pcb s) [2..<8] = Some fd"
    and img: "off_screen s (inode_number d)" "0x0D \<notin> set (file_bytes s (inode_number d))"
  shows "\<exists>s'. cat_main env junk s = Some (0, s') \<and> shown (file_bytes s (inode_number d)) s s'"
proof -
  obtain buf s1 where ga: "ece391_getargs (local_array 1024 junk) 1024 s = Some (0, buf, s1)"
    and s1: "length buf = 1024" "cstr (arr_ptr buf) name" "shown [] s s1" "fd_entry (cur_pcb s1) = fd_entry (cur_pcb s)"
    using getargs_local [OF ok args, of "local_array 1024 junk"] by auto
  note os1 = off_screen_shown [OF img(1) s1(3)]
  have fd1: "find_fd (cur_pcb s1) is = find_fd (cur_pcb s) is" for "is" by (induction "is") (simp_all add: s1(4))
  have tbl: "table_of_type (file_type d) = Some file_table" "file_table \<noteq> rtc_table"
    using found(2) by (simp_all add: table_of_type_def table_defs)
  obtain s2 where op: "ece391_open env (arr_ptr buf) s1 = Some (int fd, s2)"
    and s2: "shown [] s1 s2" "fd_entry (cur_pcb s2) fd = opened d file_table" "2 \<le> fd" "fd < 8"
    using open_named [OF shown_stdout_ok [OF s1(3)] s1(2) name found(1) [folded os1(2)] fd [folded fd1] tbl, of env] by auto
  note os2 = off_screen_shown [OF os1(1) s2(1)]
  have rest: "file_rest fd s2 = file_bytes s (inode_number d)"
    by (simp add: file_rest_def s2(2) opened_def os2(3) os1(3))
  have "\<exists>s'. cat_loop env (int fd) buf s2 = Some (0, s') \<and> shown (file_rest fd s2) s2 s'"
    by (rule cat_loop_shows) (use s1 s2 os2 img(2) shown_stdout_ok rest in \<open>auto simp: opened_def\<close>)
  then obtain s' where "cat_loop env (int fd) buf s2 = Some (0, s')" "shown (file_bytes s (inode_number d)) s2 s'"
    unfolding rest by blast
  then show ?thesis
    using ga op shown_trans [OF s1(3) shown_trans [OF s2(1)]] by (simp add: cat_main_def)
qed

section \<open>ls lists the directory\<close>

text \<open>The names up to the first entry without one, which a read of the directory cannot tell from its end.\<close>

definition listing :: "dentry_t list \<Rightarrow> u8 list" where
  "listing ds = concat (map (\<lambda>d. entry_name d @ [0x0A]) (takeWhile (\<lambda>d. entry_name d \<noteq> []) ds))"

lemma read_directory_end:
  "sint (file_position (fd_entry (cur_pcb s) fd)) = int i \<Longrightarrow> length (dentry_list s) \<le> i \<Longrightarrow>
   read_directory fd buf n s = (0, [], s)"
  by (simp add: read_directory_def dentry_list_def Let_def nat_le_iff)

lemma read_call_directory:
  assumes "2 \<le> fd" "fd < 8" "flags (fd_entry (cur_pcb s) fd) = IN_USE" "operations_pointer (fd_entry (cur_pcb s) fd) = directory_table"
  shows "read_call env (int fd) buf n s = Some (read_directory fd buf n s)"
  using assms by (simp add: read_call_def operation_def directory_table_def call_read_def Let_def)

lemma entry_name_length: "d \<in> set (dentry_list s) \<Longrightarrow> length (entry_name d) \<le> 32"
  using length_takeWhile_le [of "\<lambda>c. c \<noteq> 0" "file_name d"] by (auto simp: dentry_list_def entry_name_def copy_dentry_def)

lemma dentry_list_length: "length (dentry_list s) < 2147483648"
  using sint_lt [of "load32 (mem s) (fs_start s)"] by (simp add: dentry_list_def)

lemma directory_position: "i < 2147483648 \<Longrightarrow> sint (of_nat i :: u32) = int i"
  by (simp add: sint_small_u32 unat_of_nat_u32)

lemma ls_loop_shows:
  assumes "stdout_ok s" "2 \<le> fd" "fd < 8" "length buf = 33"
    and "flags (fd_entry (cur_pcb s) fd) = IN_USE" "operations_pointer (fd_entry (cur_pcb s) fd) = directory_table"
    and "file_position (fd_entry (cur_pcb s) fd) = of_nat i" "i \<le> length (dentry_list s)"
    and "off_screen s inode" "\<forall>d \<in> set (dentry_list s). 0x0D \<notin> set (entry_name d)"
  shows "\<exists>s'. ls_loop env (int fd) buf s = Some (0, s') \<and> shown (listing (drop i (dentry_list s))) s s'"
  using assms
proof (induction "length (dentry_list s) - i" arbitrary: s buf i)
  case 0
  have pos: "sint (file_position (fd_entry (cur_pcb s) fd)) = int i"
    using 0 dentry_list_length [of s] by (simp add: directory_position)
  have "ls_loop env (int fd) buf s = Some (0, s)"
    using read_call_directory [OF 0(3,4,6,7)] read_directory_end [OF pos] 0
    by (subst ls_loop.simps) (simp add: ece391_read_def astore_at_Some)
  then show ?case using 0 shown_refl by (simp add: listing_def)
next
  case (Suc n)
  have i: "i < length (dentry_list s)" using Suc.hyps(2) by simp
  define d where "d = dentry_list s ! i"
  have pos: "sint (file_position (fd_entry (cur_pcb s) fd)) = int i"
    using Suc.prems(7) i dentry_list_length [of s] by (simp add: directory_position)
  let ?s1 = "set_fd fd ((fd_entry (cur_pcb s) fd)\<lparr>file_position := of_nat (Suc i)\<rparr>) s"
  let ?buf = "entry_name d @ drop (length (entry_name d)) buf"
  have len: "length (entry_name d) \<le> 32" using entry_name_length [of d s] i by (simp add: d_def)
  have rd: "ece391_read env (int fd) buf 0 32 s = Some (int (length (entry_name d)), ?buf, ?s1)"
    using read_call_directory [OF Suc.prems(2,3,5,6)] read_directory_entry [OF pos i] Suc.prems(4) len
    by (simp add: ece391_read_def astore_at_Some d_def)
  have s1: "shown [] s ?s1" using Suc.prems by (intro shown_set_fd) (auto simp: entry_ok_def)
  have split: "drop i (dentry_list s) = d # drop (Suc i) (dentry_list s)" using i by (simp add: d_def Cons_nth_drop_Suc)
  show ?case
  proof (cases "entry_name d = []")
    case True
    then have "ls_loop env (int fd) buf s = Some (0, ?s1)" using rd by (subst ls_loop.simps) simp
    then show ?thesis using s1 True by (simp add: split listing_def)
  next
    case False
    let ?line = "entry_name d @ [0x0A]"
    let ?buf' = "?line @ drop (Suc (length (entry_name d))) buf"
    have st: "aset ?buf (length (entry_name d)) 0x0A = Some ?buf'"
      using len Suc.prems(4) by (simp add: Cons_nth_drop_Suc [symmetric])
    have cr: "0x0D \<notin> set ?line" using Suc.prems(10) i by (simp add: d_def)
    have lb: "length ?line < 2147483648" "\<And>k. k < length ?line \<Longrightarrow> arr_ptr ?buf' (of_nat k) = Some (?line ! k)"
      using len by (simp, intro arr_ptr_prefix, simp_all)
    obtain s2 where wr: "ece391_write env 1 (arr_ptr ?buf') (of_nat (length ?line)) ?s1 = Some (int (length ?line), s2)"
      and s2: "shown ?line ?s1 s2" "cur_pcb s2 = cur_pcb ?s1"
      using write_shows [OF shown_stdout_ok [OF s1] lb(2) lb(1) cr, of env] by blast
    note os1 = off_screen_shown [OF Suc.prems(9) s1]
    note os2 = off_screen_shown [OF os1(1) s2(1)]
    have dl: "dentry_list s2 = dentry_list s" using os1(2) os2(2) by simp
    have "\<exists>s'. ls_loop env (int fd) ?buf' s2 = Some (0, s') \<and> shown (listing (drop (Suc i) (dentry_list s2))) s2 s'"
      by (rule Suc.hyps(1)) (use Suc.hyps(2) Suc.prems s2 os2(1) shown_stdout_ok dl i len in auto)
    then obtain s' where loop: "ls_loop env (int fd) ?buf' s2 = Some (0, s')" and sh: "shown (listing (drop (Suc i) (dentry_list s))) s2 s'"
      unfolding dl by blast
    have "ls_loop env (int fd) buf s = Some (0, s')"
      using rd st wr loop False by (subst ls_loop.simps) (simp add: add.commute)
    moreover have "shown (listing (drop i (dentry_list s))) s s'"
      using shown_trans [OF shown_trans [OF s1 s2(1)] sh] False by (simp add: split listing_def)
    ultimately show ?thesis by blast
  qed
qed

lemma ls_main_shows:
  assumes ok: "stdout_ok s" and found: "List.find (name_found (cbytes ''.'')) (dentry_list s) = Some d" "file_type d = 1"
    and fd: "find_fd (cur_pcb s) [2..<8] = Some fd"
    and img: "off_screen s inode" "\<forall>d \<in> set (dentry_list s). 0x0D \<notin> set (entry_name d)"
  shows "\<exists>s'. ls_main env junk s = Some (0, s') \<and> shown (listing (dentry_list s)) s s'"
proof -
  have dot: "cstr (lit ''.'') (cbytes ''.'')" "take 5 (cbytes ''.'') \<noteq> cbytes ''stdin''" "take 6 (cbytes ''.'') \<noteq> cbytes ''stdout''"
    by (rule cstr_arr_ptr, simp_all add: cbytes_def)
  have tbl: "table_of_type (file_type d) = Some directory_table" "directory_table \<noteq> rtc_table"
    using found(2) by (simp_all add: table_of_type_def table_defs)
  obtain s1 where op: "ece391_open env (lit ''.'') s = Some (int fd, s1)"
    and s1: "shown [] s s1" "fd_entry (cur_pcb s1) fd = opened d directory_table" "2 \<le> fd" "fd < 8"
    using open_named [OF ok dot found(1) fd tbl, of env] by blast
  note os1 = off_screen_shown [OF img(1) s1(1)]
  have "\<exists>s'. ls_loop env (int fd) (local_array 33 junk) s1 = Some (0, s') \<and> shown (listing (drop 0 (dentry_list s1))) s1 s'"
    by (rule ls_loop_shows [where i = 0]) (use s1 os1 img(2) shown_stdout_ok in \<open>auto simp: opened_def\<close>)
  then obtain s' where "ls_loop env (int fd) (local_array 33 junk) s1 = Some (0, s')" "shown (listing (dentry_list s)) s1 s'"
    using os1(2) by auto
  then show ?thesis using op shown_trans [OF s1(1)] by (simp add: ls_main_def)
qed

end
