(* ===== verification/User_Run.thy ===== *)
theory User_Run
  imports User_Programs
begin

text \<open>
  User programs started from a shell: \<^verbatim>\<open>execute\<close> loads and enters the program, \<^verbatim>\<open>_start\<close> runs its
  \<^verbatim>\<open>main\<close> and halts with the result, and the shell resumes. The locale states what a program that
  only prints promises and derives from it the whole run; \<^verbatim>\<open>cat\<close>, \<^verbatim>\<open>ls\<close> and \<^verbatim>\<open>testprint\<close> keep the promise.
\<close>

section \<open>Where the file system lies\<close>

text \<open>
  The boot loader puts the file system image beside the kernel, in the 4 MB page at 0x400000. Neither
  the program pages nor the screens are in that page.
\<close>

definition in_kernel_page :: "kernel \<Rightarrow> u32 \<Rightarrow> bool" where
  "in_kernel_page s inode \<longleftrightarrow> (\<forall>m. (\<forall>a. drop_bit 22 a = 1 \<longrightarrow> m a = mem s a) \<longrightarrow>
     dentry_list (s\<lparr>mem := m\<rparr>) = dentry_list s \<and> file_bytes (s\<lparr>mem := m\<rparr>) inode = file_bytes s inode)"

lemma in_kernel_page_cong:
  assumes "in_kernel_page s inode" "fs_start s' = fs_start s" "\<And>a. drop_bit 22 a = 1 \<Longrightarrow> mem s' a = mem s a"
  shows "in_kernel_page s' inode" and "dentry_list s' = dentry_list s" and "file_bytes s' inode = file_bytes s inode"
proof -
  have *: "dentry_list (s'\<lparr>mem := m\<rparr>) = dentry_list s \<and> file_bytes (s'\<lparr>mem := m\<rparr>) inode = file_bytes s inode"
    if "\<forall>a. drop_bit 22 a = 1 \<longrightarrow> m a = mem s a" for m
    using assms(1,2) that dentry_list_cong [of "s'\<lparr>mem := m\<rparr>" "s\<lparr>mem := m\<rparr>"] file_bytes_cong [of "s'\<lparr>mem := m\<rparr>" "s\<lparr>mem := m\<rparr>" inode]
    by (simp add: in_kernel_page_def)
  show d: "dentry_list s' = dentry_list s" and f: "file_bytes s' inode = file_bytes s inode"
    using * [of "mem s'"] assms(3) by simp_all
  show "in_kernel_page s' inode" using * assms(3) unfolding in_kernel_page_def d f by simp
qed

lemma in_kernel_page_image:
  assumes "in_kernel_page s inode" "i < 6"
  shows "image_outside (int i) inode s"
proof -
  have "i = 0 \<or> i = 1 \<or> i = 2 \<or> i = 3 \<or> i = 4 \<or> i = 5" using assms(2) by auto
  then have "(word_of_int (2 + int i) :: u32) \<noteq> 1" by auto
  then show ?thesis using assms(1) unfolding image_outside_def in_kernel_page_def by metis
qed

lemma page_low:
  assumes "b \<in> {0xB8000, 0xB9000, 0xBA000, 0xBB000}" "uint (a - b) < 4096"
  shows "drop_bit 22 a = (0 :: u32)"
proof -
  have b: "page_base b" "uint b \<le> 0xBB000" using assms(1) by (auto simp: page_base_def)
  have a: "cell b (uint (a - b)) = a" by (simp add: cell_def)
  have "uint a = uint b + uint (a - b)" using uint_cell [OF b(1), of "uint (a - b)"] assms(2) by (simp add: a)
  then have "uint a < 4194304" using b(2) assms(2) by simp
  then have "unat a < 4194304" by (simp add: unat_less_uint)
  then have "unat (drop_bit 22 a) = 0" unfolding unat_drop_bit_eq by (simp add: drop_bit_eq_div)
  then show ?thesis by (simp add: unat_eq_zero)
qed

lemma backup_page: "t < 3 \<Longrightarrow> backup_mem_addr t \<in> {0xB9000, 0xBA000, 0xBB000}"
  by (auto simp: less_3 backup_mem_addr_def)

lemma screen_low:
  assumes "video_ok s" "t < 3" "uint (a - video_mem s t) < 4096"
  shows "drop_bit 22 a = 0"
proof (rule page_low [OF _ assms(3)])
  show "video_mem s t \<in> {0xB8000, 0xB9000, 0xBA000, 0xBB000}"
    using assms(1,2) backup_page [OF assms(2)] by (simp add: video_ok_def)
qed

lemma in_kernel_page_off_screen:
  assumes "in_kernel_page s inode" "video_ok s" "get_tty s < 3"
  shows "off_screen s inode"
proof -
  have "m a = mem s a" if "confined (video_mem s (get_tty s)) (mem s) m" "drop_bit 22 a = 1" for m a
    using that screen_low [OF assms(2,3), of a] by (auto simp: confined_def not_le [symmetric])
  then show ?thesis using assms(1) by (simp add: off_screen_def in_kernel_page_def)
qed

section \<open>A program that prints and exits\<close>

text \<open>The program \<open>main\<close> run from its entry until \<^verbatim>\<open>halt\<close> resumes the caller of \<^verbatim>\<open>execute\<close>.\<close>

definition user_child :: "stack_frame \<Rightarrow> (kernel \<Rightarrow> (int \<times> kernel) option) \<Rightarrow> user_run" where
  "user_child frame main ip sp s =
     do { (r, s) \<leftarrow> start_main frame main s;
          case r of Returned v \<Rightarrow> Some (v, s) | Entered ip sp \<Rightarrow> None }"

text \<open>A state in which the files of \<open>s\<close> are found unchanged and printing does not touch them.\<close>

definition same_files :: "kernel \<Rightarrow> kernel \<Rightarrow> bool" where
  "same_files s u \<longleftrightarrow> (\<forall>inode. in_kernel_page s inode \<longrightarrow>
     off_screen u inode \<and> dentry_list u = dentry_list s \<and> file_bytes u inode = file_bytes s inode)"

text \<open>A new process as \<^verbatim>\<open>execute\<close> leaves it.\<close>

lemma started_facts:
  fixes new_args :: "u8 list"
  assumes "video_ok s" "cursor_ok s (terminal_num s)" "i < 6" and m: "\<forall>a. drop_bit 22 a \<noteq> word_of_int (2 + int i) \<longrightarrow> m a = mem s a"
  defines "u \<equiv> started (cli s) i new_args m"
  shows "stdout_ok u" "get_tty u = terminal_num s" "t < 3 \<Longrightarrow> abs_screen u t = abs_screen s t"
    and "same_files s u"
    and "find_fd (cur_pcb u) [2..<8] = Some 2"
proof -
  have t3: "terminal_num s < 3" using assms(1) by (simp add: video_ok_def)
  have pcb: "cur_pcb u = started_pcb (cli s) i new_args" by (simp add: u_def started_def cur_pcb_def)
  show tty: "get_tty u = terminal_num s" using t3 by (auto simp: get_tty_def pcb started_pcb_def less_3)
  have fds: "fds_ok (cur_pcb u)" unfolding pcb by (rule new_fds_ok [of _ "pcbs s (int i)"]) (simp add: started_pcb_def)
  have vm: "video_mem u = video_mem s" "screen_x u = screen_x s" "screen_y u = screen_y s" "mem u = m" "fs_start u = fs_start s"
    by (simp_all add: u_def started_def cli_def)
  have vo: "video_ok u" using assms(1) by (simp add: video_ok_def u_def started_def cli_def)
  show ok: "stdout_ok u"
    using fds assms(2) t3 video_ok_pages [OF vo] by (simp add: stdout_ok_def tty cursor_ok_def vm)
  have i: "(word_of_int (2 + int i) :: u32) \<noteq> 1" "(word_of_int (2 + int i) :: u32) \<noteq> 0"
    using assms(3) word_of_int_inj_u32 [of "2 + int i" 1] word_of_int_inj_u32 [of "2 + int i" 0] by auto
  have low: "m a = mem s a" if "drop_bit 22 a = (1 :: u32) \<or> drop_bit 22 a = (0 :: u32)" for a using m i that by metis
  show "abs_screen u t = abs_screen s t" if t: "t < 3"
  proof -
    have "char_at u t x y = char_at s t x y" if "on_screen x y" for x y
    proof -
      have "uint (cell (video_mem s t) (2 * (80 * y + x)) - video_mem s t) < 4096"
        using that by (simp add: uint_cell_offset on_screen_def)
      then show ?thesis using low screen_low [OF assms(1) t] by (simp add: char_at_def vm)
    qed
    then show ?thesis by (simp add: abs_screen_def vm fun_eq_iff)
  qed
  show "same_files s u"
    using in_kernel_page_cong [of s _ u] in_kernel_page_off_screen [OF _ vo] vm low t3 tty by (auto simp: same_files_def)
  show "find_fd (cur_pcb u) [2..<8] = Some 2" by (simp add: pcb started_pcb_def new_fds_def free_entry_def upt_rec)
qed

text \<open>
  A shell \<open>q\<close> that can start a process \<open>i\<close>, and an executable file installed under the name \<open>word\<close>.
\<close>

definition shell_ready :: "kernel \<Rightarrow> int \<Rightarrow> nat \<Rightarrow> bool" where
  "shell_ready s q i \<longleftrightarrow> current_pid s = q \<and> 0 \<le> q \<and> q < 6 \<and> pid_flags s (nat q) \<noteq> 0 \<and> find_pid s [0..<6] = Some i \<and>
     length (args (pcbs s (int i))) = 128 \<and> video_ok s \<and> cursor_ok s (terminal_num s)"

definition installed :: "kernel \<Rightarrow> u8 list \<Rightarrow> dentry_t \<Rightarrow> bool" where
  "installed s word d \<longleftrightarrow> List.find (name_found word) (dentry_list s) = Some d \<and>
     take 4 (file_bytes s (inode_number d)) = magic_number \<and> 28 \<le> length (file_bytes s (inode_number d)) \<and>
     length (file_bytes s (inode_number d)) \<le> 0x3B8000 \<and> in_kernel_page s (inode_number d)"

lemma execute_installed:
  assumes sh: "shell_ready s q i" and d: "installed s word d" and frame: "frame_ok frame"
    and cmd: "cstr cmd (word @ replicate sp 0x20 @ ar)" "command_ok word sp ar"
  shows "\<exists>eip m new_args. execute frame (Some cmd) s = Some (Entered eip 0x083FFFFF, started (cli s) i new_args m) \<and>
    (\<forall>a. drop_bit 22 a \<noteq> word_of_int (2 + int i) \<longrightarrow> m a = mem s a) \<and> (ar \<noteq> [] \<longrightarrow> cstr (arr_ptr new_args) ar)"
proof -
  have i: "find_pid s [0..<6] = Some i" "i < 6" using sh find_pid_Some [of s "[0..<6]" i] by (auto simp: shell_ready_def)
  have img: "image_outside (int i) (inode_number d) s" using d i(2) by (auto simp: installed_def intro: in_kernel_page_image)
  show ?thesis
    using execute_starts [OF cmd frame _ _ i(1) img] d sh by (fastforce simp: installed_def shell_ready_def split: if_splits)
qed

text \<open>
  The promise: from a state that meets \<open>pre\<close> the program prints the text \<open>prints\<close> gives on its terminal and returns 0.
\<close>

locale printing_program =
  fixes main :: "kernel \<Rightarrow> (int \<times> kernel) option" and pre :: "kernel \<Rightarrow> bool" and prints :: "kernel \<Rightarrow> u8 list"
  assumes main_shows: "pre u \<Longrightarrow> \<exists>u'. main u = Some (0, u') \<and> shown (prints u) u u'"
begin

lemma run_from_shell:
  assumes sh: "shell_ready s q i" and d: "installed s word d" and frame: "frame_ok frame"
    and cmd: "cstr cmd (word @ replicate sp 0x20 @ ar)" "command_ok word sp ar"
    and pre: "\<And>u. stdout_ok u \<Longrightarrow> same_files s u \<Longrightarrow> find_fd (cur_pcb u) [2..<8] = Some 2 \<Longrightarrow>
      (ar \<noteq> [] \<Longrightarrow> cstr (arr_ptr (args (cur_pcb u))) ar) \<Longrightarrow> pre u \<and> prints u = msg"
  shows "\<exists>s'. ece391_execute frame (user_child frame' main) cmd s = Some (0, s') \<and>
    current_pid s' = q \<and> pid_flags s' = pid_flags s \<and>
    abs_screen s' (terminal_num s) = fold emit msg (abs_screen s (terminal_num s)) \<and>
    (\<forall>t < 3. t \<noteq> terminal_num s \<longrightarrow> abs_screen s' t = abs_screen s t)"
proof -
  obtain eip m new_args where ex: "execute frame (Some cmd) s = Some (Entered eip 0x083FFFFF, started (cli s) i new_args m)"
      "\<forall>a. drop_bit 22 a \<noteq> word_of_int (2 + int i) \<longrightarrow> m a = mem s a" "ar \<noteq> [] \<longrightarrow> cstr (arr_ptr new_args) ar"
    using execute_installed [OF sh d frame cmd] by blast
  have q: "current_pid s = q" "0 \<le> q" "q < 6" "pid_flags s (nat q) \<noteq> 0" "find_pid s [0..<6] = Some i"
      "video_ok s" "cursor_ok s (terminal_num s)" using sh by (simp_all add: shell_ready_def)
  let ?u = "started (cli s) i new_args m"
  have ip: "i < 6" "pid_flags s i = 0" using find_pid_Some [OF q(5)] by auto
  then have ne: "q \<noteq> int i" using q(2,4) by auto
  note u = started_facts [OF q(6,7) ip(1) ex(2), where new_args = new_args]
  have "args (cur_pcb ?u) = new_args" by (simp add: started_def cur_pcb_def started_pcb_def)
  then have "pre ?u \<and> prints ?u = msg" using pre [OF u(1,4,5)] ex(3) by simp
  then obtain u' where run: "main ?u = Some (0, u')" "shown msg ?u u'" using main_shows by blast
  have fr: "process_frame ?u u'" and ok': "stdout_ok u'" using run(2) by (simp_all add: shown_def)
  have cu: "current_pid u' = int i" "pid_flags u' = (pid_flags s)(i := 1)"
    using process_frameD [OF fr] by (simp_all add: started_def cli_def)
  have par: "parent_id (pcbs u' (int i)) = word_of_int q"
    using process_frameD(7) [OF fr] cu q(1) by (simp add: cur_pcb_def started_def started_pcb_def cli_def)
  have fds: "fds_ok (pcbs u' (int i))" using ok' cu by (simp add: stdout_ok_def cur_pcb_def)
  let ?s' = "halted u' (int i) q 0"
  have "halt frame' 0 u' = Some (Returned 0, ?s')"
    using halt_256_child [OF cu(1) _ _ par q(2,3) ne fds, of frame' 0] ip by (simp add: halt_def)
  then have "ece391_execute frame (user_child frame' main) cmd s = Some (0, ?s')"
    using run(1) by (simp add: ece391_execute_def ex(1) user_child_def start_main_def)
  moreover have "(pid_flags s)(i := 0) = pid_flags s" using ip(2) by auto
  then have "pid_flags ?s' = pid_flags s" "current_pid ?s' = q" by (simp_all add: halted_def cu)
  moreover have "abs_screen ?s' t = abs_screen u' t" for t by (simp add: halted_def abs_screen_def char_at_def cong: if_cong)
  ultimately show ?thesis using run(2) u(2,3) q(6) by (auto simp: shown_def video_ok_def)
qed

end

section \<open>cat, ls and testprint keep the promise\<close>

definition cat_ready :: "u8 list \<Rightarrow> dentry_t \<Rightarrow> kernel \<Rightarrow> bool" where
  "cat_ready name d u \<longleftrightarrow> stdout_ok u \<and> cstr (arr_ptr (args (cur_pcb u))) name \<and> name \<noteq> [] \<and> length name < 128 \<and>
     take 5 name \<noteq> cbytes ''stdin'' \<and> take 6 name \<noteq> cbytes ''stdout'' \<and>
     List.find (name_found name) (dentry_list u) = Some d \<and> file_type d = 2 \<and>
     find_fd (cur_pcb u) [2..<8] \<noteq> None \<and> off_screen u (inode_number d) \<and> 0x0D \<notin> set (file_bytes u (inode_number d))"

definition ls_ready :: "kernel \<Rightarrow> bool" where
  "ls_ready u \<longleftrightarrow> stdout_ok u \<and>
     (\<exists>d. List.find (name_found (cbytes ''.'')) (dentry_list u) = Some d \<and> file_type d = 1 \<and> off_screen u (inode_number d)) \<and>
     find_fd (cur_pcb u) [2..<8] \<noteq> None \<and> (\<forall>d \<in> set (dentry_list u). 0x0D \<notin> set (entry_name d))"

definition testprint_text :: "u8 list" where
  "testprint_text = cbytes ''Hello, if this ran, the program was correct. Yay!'' @ [0x0A]"

interpretation cat_program: printing_program "cat_main env junk" "cat_ready name d" "\<lambda>u. file_bytes u (inode_number d)"
  for env junk name d
proof unfold_locales
  fix u assume r: "cat_ready name d u"
  then obtain fd where "find_fd (cur_pcb u) [2..<8] = Some fd" unfolding cat_ready_def by blast
  then show "\<exists>u'. cat_main env junk u = Some (0, u') \<and> shown (file_bytes u (inode_number d)) u u'"
    using r cat_main_shows [of u name d fd env junk] unfolding cat_ready_def by blast
qed

interpretation ls_program: printing_program "ls_main env junk" ls_ready "\<lambda>u. listing (dentry_list u)"
  for env junk
proof unfold_locales
  fix u assume r: "ls_ready u"
  then obtain fd where "find_fd (cur_pcb u) [2..<8] = Some fd" unfolding ls_ready_def by blast
  then show "\<exists>u'. ls_main env junk u = Some (0, u') \<and> shown (listing (dentry_list u)) u u'"
    using r ls_main_shows [of u _ fd _ env junk] unfolding ls_ready_def by blast
qed

interpretation testprint_program: printing_program "testprint_main env" stdout_ok "\<lambda>u. testprint_text"
  for env
proof unfold_locales
  fix u assume ok: "stdout_ok u"
  have x: "0 \<notin> set testprint_text" "0x0D \<notin> set testprint_text" "length testprint_text < 2147483648"
    by (simp_all add: testprint_text_def cbytes_def)
  have c: "cstr (litn ''Hello, if this ran, the program was correct. Yay!'') testprint_text"
    using cstr_arr_ptr [OF x(1), of "[]"] x(3) by (simp add: testprint_text_def)
  show "\<exists>u'. testprint_main env u = Some (0, u') \<and> shown testprint_text u u'"
    using fdputs_shows [OF ok c x(3,2), of env] unfolding testprint_main_def by fastforce
qed

section \<open>Commands of the shell\<close>

lemma cat_from_shell:
  assumes sh: "shell_ready s q i" and cat: "installed s (cbytes ''cat'') p" and frame: "frame_ok frame"
    and cmd: "cstr cmd (cbytes ''cat'' @ replicate sp 0x20 @ name)" "command_ok (cbytes ''cat'') sp name" "name \<noteq> []"
    and name: "take 5 name \<noteq> cbytes ''stdin''" "take 6 name \<noteq> cbytes ''stdout''"
    and found: "List.find (name_found name) (dentry_list s) = Some d" "file_type d = 2"
    and img: "in_kernel_page s (inode_number d)" "0x0D \<notin> set (file_bytes s (inode_number d))"
  shows "\<exists>s'. ece391_execute frame (user_child frame' (cat_main env junk)) cmd s = Some (0, s') \<and>
    current_pid s' = q \<and> pid_flags s' = pid_flags s \<and>
    abs_screen s' (terminal_num s) = fold emit (file_bytes s (inode_number d)) (abs_screen s (terminal_num s)) \<and>
    (\<forall>t < 3. t \<noteq> terminal_num s \<longrightarrow> abs_screen s' t = abs_screen s t)"
proof (rule cat_program.run_from_shell [OF sh cat frame cmd(1,2)])
  fix u assume "stdout_ok u" "same_files s u" "find_fd (cur_pcb u) [2..<8] = Some 2"
    and "name \<noteq> [] \<Longrightarrow> cstr (arr_ptr (args (cur_pcb u))) name"
  then show "cat_ready name d u \<and> file_bytes u (inode_number d) = file_bytes s (inode_number d)"
    using cmd(2,3) name found img by (simp add: cat_ready_def command_ok_def same_files_def)
qed

lemma ls_from_shell:
  assumes sh: "shell_ready s q i" and ls: "installed s (cbytes ''ls'') p" and frame: "frame_ok frame"
    and cmd: "cstr cmd (cbytes ''ls'')"
    and found: "List.find (name_found (cbytes ''.'')) (dentry_list s) = Some d" "file_type d = 1"
    and img: "in_kernel_page s (inode_number d)" "\<forall>e \<in> set (dentry_list s). 0x0D \<notin> set (entry_name e)"
  shows "\<exists>s'. ece391_execute frame (user_child frame' (ls_main env junk)) cmd s = Some (0, s') \<and>
    current_pid s' = q \<and> pid_flags s' = pid_flags s \<and>
    abs_screen s' (terminal_num s) = fold emit (listing (dentry_list s)) (abs_screen s (terminal_num s)) \<and>
    (\<forall>t < 3. t \<noteq> terminal_num s \<longrightarrow> abs_screen s' t = abs_screen s t)"
proof (rule ls_program.run_from_shell [OF sh ls frame, where sp = 0 and ar = "[]"])
  show "cstr cmd (cbytes ''ls'' @ replicate 0 0x20 @ [])" "command_ok (cbytes ''ls'') 0 []"
    using cmd by (simp_all add: command_ok_def) (simp_all add: cbytes_def)
  fix u assume "stdout_ok u" "same_files s u" "find_fd (cur_pcb u) [2..<8] = Some 2"
  then show "ls_ready u \<and> listing (dentry_list u) = listing (dentry_list s)"
    using found img by (auto simp: ls_ready_def same_files_def)
qed

end
