(* ===== verification/Kernel_Inv.thy ===== *)
theory Kernel_Inv
  imports Idt User_Run
begin

text \<open>
  The invariant of the running kernel, over all its components: keyboard buffers, screens and cursors,
  page tables, the process table and the file system. The processes form one stack per terminal, the
  shell at the bottom and the process that runs on top. The lemmas show what each operation keeps of it
  and which 4 MB frames of physical memory it writes.
\<close>

section \<open>Frames of memory\<close>

text \<open>\<open>only_frames F s s'\<close>: memory outside the 4 MB frames \<open>F\<close> is the same.\<close>

definition only_frames :: "u32 set \<Rightarrow> kernel \<Rightarrow> kernel \<Rightarrow> bool" where
  "only_frames F s s' \<longleftrightarrow> (\<forall>a. drop_bit 22 a \<notin> F \<longrightarrow> mem s' a = mem s a)"

definition frame_of :: "int \<Rightarrow> u32" where
  "frame_of p = word_of_int (2 + p)"

lemma only_frames_refl: "mem s' = mem s \<Longrightarrow> only_frames F s s'"
  by (simp add: only_frames_def)

lemma only_frames_trans: "only_frames F s s' \<Longrightarrow> only_frames F s' s'' \<Longrightarrow> only_frames F s s''"
  by (simp add: only_frames_def)

lemma only_frames_mono: "only_frames F s s' \<Longrightarrow> F \<subseteq> G \<Longrightarrow> only_frames G s s'"
  by (auto simp: only_frames_def)

lemma only_frames_upd: "drop_bit 22 a \<in> F \<Longrightarrow> only_frames F s (s\<lparr>mem := (mem s)(a := b)\<rparr>)"
  by (auto simp: only_frames_def)

lemma frame_of_neq:
  assumes "0 \<le> p" "p < 6"
  shows "frame_of p \<noteq> 0" "frame_of p \<noteq> 1" "0 \<le> q \<Longrightarrow> q < 6 \<Longrightarrow> frame_of p = frame_of q \<longleftrightarrow> p = q"
  using assms word_of_int_inj_u32 [of "2 + p" 0] word_of_int_inj_u32 [of "2 + p" 1] word_of_int_inj_u32 [of "2 + p" "2 + q"]
  by (simp_all add: frame_of_def)

lemma confined_only_frames:
  assumes "video_ok s" "t < 3" "confined (video_mem s t) (mem s) (mem s')"
  shows "only_frames {0} s s'"
  using assms(3) screen_low [OF assms(1,2)] unfolding only_frames_def confined_def by (metis not_le singletonI)

section \<open>The invariant\<close>

definition display_ok :: "kernel \<Rightarrow> bool" where
  "display_ok s \<longleftrightarrow> video_ok s \<and> (\<forall>t < 3. cursor_ok s t)"

definition screens_ok :: "kernel \<Rightarrow> bool" where
  "screens_ok s \<longleftrightarrow> kbd_inv s \<and> display_ok s"

text \<open>The page tables as \<^verbatim>\<open>init_paging\<close> builds them, with the program page of the current process.\<close>

definition paged :: "kernel \<Rightarrow> bool" where
  "paged s \<longleftrightarrow> tables_aligned s \<and>
     (\<forall>i < 1024. PDT s i = (if i = 32 then prog_entry (current_pid s) else if i = 25 then PT1_addr s OR 0x7
        else if i = 0 then PT0_addr s OR 0x17 else if i = 1 then 0x400083 else 0)) \<and>
     (\<forall>i < 1024. PT0 s i = (if i = 184 then 0xB8117 else if i = 185 then 0xB9003 else if i = 186 then 0xBA003
        else if i = 187 then 0xBB003 else 0)) \<and>
     (\<forall>i < 1024. 3 \<le> i \<longrightarrow> PT1 s i = 0)"

text \<open>The stack the processor switches to when process \<open>p\<close> enters the kernel: from the last byte of the process's 8 KB block down.\<close>

definition kstack :: "int \<Rightarrow> u32" where
  "kstack p = (KERNEL_BOT_ADDR - word_of_int p * EIGHT_KB) - 1"

text \<open>
  The processes of terminal \<open>t\<close>: each was started by the next one and keeps its kernel stack for it, the last is the
  terminal's shell.
\<close>

fun chain :: "kernel \<Rightarrow> nat \<Rightarrow> int list \<Rightarrow> bool" where
  "chain s t [] = False"
| "chain s t (p # ps) = (0 \<le> p \<and> p < 6 \<and> pid_flags s (nat p) \<noteq> 0 \<and> tty (pcbs s p) = of_nat t \<and> fds_ok (pcbs s p) \<and>
     (if ps = [] then p = int t \<and> parent_id (pcbs s p) = of_nat t
      else parent_id (pcbs s p) = word_of_int (hd ps) \<and> parent_esp0 (pcbs s p) = kstack (hd ps) \<and> chain s t ps))"

definition all_tasks :: "(nat \<Rightarrow> int list) \<Rightarrow> int list" where
  "all_tasks st = st 0 @ st 1 @ st 2"

definition tasks :: "(nat \<Rightarrow> int list) \<Rightarrow> kernel \<Rightarrow> bool" where
  "tasks st s \<longleftrightarrow> (\<forall>t < 3. chain s t (st t) \<and> execute_pid s t = hd (st t)) \<and> distinct (all_tasks st) \<and>
     (\<forall>p < 6. pid_flags s p \<noteq> 0 \<longrightarrow> int p \<in> set (all_tasks st)) \<and> pit_terminal_num s < 3 \<and>
     current_pid s = execute_pid s (pit_terminal_num s) \<and> terminals_initialized s = 0 \<and>
     (\<forall>p. length (args (pcbs s p)) = 128) \<and> tss_esp0 s = kstack (current_pid s) \<and>
     (\<forall>t < 3. t \<noteq> pit_terminal_num s \<longrightarrow> sched_esp0 (pcbs s (hd (st t))) = kstack (hd (st t)))"

definition kernel_ok :: "dentry_t \<Rightarrow> (nat \<Rightarrow> int list) \<Rightarrow> kernel \<Rightarrow> bool" where
  "kernel_ok d st s \<longleftrightarrow> screens_ok s \<and> paged s \<and> tasks st s \<and> installed s (cbytes ''shell'') d"

text \<open>The stack ends with the block whose first bytes are the PCB.\<close>

lemma kstack_block:
  assumes "0 \<le> p" "p < 6"
  shows "unat (kstack p) = unat (pcb_addr p) + 0x1FFF" "0x400000 \<le> unat (pcb_addr p)" "unat (kstack p) < 0x800000"
proof -
  have v: "unat (pcb_addr p) = 0x800000 - (nat p + 1) * 0x2000" using assms by (intro pcb_addr_value) simp_all
  have "kstack p = pcb_addr p + 0x1FFF" by (simp add: kstack_def pcb_addr_def algebra_simps)
  then show "unat (kstack p) = unat (pcb_addr p) + 0x1FFF" using v by (simp add: unat_word_ariths)
  then show "0x400000 \<le> unat (pcb_addr p)" "unat (kstack p) < 0x800000" using v assms by simp_all
qed

text \<open>Blocks of two processes do not meet.\<close>

lemma kstack_disjoint:
  assumes "0 \<le> p" "p < 6" "0 \<le> q" "q < 6" "p \<noteq> q"
  shows "unat (kstack p) < unat (pcb_addr q) \<or> unat (kstack q) < unat (pcb_addr p)"
  using assms kstack_block(1) [of p] kstack_block(1) [of q] pcb_blocks_disjoint [of p q] pcb_blocks_disjoint [of q p] by fastforce

section \<open>Operations that leave the tasks alone\<close>

definition keeps_tasks :: "kernel \<Rightarrow> kernel \<Rightarrow> bool" where
  "keeps_tasks s s' \<longleftrightarrow> current_pid s' = current_pid s \<and> pid_flags s' = pid_flags s \<and> execute_pid s' = execute_pid s \<and>
     pit_terminal_num s' = pit_terminal_num s \<and> terminals_initialized s' = terminals_initialized s \<and> fs_start s' = fs_start s \<and>
     PDT s' = PDT s \<and> PT0 s' = PT0 s \<and> PT0_addr s' = PT0_addr s \<and> PT1_addr s' = PT1_addr s \<and> (\<forall>i \<ge> 3. PT1 s' i = PT1 s i) \<and>
     (\<forall>p. tty (pcbs s' p) = tty (pcbs s p) \<and> parent_id (pcbs s' p) = parent_id (pcbs s p) \<and>
        (fds_ok (pcbs s p) \<longrightarrow> fds_ok (pcbs s' p)) \<and> length (args (pcbs s' p)) = length (args (pcbs s p)) \<and>
        parent_esp0 (pcbs s' p) = parent_esp0 (pcbs s p) \<and> sched_esp0 (pcbs s' p) = sched_esp0 (pcbs s p)) \<and> tss_esp0 s' = tss_esp0 s"

lemma keeps_tasks_trans [trans]: "keeps_tasks s s' \<Longrightarrow> keeps_tasks s' s'' \<Longrightarrow> keeps_tasks s s''"
  by (simp add: keeps_tasks_def)

lemma keeps_tasks_refl [simp]: "keeps_tasks s s"
  by (simp add: keeps_tasks_def)

lemma keeps_tasks_screen: "screen_only s s' \<Longrightarrow> keeps_tasks s s'"
  by (auto simp: screen_only_def keeps_tasks_def)

text \<open>A process that is the same for its terminal.\<close>

definition same_task :: "kernel \<Rightarrow> kernel \<Rightarrow> int \<Rightarrow> bool" where
  "same_task s s' p \<longleftrightarrow> pid_flags s' (nat p) = pid_flags s (nat p) \<and> tty (pcbs s' p) = tty (pcbs s p) \<and>
     parent_id (pcbs s' p) = parent_id (pcbs s p) \<and> parent_esp0 (pcbs s' p) = parent_esp0 (pcbs s p) \<and>
     (fds_ok (pcbs s p) \<longrightarrow> fds_ok (pcbs s' p))"

lemma chain_cong:
  assumes "chain s t ps" "\<And>p. p \<in> set ps \<Longrightarrow> same_task s s' p"
  shows "chain s' t ps"
  using assms by (induction s t ps rule: chain.induct) (auto simp: same_task_def split: if_splits)

lemma keeps_tasksD:
  assumes "keeps_tasks s s'"
  shows "current_pid s' = current_pid s" "pid_flags s' = pid_flags s" "execute_pid s' = execute_pid s"
    "pit_terminal_num s' = pit_terminal_num s" "terminals_initialized s' = terminals_initialized s" "fs_start s' = fs_start s"
    "PDT s' = PDT s" "PT0 s' = PT0 s" "PT0_addr s' = PT0_addr s" "PT1_addr s' = PT1_addr s" "3 \<le> i \<Longrightarrow> PT1 s' i = PT1 s i"
    "tty (pcbs s' p) = tty (pcbs s p)" "parent_id (pcbs s' p) = parent_id (pcbs s p)"
    "length (args (pcbs s' p)) = length (args (pcbs s p))" "fds_ok (pcbs s p) \<Longrightarrow> fds_ok (pcbs s' p)"
    "tss_esp0 s' = tss_esp0 s" "parent_esp0 (pcbs s' p) = parent_esp0 (pcbs s p)" "sched_esp0 (pcbs s' p) = sched_esp0 (pcbs s p)"
  using assms unfolding keeps_tasks_def by blast+

lemma tasks_cong:
  assumes "tasks st s" "keeps_tasks s s'"
  shows "tasks st s'"
proof -
  note k = keeps_tasksD [OF assms(2)]
  have "chain s' t (st t)" if "t < 3" for t
  proof (rule chain_cong)
    show "chain s t (st t)" using assms(1) that unfolding tasks_def by blast
  qed (use k in \<open>simp add: same_task_def\<close>)
  then show ?thesis using assms(1) unfolding tasks_def k by blast
qed

lemma paged_cong: "paged s \<Longrightarrow> keeps_tasks s s' \<Longrightarrow> paged s'"
  by (simp add: paged_def keeps_tasksD tables_aligned_def)

lemma installed_cong:
  assumes "installed s w d" "fs_start s' = fs_start s" "only_frames F s s'" "1 \<notin> F"
  shows "installed s' w d"
proof -
  have "in_kernel_page s (inode_number d)" using assms(1) by (simp add: installed_def)
  then have "in_kernel_page s' (inode_number d)" "dentry_list s' = dentry_list s" "file_bytes s' (inode_number d) = file_bytes s (inode_number d)"
    using in_kernel_page_cong [of s "inode_number d" s'] assms(2-4) by (auto simp: only_frames_def)
  then show ?thesis using assms(1) by (simp add: installed_def)
qed

lemma kernel_ok_cong:
  assumes "kernel_ok d st s" "keeps_tasks s s'" "screens_ok s'" "only_frames F s s'" "1 \<notin> F"
  shows "kernel_ok d st s'"
  using assms tasks_cong paged_cong installed_cong [of s _ d s' F] by (auto simp: kernel_ok_def keeps_tasksD)

section \<open>Drawing on the screens\<close>

definition draws :: "kernel \<Rightarrow> kernel \<Rightarrow> bool" where
  "draws s s' \<longleftrightarrow> keeps_tasks s s' \<and> only_frames {0} s s' \<and> display_ok s'"

lemma draws_trans [trans]: "draws s s' \<Longrightarrow> draws s' s'' \<Longrightarrow> draws s s''"
  using keeps_tasks_trans only_frames_trans by (simp add: draws_def) blast

lemma display_ok_terminal: "display_ok s \<Longrightarrow> terminal_num s < 3"
  by (simp add: display_ok_def video_ok_def)

lemma draws_same:
  assumes "display_ok s" "keeps_tasks s s'" "mem s' = mem s" "screen_x s' = screen_x s" "screen_y s' = screen_y s"
    and "video_mem s' = video_mem s" "terminal_num s' = terminal_num s" "PT1 s' = PT1 s"
  shows "draws s s'"
  using assms by (simp add: draws_def only_frames_refl display_ok_def video_ok_def cursor_ok_def)

lemma draws_screen:
  assumes "display_ok s" "screen_only s s'" "t < 3" "confined (video_mem s t) (mem s) (mem s')" "cursor_ok s' t"
    and "\<And>u. u < 3 \<Longrightarrow> u \<noteq> t \<Longrightarrow> screen_x s' u = screen_x s u \<and> screen_y s' u = screen_y s u"
  shows "draws s s'"
proof -
  have "cursor_ok s' u" if "u < 3" for u
    using assms(1,5,6) that by (cases "u = t") (simp_all add: display_ok_def cursor_ok_def)
  moreover have "video_ok s'" using assms(1) by (simp add: display_ok_def video_ok_def screen_onlyD [OF assms(2)])
  ultimately show ?thesis
    using confined_only_frames [OF _ assms(3,4)] assms(1) keeps_tasks_screen [OF assms(2)] by (simp add: draws_def display_ok_def)
qed

lemma draws_printed:
  assumes "display_ok s" "t < 3" "printed t xs s s'"
  shows "draws s s'"
proof (rule draws_screen [OF assms(1) _ assms(2)])
  show "screen_only s s'" "confined (video_mem s t) (mem s) (mem s')" "cursor_ok s' t"
    using assms(3) unfolding printed_def by blast+
  fix u :: nat assume "u < 3" "u \<noteq> t"
  then have "abs_screen s' u = abs_screen s u" using assms(3) unfolding printed_def by blast
  from arg_cong [OF this, of acol] arg_cong [OF this, of arow]
  show "screen_x s' u = screen_x s u \<and> screen_y s' u = screen_y s u" by (simp add: abs_screen_def)
qed

lemma draws_write_char: "display_ok s \<Longrightarrow> c \<noteq> 0x0D \<Longrightarrow> draws s (write_char c s)"
  using abs_write_char(2) [of s c] write_char_confined [of s c] display_ok_terminal
  by (intro draws_screen [OF _ screen_only_write_char, of _ "terminal_num s"])
     (simp_all add: display_ok_def write_char_other_cursor)

lemma draws_clear: "display_ok s \<Longrightarrow> draws s (reset_screen (clear s))"
proof -
  assume ok: "display_ok s"
  have "mem (reset_screen (clear s)) = mem (clear s)" by (simp add: reset_screen_def Let_def)
  moreover have "video_mem (clear s) = video_mem s" "terminal_num (clear s) = terminal_num s"
    "screen_x (clear s) = screen_x s" "screen_y (clear s) = screen_y s" by (simp_all add: clear_def Let_def)
  ultimately show ?thesis
    using clear_confined [of s] display_ok_terminal [OF ok] ok
    by (intro draws_screen [OF ok screen_only_trans [OF screen_only_clear screen_only_reset], of "terminal_num s"])
       (simp_all add: reset_screen_def cursor_ok_def Let_def)
qed

lemma draws_backspace:
  assumes "display_ok s"
  shows "draws s (backspace_pressed s)"
proof -
  let ?t = "terminal_num s"
  have t: "?t < 3" "cursor_ok s ?t" using assms display_ok_terminal by (auto simp: display_ok_def)
  have "confined (video_mem s ?t) (mem s) (mem (backspace_pressed s))"
    using t(2) by (auto simp: backspace_pressed_def Let_def cursor_ok_def intro!: confined_upd confined_trans [OF confined_upd confined_upd])
  moreover have "screen_x (backspace_pressed s) u = screen_x s u \<and> screen_y (backspace_pressed s) u = screen_y s u" if "u \<noteq> ?t" for u
    using that by (simp add: backspace_pressed_def Let_def split: prod.splits)
  ultimately show ?thesis
    using backspace_cursor_ok [of s] t by (intro draws_screen [OF assms screen_only_backspace t(1)]) simp_all
qed

lemma cpy_only_frames:
  assumes "d \<in> {0xB8000, 0xB9000, 0xBA000, 0xBB000}" "drop_bit 22 a \<noteq> 0"
  shows "cpy m d src 4096 a = m a"
proof -
  have "\<not> unat (a - d) < 4096" using page_low [OF assms(1), of a] assms(2) by (auto simp: unat_less_uint)
  then show ?thesis by (simp add: cpy_def)
qed

lemma recolor_only_frames:
  assumes "video_mem s (terminal_num s) = VIDEO" "drop_bit 22 a \<noteq> 0"
  shows "mem (recolor s) a = mem s a"
proof -
  have "fold (\<lambda>i m. m(cell VIDEO (2 * int i + 1) := col)) is m a = m a" if "\<forall>i \<in> set is. i < 2000" for "is" col and m :: mem
    using that
  proof (induction "is" arbitrary: m)
    case (Cons i "is")
    have "a \<noteq> cell VIDEO (2 * int i + 1)"
      using assms(2) Cons.prems page_low [of VIDEO a] by (auto simp: uint_cell_offset)
    then show ?case using Cons by simp
  qed simp
  from this [of "[0..<2000]"] show ?thesis by (simp add: recolor_def Let_def assms(1))
qed

lemma draws_switch:
  assumes "display_ok s" "n < 3"
  shows "draws s (terminal_switch n s)"
proof -
  let ?o = "terminal_num s"
  have o: "?o < 3" using display_ok_terminal [OF assms(1)] .
  have "mem (terminal_switch n s) a = mem s a" if "drop_bit 22 a \<noteq> 0" for a
    using that cpy_only_frames [of VIDEO a] cpy_only_frames [OF _ that, of "backup_mem_addr ?o"] backup_page [OF o]
    by (simp add: terminal_switch_eq recolor_only_frames memcpy_backup o assms(2))
  moreover have "keeps_tasks s (terminal_switch n s)"
    using o assms(2) by (simp add: keeps_tasks_def terminal_switch_eq recolor_def Let_def update_cursor_def outb_def)
  ultimately show ?thesis
    using assms terminal_switch_video_ok [of s n] by (simp add: draws_def only_frames_def display_ok_def cursor_ok_def)
qed

section \<open>Keyboard interrupts\<close>

text \<open>What the echo relies on: the last character is not a carriage return.\<close>

definition echo_ok :: "kernel \<Rightarrow> bool" where
  "echo_ok u \<longleftrightarrow> (isAdd u = 1 \<longrightarrow> char_buf u ! nat (buf_index u (terminal_num u)) \<noteq> 0x0D)"

lemma push_char_echo:
  assumes "push_char c s = Some u" "c \<noteq> 0x0D" "display_ok s"
  shows "draws s u" "echo_ok u" "command_buf u = command_buf s" "display_ok u"
proof -
  show dr: "draws s u"
    using assms by (intro draws_same) (auto simp: push_char_def Let_def keeps_tasks_def split: Option.bind_splits)
  show "echo_ok u" "command_buf u = command_buf s"
    using assms(1,2) by (auto simp: push_char_def Let_def echo_ok_def aset_def split: if_splits Option.bind_splits)
  show "display_ok u" using dr by (simp add: draws_def)
qed

lemma draws_enter:
  assumes "display_ok s" "enter_pressed s = Some u"
  shows "draws s u" "echo_ok u"
proof -
  obtain v where v: "push_char 0x0A (s\<lparr>enter_flag := 1\<rparr>) = Some v"
    using assms(2) by (auto simp: enter_pressed_def Let_def split: Option.bind_splits)
  have s: "draws s (s\<lparr>enter_flag := 1\<rparr>)" using assms(1) by (intro draws_same) (simp_all add: keeps_tasks_def)
  then have "draws s v" "echo_ok v" "display_ok v"
    using push_char_echo [OF v] draws_trans [OF s] by (simp_all add: draws_def)
  moreover have "keeps_tasks v u" "mem u = mem v" "screen_x u = screen_x v" "screen_y u = screen_y v" "video_mem u = video_mem v"
      "terminal_num u = terminal_num v" "PT1 u = PT1 v" "char_buf u = char_buf v" "buf_index u = buf_index v"
    using assms(2) v unfolding enter_pressed_def Let_def
    by (auto simp: set_t_enter_flag_def keeps_tasks_def split: Option.bind_splits if_splits prod.splits)
  moreover have "char_buf v ! nat (buf_index v (terminal_num v)) \<noteq> 0x0D"
    using v by (auto simp: push_char_def Let_def aset_def split: if_splits Option.bind_splits)
  ultimately show "draws s u" "echo_ok u"
    using draws_trans [OF _ draws_same [of v u]] by (simp_all add: echo_ok_def)
qed

lemma draws_default:
  assumes ok: "screens_ok s" and d: "defaultKeyPressed c s = Some u"
  shows "draws s u \<and> echo_ok u"
proof -
  have kb: "kbd_inv s" "display_ok s" using ok by (simp_all add: screens_ok_def)
  have s0: "echo_ok s" "echo_ok (s\<lparr>isAdd := 0\<rparr>)" using kb(1) by (simp_all add: echo_ok_def kbd_inv_def)
  have refl: "draws s s" "draws s (s\<lparr>isAdd := v\<rparr>)" for v
    using kb(2) by (auto intro!: draws_same simp: keeps_tasks_def)
  consider (switch) "alt_flag s = 1" "0x3B \<le> c" "c \<le> 0x3D" | (none) "\<not> (alt_flag s = 1 \<and> 0x3B \<le> c \<and> c \<le> 0x3D)" "c > 0x3A"
    | (key) "\<not> (alt_flag s = 1 \<and> 0x3B \<le> c \<and> c \<le> 0x3D)" "c \<le> 0x3A" by force
  then show ?thesis
  proof cases
    case switch
    then have "unat (c - 0x3B) < 3" by (auto simp: unat_sub word_le_nat_alt)
    moreover have "u = terminal_switch (unat (c - 0x3B)) s" using d switch by (simp add: defaultKeyPressed_def Let_def)
    moreover have "kbd_inv (terminal_switch (unat (c - 0x3B)) s)" using kbd_inv_switch [OF kb(1)] calculation(1) by simp
    ultimately show ?thesis using draws_switch [OF kb(2)] by (simp add: echo_ok_def kbd_inv_def)
  next
    case none
    then have "u = s" using d by (auto simp: defaultKeyPressed_def Let_def split: if_splits)
    then show ?thesis using refl s0 by simp
  next
    case key
    define ch where "ch = key_char (capslock_flag s = 1) (shift_flag s = 1) c"
    have ch: "ch \<noteq> 0x0D" using key_char_printable(2) [OF key(2)] by (simp add: ch_def)
    have "u = s \<or> u = s\<lparr>isAdd := 0\<rparr> \<or> push_char ch (s\<lparr>isAdd := 1\<rparr>) = Some u \<or>
        u = (reset_screen (clear s))\<lparr>buf_index := (buf_index (reset_screen (clear s)))(terminal_num (reset_screen (clear s)) := -1)\<rparr>"
    proof -
      have f: "capslock_flag s \<in> {0, 1}" "shift_flag s \<in> {0, 1}" "\<not> c > 0x3A" using kb(1) key(2) by (simp_all add: kbd_inv_def)
      show ?thesis
        using d unfolding defaultKeyPressed_def Let_def if_not_P [OF key(1)] if_not_P [OF f(3)] table_lookup [OF key(2) f(1,2)] ch_def [symmetric]
        by (auto split: if_splits)
    qed
    moreover have "draws s v \<and> echo_ok v" if "push_char ch (s\<lparr>isAdd := 1\<rparr>) = Some v" for v
    proof -
      have "display_ok (s\<lparr>isAdd := 1\<rparr>)" using refl(2) [of 1] unfolding draws_def by blast
      note push_char_echo [OF that ch this]
      then show ?thesis using draws_trans [OF refl(2)] by blast
    qed
    moreover have "draws s (v\<lparr>buf_index := b\<rparr>) \<and> echo_ok (v\<lparr>buf_index := b\<rparr>)" if "v = reset_screen (clear s)" for b v
    proof -
      have "screen_only s v" unfolding that by (rule screen_only_trans [OF screen_only_clear screen_only_reset])
      then have "isAdd v = 0" using kb(1) by (simp add: screen_onlyD kbd_inv_def)
      moreover have "draws s v" unfolding that by (rule draws_clear [OF kb(2)])
      moreover have "draws v (v\<lparr>buf_index := b\<rparr>)"
        using \<open>draws s v\<close> by (intro draws_same) (simp_all add: keeps_tasks_def draws_def)
      ultimately show ?thesis using draws_trans by (auto simp: echo_ok_def)
    qed
    ultimately show ?thesis using refl s0 by blast
  qed
qed

lemma draws_dealer:
  assumes ok: "screens_ok s" and d: "keyboard_output_dealer c s = Some u"
  shows "draws s u \<and> echo_ok u"
proof (cases "c \<in> special_keys")
  case False
  then show ?thesis using draws_default [OF ok] d by (simp add: dealer_default)
next
  case True
  have kb: "kbd_inv s" "display_ok s" using ok by (simp_all add: screens_ok_def)
  show ?thesis
  proof (cases "c = 0x1C \<or> c = 0x0E")
    case True
    let ?v = "s\<lparr>buf_index := (buf_index s)(terminal_num s := buf_index s (terminal_num s) - 1)\<rparr>"
    have v: "draws s ?v" using kb(2) by (intro draws_same) (simp_all add: keeps_tasks_def)
    have "draws s (backspace_pressed ?v)" using draws_trans [OF v draws_backspace] v by (simp add: draws_def)
    moreover have "echo_ok (backspace_pressed ?v)" "echo_ok s"
      using screen_onlyD(6) [OF screen_only_backspace [of ?v]] kb(1) by (simp_all add: echo_ok_def kbd_inv_def)
    moreover have "draws s s" using kb(2) by (intro draws_same) simp_all
    ultimately show ?thesis
      using True d draws_enter [OF kb(2)] by (auto simp: keyboard_output_dealer_def split: if_splits)
  next
    case False
    have "u \<in> {s, s\<lparr>shift_flag := 1\<rparr>, s\<lparr>shift_flag := 0\<rparr>, s\<lparr>ctrl_flag := 1\<rparr>, s\<lparr>ctrl_flag := 0\<rparr>, s\<lparr>alt_flag := 1\<rparr>, s\<lparr>alt_flag := 0\<rparr>,
        s\<lparr>capslock_flag := capslock_flag s XOR 1, release_caps := 0\<rparr>, s\<lparr>release_caps := 1\<rparr>}"
      using True False d by (auto simp: special_keys_def keyboard_output_dealer_def split: if_splits)
    moreover have "draws s v \<and> echo_ok v" if "keeps_tasks s v" "isAdd v = isAdd s" "mem v = mem s" "screen_x v = screen_x s"
        "screen_y v = screen_y s" "video_mem v = video_mem s" "terminal_num v = terminal_num s" "PT1 v = PT1 s" for v
      using draws_same [OF kb(2)] that kb(1) by (simp add: echo_ok_def kbd_inv_def)
    ultimately show ?thesis by (elim insertE emptyE) (simp_all add: keeps_tasks_def)
  qed
qed

lemma draws_eoi: "display_ok s \<Longrightarrow> draws s (sti (send_eoi n s))"
  by (rule draws_same [OF _ keeps_tasks_screen [OF screen_only_eoi]]) (simp_all add: send_eoi_def outb_def sti_def)

lemma draws_tail:
  assumes ok: "display_ok s" "echo_ok s" and tail: "handler_tail s = Some s'"
    and buf: "length (char_buf s) = 128" "isAdd s = 1 \<longrightarrow> 0 \<le> buf_index s (terminal_num s) \<and> buf_index s (terminal_num s) \<le> 127"
  shows "draws s s'"
proof -
  define w where "w = (if isAdd s = 1 then (write_char (char_buf s ! nat (buf_index s (terminal_num s))) s)\<lparr>isAdd := 0\<rparr> else s)"
  have echo: "(if isAdd s = 1 then do { (ret, s) \<leftarrow> terminal_write 0 (Some (echo_ptr s)) 1 s; Some (s\<lparr>isAdd := 0\<rparr>) } else Some s) = Some w"
    using echo_write [of s] buf by (simp add: w_def)
  have w: "draws s w"
  proof (cases "isAdd s = 1")
    case True
    let ?v = "write_char (char_buf s ! nat (buf_index s (terminal_num s))) s"
    have v: "draws s ?v" using ok True by (intro draws_write_char) (simp_all add: echo_ok_def)
    then have "display_ok ?v" by (simp add: draws_def)
    then have "draws ?v (?v\<lparr>isAdd := 0\<rparr>)" by (rule draws_same) (simp_all add: keeps_tasks_def)
    then show ?thesis using draws_trans [OF v] True by (simp add: w_def)
  next
    case False
    then show ?thesis using draws_same [OF ok(1)] by (simp add: w_def)
  qed
  define x where "x = (if enter_flag w = 1 then w\<lparr>buf_index := (buf_index w)(terminal_num w := -1), enter_flag := 0\<rparr> else w)"
  have wd: "display_ok w" using w by (simp add: draws_def)
  have x: "draws w x" by (rule draws_same [OF wd]) (simp_all add: x_def keeps_tasks_def)
  have "s' = sti (send_eoi 1 x)" using tail unfolding handler_tail_def echo x_def by simp
  then have "draws x s'" using x draws_eoi [of x] by (simp add: draws_def)
  then show ?thesis using draws_trans [OF w draws_trans [OF x]] by blast
qed

lemma draws_keyboard:
  assumes ok: "screens_ok s" and h: "keyboard_handler c s = Some s'"
  shows "draws s s' \<and> screens_ok s'"
proof -
  have kb: "kbd_inv s" using ok by (simp add: screens_ok_def)
  obtain u where u: "keyboard_output_dealer c s = Some u" "handler_tail u = Some s'"
    using h by (auto simp: keyboard_handler_tail split: Option.bind_splits)
  have dealt: "dealt_ok u" using dealer_total [OF kb, of c] u(1) by simp
  have d: "draws s u" "echo_ok u" using draws_dealer [OF ok u(1)] by simp_all
  have "buf_index u (terminal_num u) \<le> 126 \<or> buf_index u (terminal_num u) \<le> 127"
    using dealt unfolding dealt_ok_def by blast
  then have "draws u s'"
    using d(1) dealt by (intro draws_tail [OF _ d(2) u(2)]) (auto simp: draws_def dealt_ok_def)
  then have "draws s s'" using draws_trans [OF d(1)] by blast
  moreover have "kbd_inv s'" using keyboard_handler_total [OF kb, of c] h by simp
  ultimately show ?thesis by (simp add: screens_ok_def draws_def)
qed

section \<open>Stores through the page tables\<close>

lemma page_index: "unat (drop_bit 22 (v :: u32)) = unat v div 4194304"
  unfolding unat_drop_bit_eq by (simp add: drop_bit_eq_div)

lemma program_page_frame:
  assumes "PDT s 32 = prog_entry pid" "0 \<le> pid" "pid < 6" "drop_bit 22 v = (32 :: u32)" "mmu s user v = Some a"
  shows "drop_bit 22 a = frame_of pid"
  using assms(1,4,5) program_frame(2-4) [OF assms(2,3)] program_frame(1) [OF assms(2,3)] big_page_frame [of "prog_entry pid" v]
  by (simp add: mmu_def Let_def prog_entry_def frame_of_def)

lemma poke_program_page:
  assumes pg: "PDT s 32 = prog_entry pid" "PDT s 33 = 0" and pid: "0 \<le> pid" "pid < 6"
    and v: "0x08000000 \<le> unat v" "unat v < 0x08800000" and p: "poke v b s = Some s'"
  shows "unat v < 0x08400000 \<and> (\<exists>m. s' = s\<lparr>mem := m\<rparr>) \<and> only_frames {frame_of pid} s s'"
proof -
  obtain a where a: "mmu s False v = Some a" "s' = s\<lparr>mem := (mem s)(a := b)\<rparr>" using p by (auto simp: poke_def)
  have "unat v < 0x08400000"
  proof (rule ccontr)
    assume "\<not> unat v < 0x08400000"
    then have "unat (drop_bit 22 v) = 33" unfolding page_index using v(2) by simp
    then show False using a(1) pg(2) by (simp add: mmu_def)
  qed
  moreover from this have "unat (drop_bit 22 v) = unat (32 :: u32)" unfolding page_index using v(1) by simp
  then have "drop_bit 22 v = 32" by (simp only: unat_inj_u32)
  ultimately show ?thesis using program_page_frame [OF pg(1) pid _ a(1)] a(2) by (auto simp: only_frames_upd)
qed

lemma poke_bytes_program_page:
  assumes "PDT s 32 = prog_entry pid" "PDT s 33 = 0" "0 \<le> pid" "pid < 6"
  shows "0x08000000 \<le> unat v \<Longrightarrow> unat v < 0x08800000 \<Longrightarrow> poke_bytes v bs s = Some s' \<Longrightarrow>
    (bs \<noteq> [] \<longrightarrow> unat v < 0x08400000) \<and> (\<exists>m. s' = s\<lparr>mem := m\<rparr>) \<and> only_frames {frame_of pid} s s'"
  using assms(1,2)
proof (induction bs arbitrary: v s)
  case Nil
  then show ?case by (auto simp: only_frames_def intro: exI [of _ "mem s"])
next
  case (Cons b bs)
  obtain s1 where s1: "poke v b s = Some s1" "poke_bytes (v + 1) bs s1 = Some s'"
    using Cons.prems(3) by (auto split: Option.bind_splits)
  obtain m where m: "unat v < 0x08400000" "s1 = s\<lparr>mem := m\<rparr>" "only_frames {frame_of pid} s s1"
    using poke_program_page [OF Cons.prems(4,5) assms(3,4) Cons.prems(1,2) s1(1)] by blast
  have "unat (v + 1) = Suc (unat v)" using m(1) by (simp add: unat_word_ariths)
  then have "(\<exists>m. s' = s1\<lparr>mem := m\<rparr>) \<and> only_frames {frame_of pid} s1 s'"
    using Cons.IH [of "v + 1" s1] s1(2) m Cons.prems(1,4,5) by simp
  then show ?case using m only_frames_trans by auto
qed

lemma load_loop_program_page:
  assumes "load_loop inode i s = Some s'" "PDT s 32 = prog_entry pid" "PDT s 33 = 0" "0 \<le> pid" "pid < 6"
    and "unat (LOAD_ADDR + i * BUF_SIZE) < 0x08800000" "0x08000000 \<le> unat (LOAD_ADDR + i * BUF_SIZE)"
  shows "(\<exists>m. s' = s\<lparr>mem := m\<rparr>) \<and> only_frames {frame_of pid} s s'"
  using assms(1-3,6,7)
proof (induction rule: load_loop.raw_induct [rotated 1, consumes 1, case_names step])
  case (step ll inode i s s')
  let ?bs = "read_data inode (i * BUF_SIZE) BUF_SIZE s" and ?v = "LOAD_ADDR + i * BUF_SIZE"
  show ?case
  proof (cases "?bs = []")
    case True
    then show ?thesis using step.hyps by (auto simp: Let_def only_frames_def intro: exI [of _ "mem s"])
  next
    case False
    then obtain s1 where s1: "poke_bytes ?v ?bs s = Some s1" "ll inode (i + 1) s1 = Some s'"
      using step.hyps by (auto simp: Let_def split: Option.bind_splits)
    have "unat ?v < 0x08400000 \<and> (\<exists>m. s1 = s\<lparr>mem := m\<rparr>) \<and> only_frames {frame_of pid} s s1"
      using poke_bytes_program_page [OF step.prems(1,2) assms(4,5) _ _ s1(1)] step.prems(3,4) False by blast
    then obtain m where m: "unat ?v < 0x08400000" "s1 = s\<lparr>mem := m\<rparr>" "only_frames {frame_of pid} s s1" by blast
    have "LOAD_ADDR + (i + 1) * BUF_SIZE = ?v + 4" by (simp add: algebra_simps)
    moreover have "unat (w + 4) = unat w + 4" if "unat w < 0x08400000" for w :: u32 using that by (simp add: unat_word_ariths)
    note this [OF m(1)]
    ultimately have "(\<exists>m. s' = s1\<lparr>mem := m\<rparr>) \<and> only_frames {frame_of pid} s1 s'"
      using step.IH [OF s1(2)] step.prems m by (simp only: kernel.simps) simp
    then show ?thesis using m only_frames_trans by auto
  qed
qed

lemma small_page_frame_22: "drop_bit 22 ((e AND 0xFFFFF000) OR (v AND 0xFFF)) = drop_bit 22 (e :: u32)"
proof -
  have "drop_bit 10 (drop_bit 12 ((e AND 0xFFFFF000) OR (v AND 0xFFF))) = drop_bit 10 (drop_bit 12 e)"
    by (simp only: small_page_frame)
  then show ?thesis by simp
qed

lemma mmu_table:
  assumes "mmu s user v = Some a" "PDT s (unat (drop_bit 22 v)) = e" "\<not> bit e 7" "page_table s (e AND 0xFFFFF000) = Some tbl"
  shows "bit (tbl (unat (drop_bit 12 v AND 0x3FF))) 0" "drop_bit 22 a = drop_bit 22 (tbl (unat (drop_bit 12 v AND 0x3FF)))"
  using assms small_page_frame_22 [of "tbl (unat (drop_bit 12 v AND 0x3FF))" v]
  by (auto simp: mmu_def Let_def split: if_splits)

text \<open>What user code of the current process can reach.\<close>

lemma user_reach_paged:
  assumes pg: "paged s" and vid: "video_ok s" and pid: "0 \<le> current_pid s" "current_pid s < 6"
    and m: "mmu s True v = Some a"
  shows "drop_bit 22 a \<in> {0, frame_of (current_pid s)}"
proof -
  let ?i = "unat (drop_bit 22 v)" and ?j = "unat (drop_bit 12 v AND 0x3FF)"
  have al: "PT0_addr s AND 0xFFF = 0" "PT1_addr s AND 0xFFF = 0" "PT0_addr s \<noteq> PT1_addr s"
    using pg by (simp_all add: paged_def tables_aligned_def)
  have pt: "page_table s ((PT1_addr s OR 0x7) AND 0xFFFFF000) = Some (PT1 s)"
      "page_table s ((PT0_addr s OR 0x17) AND 0xFFFFF000) = Some (PT0 s)"
    using al by (auto simp: aligned_frame page_table_def)
  have nb: "\<not> bit (PT1_addr s OR 0x7) 7" "\<not> bit (PT0_addr s OR 0x17) 7"
    using aligned_bits(1) [OF al(1)] aligned_bits(1) [OF al(2)] by (simp_all add: bit_or_iff)
  have pde: "PDT s ?i = (if ?i = 32 then prog_entry (current_pid s) else if ?i = 25 then PT1_addr s OR 0x7
        else if ?i = 0 then PT0_addr s OR 0x17 else if ?i = 1 then 0x400083 else 0)"
    using pg drop_bit_22_bound [of v] by (simp add: paged_def)
  consider "?i = 32" | "?i = 25" | "?i = 0" | "PDT s ?i = 0x400083" | "PDT s ?i = 0" using pde by presburger
  then show ?thesis
  proof cases
    case 1
    then have "drop_bit 22 v = 32" by (simp add: unat_inj_u32 [symmetric])
    moreover have "PDT s 32 = prog_entry (current_pid s)" using pde 1 by simp
    ultimately show ?thesis using program_page_frame [OF _ pid _ m] by simp
  next
    case 2
    then have e: "PDT s ?i = PT1_addr s OR 0x7" using pde by simp
    have "PT1 s ?j \<in> {0, 0xB8007, 0xB9007, 0xBA007, 0xBB007}"
    proof (cases "?j < 3")
      case True
      then have "VID_MEM_BACKUP ?j \<in> {0xB9007, 0xBA007, 0xBB007}" by (auto simp: less_3 VID_MEM_BACKUP_def)
      then show ?thesis using vid True by (auto simp: video_ok_def)
    next
      case False
      then show ?thesis using pg table_index_bound [of v] by (simp add: paged_def)
    qed
    then show ?thesis using mmu_table [OF m e nb(1) pt(1)] by auto
  next
    case 3
    then have e: "PDT s ?i = PT0_addr s OR 0x17" using pde by simp
    have "PT0 s ?j \<in> {0, 0xB8117, 0xB9003, 0xBA003, 0xBB003}" using pg table_index_bound [of v] by (simp add: paged_def)
    then show ?thesis using mmu_table [OF m e nb(2) pt(2)] by auto
  next
    case 4
    then show ?thesis using m by (simp add: mmu_def)
  next
    case 5
    then show ?thesis using m by (simp add: mmu_def)
  qed
qed

section \<open>Calls of the current process\<close>

text \<open>What a call that neither starts nor ends a process may do.\<close>

definition serves :: "kernel \<Rightarrow> kernel \<Rightarrow> bool" where
  "serves s s' \<longleftrightarrow> keeps_tasks s s' \<and> only_frames {0, frame_of (current_pid s)} s s' \<and> screens_ok s'"

lemma serves_same: "screens_ok s \<Longrightarrow> serves s s"
  by (simp add: serves_def only_frames_refl)

lemma serves_draws: "draws s s' \<Longrightarrow> kbd_inv s' \<Longrightarrow> serves s s'"
  using only_frames_mono [of "{0}" s s'] by (simp add: serves_def draws_def screens_ok_def)

lemma serves_trans: "serves s s' \<Longrightarrow> serves s' s'' \<Longrightarrow> serves s s''"
  using keeps_tasks_trans only_frames_trans by (simp add: serves_def keeps_tasksD(1) [of s s']) blast

lemma screens_ok_mem: "screens_ok (s\<lparr>mem := m\<rparr>) = screens_ok s"
  by (simp add: screens_ok_def display_ok_def kbd_inv_def video_ok_def cursor_ok_def)

text \<open>The current process's own descriptors and arguments.\<close>

lemma serves_pcb:
  assumes "screens_ok s" "fds_ok ((cur_pcb s)\<lparr>fd_entry := f, args := a\<rparr>)" "length a = length (args (cur_pcb s))"
  shows "serves s (set_cur_pcb ((cur_pcb s)\<lparr>fd_entry := f, args := a\<rparr>) s)" (is "serves s ?s")
proof -
  have "keeps_tasks s ?s" using assms(2,3) by (simp add: keeps_tasks_def set_cur_pcb_def set_pcb_def cur_pcb_def)
  moreover have "screens_ok ?s"
    using assms(1) by (simp add: screens_ok_def display_ok_def kbd_inv_def video_ok_def cursor_ok_def set_cur_pcb_def set_pcb_def)
  ultimately show ?thesis by (simp add: serves_def only_frames_def set_cur_pcb_def set_pcb_def)
qed

lemma serves_set_fd:
  assumes "screens_ok s" "fds_ok (cur_pcb s)" "entry_ok fd e"
  shows "serves s (set_fd fd e s)"
  using serves_pcb [OF assms(1), where f = "(fd_entry (cur_pcb s))(fd := e)" and a = "args (cur_pcb s)"] assms
  by (simp add: set_fd_def fds_ok_def)

text \<open>Bytes stored into a buffer of the program page.\<close>

definition own_page :: "u32 \<Rightarrow> bool" where
  "own_page v \<longleftrightarrow> 0x08000000 \<le> unat v \<and> unat v < 0x08400000"

lemma serves_poke_bytes:
  assumes "screens_ok s" "paged s" "0 \<le> current_pid s" "current_pid s < 6" "0x08000000 \<le> unat v" "unat v < 0x08800000"
    and "poke_bytes v bs s = Some s'"
  shows "serves s s'"
proof -
  have pg: "PDT s 32 = prog_entry (current_pid s)" "PDT s 33 = 0" using assms(2) by (simp_all add: paged_def)
  obtain m where m: "s' = s\<lparr>mem := m\<rparr>" "only_frames {frame_of (current_pid s)} s s'"
    using poke_bytes_program_page [OF pg assms(3-7)] by blast
  have "keeps_tasks s s'" by (simp add: m(1) keeps_tasks_def)
  then show ?thesis using assms(1) only_frames_mono [OF m(2)] by (simp add: serves_def m(1) screens_ok_mem)
qed

subsection \<open>read\<close>

lemma spin_no_interrupt: "spin w [] s = Some s' \<Longrightarrow> \<not> w s \<and> s' = s"
  by (simp split: if_splits)

lemma read_call_serves:
  assumes ok: "screens_ok s" "fds_ok (cur_pcb s)" and r: "read_call env fd buf n s = Some (ret, bytes, s')" and env: "handlers env = []"
  shows "serves s s'"
proof -
  consider "bytes = []" "s' = s" | f where "0 \<le> fd" "fd < 8" "fd \<noteq> 1" "flags (fd_entry (cur_pcb s) (nat fd)) \<noteq> FREE"
      "operation READ (fd_entry (cur_pcb s) (nat fd)) = Some f" "call_read env f (nat fd) buf n s = Some (ret, bytes, s')"
    using r by (auto simp: read_call_def Let_def split: if_splits Option.bind_splits)
  then show ?thesis
  proof cases
    case 1
    then show ?thesis using serves_same [OF ok(1)] by simp
  next
    case (2 f)
    let ?e = "fd_entry (cur_pcb s) (nat fd)"
    have eo: "entry_ok (nat fd) ?e" using fds_okD [OF ok(2)] 2(1,2) by simp
    have pos: "serves s (set_fd (nat fd) (?e\<lparr>file_position := p\<rparr>) s)" for p
      using eo entry_ok_cong [of "?e\<lparr>file_position := p\<rparr>" ?e] by (intro serves_set_fd ok) simp
    have tt: "get_tty (s\<lparr>t_enter_flag := a, command_buf := b\<rparr>) = get_tty s" "get_tty (s\<lparr>rtc_interrupt_occured := c\<rparr>) = get_tty s" for a b c
      by (simp_all add: get_tty_def cur_pcb_def)
    show ?thesis
    proof (cases f)
      case Null_func
      then show ?thesis using 2(6) serves_same [OF ok(1)] by (simp add: call_read_def)
    next
      case Terminal_read
      then have "s' = s" "bytes = []"
        using 2(6) env by (auto simp: call_read_def terminal_read_def Let_def tt split: if_splits Option.bind_splits)
      then show ?thesis using serves_same [OF ok(1)] by simp
    next
      case Read_RTC
      then show ?thesis using 2(6) env by (auto simp: call_read_def read_RTC_def tt split: Option.bind_splits)
    next
      case Read_file
      then show ?thesis using 2(6) pos by (auto simp: call_read_def read_file_def Let_def)
    next
      case Read_directory
      then show ?thesis
        using 2(6) pos serves_same [OF ok(1)] by (auto simp: call_read_def read_directory_def Let_def split: if_splits option.splits)
    qed (use 2(6) in \<open>simp_all add: call_read_def\<close>)
  qed
qed


subsection \<open>write\<close>

lemma write_loop_reads:
  "write_loop buf i n s = Some s' \<Longrightarrow> \<exists>xs. length xs = n \<and> (\<forall>k < n. buf (i + of_nat k) = Some (xs ! k))"
proof (induction n arbitrary: i s)
  case (Suc n)
  obtain c where c: "buf i = Some c" "write_loop buf (i + 1) n (write_char c s) = Some s'"
    using Suc.prems by (auto split: Option.bind_splits)
  obtain xs where xs: "length xs = n" "\<forall>k < n. buf (i + 1 + of_nat k) = Some (xs ! k)" using Suc.IH [OF c(2)] by blast
  have "\<forall>k < Suc n. buf (i + of_nat k) = Some ((c # xs) ! k)"
    using c(1) xs(2) by (auto simp: nth_Cons' add.assoc split: nat.splits) (metis Suc_pred add.assoc of_nat_Suc not_gr_zero Suc_less_eq)
  then show ?case using xs(1) by (metis length_Cons)
qed simp

lemma sint_clamp: "nat (sint (of_nat (nat (sint n)) :: u32)) = nat (sint (n :: u32))" "nat (sint n) < 2147483648"
proof -
  show less: "nat (sint n) < 2147483648" using sint_lt [of n] by simp
  then show "nat (sint (of_nat (nat (sint n)) :: u32)) = nat (sint n)"
    by (simp only: sint_small_u32 unat_of_nat_u32)
qed

lemma outs_self: "\<exists>x. s = s\<lparr>outs := x\<rparr>"
  by (rule exI [of _ "outs s"]) simp

lemma changeFreq_outs: "\<exists>x. changeFreq_RTC f r s = s\<lparr>outs := x\<rparr>"
  using outs_self [of s] by (auto simp: changeFreq_RTC_def outb_def split: option.splits)

lemma update_cursor_outs: "\<exists>z. update_cursor x y s = s\<lparr>outs := z\<rparr>"
  using outs_self [of s] by (auto simp: update_cursor_def outb_def Let_def)

lemma serves_ports: "screens_ok s \<Longrightarrow> serves s (s\<lparr>outs := x, iflag := i\<rparr>)"
  by (simp add: serves_def only_frames_def keeps_tasks_def screens_ok_def display_ok_def kbd_inv_def video_ok_def cursor_ok_def)

lemma write_call_serves:
  assumes ok: "screens_ok s" "fds_ok (cur_pcb s)" "get_tty s < 3" and w: "write_call env fd buf n s = Some (ret, s')"
    and cr: "\<And>p k. fd = 1 \<Longrightarrow> buf = Some p \<Longrightarrow> k < nat (sint n) \<Longrightarrow> p (of_nat k) \<noteq> Some 0x0D"
  shows "serves s s'"
proof -
  have dk: "display_ok s" "kbd_inv s" using ok(1) by (simp_all add: screens_ok_def)
  consider "s' = s" | p where "buf = Some p" "0 < fd" "fd < 8" "flags (fd_entry (cur_pcb s) (nat fd)) \<noteq> FREE"
    using w by (auto simp: write_call_def Let_def split: if_splits)
  then show ?thesis
  proof cases
    case 1
    then show ?thesis using serves_same [OF ok(1)] by simp
  next
    case (2 p)
    show ?thesis
    proof (cases "fd = 1")
      case True
      let ?n = "of_nat (nat (sint n)) :: u32"
      have eq: "write_call env 1 (Some p) n s = write_call env 1 (Some p) ?n s"
        using fds_okD [OF ok(2), of 1]
        by (simp add: write_call_def Let_def entry_ok_def operation_def stdout_table_def call_write_def terminal_write_def sint_clamp)
      obtain xs where xs: "length xs = nat (sint n)" "\<forall>k < nat (sint n). p (of_nat k) = Some (xs ! k)"
        using w 2 True fds_okD [OF ok(2), of 1] write_loop_reads [of p 0 "nat (sint n)"]
        by (auto simp: write_call_def Let_def entry_ok_def operation_def stdout_table_def call_write_def terminal_write_def
            split: if_splits Option.bind_splits)
      have "0x0D \<notin> set xs" using cr [OF True 2(1)] xs by (auto simp: in_set_conv_nth)
      moreover have "stdout_ok s" using ok dk(1) video_ok_pages by (simp add: stdout_ok_def display_ok_def)
      ultimately obtain s1 where "write_call env 1 (Some p) ?n s = Some (int (length xs), s1)" "printed (get_tty s) xs s s1"
        using write_stdout [of s xs p env] xs sint_clamp(2) [of n] by auto
      then have "printed (get_tty s) xs s s'" using w 2(1) True eq by simp
      then show ?thesis
        using draws_printed [OF dk(1) ok(3)] kbd_inv_cong [of s s'] dk(2) by (intro serves_draws) (auto simp: printed_def)
    next
      case False
      then have "nat fd < 8" "nat fd \<noteq> 0" "nat fd \<noteq> 1" using 2(2,3) by auto
      then have tbl: "operations_pointer (fd_entry (cur_pcb s) (nat fd)) \<in> {rtc_table, file_table, directory_table}"
        using fds_okD [OF ok(2), of "nat fd"] 2(4) by (simp add: entry_ok_def)
      let ?u = "(cli s)\<lparr>terminal_num := get_tty (cli s)\<rparr>"
      obtain f v where f: "operation WRITE (fd_entry (cur_pcb s) (nat fd)) = Some f" "call_write env f (nat fd) buf n ?u = Some (ret, v)"
          and s': "s' = sti (update_cursor (screen_x v (terminal_num s)) (screen_y v (terminal_num s)) (v\<lparr>terminal_num := terminal_num s\<rparr>))"
        using w 2 by (auto simp: write_call_def Let_def split: if_splits Option.bind_splits)
      have "f \<in> {Write_RTC, Write_file, Write_directory}" using f(1) tbl by (auto simp: operation_def table_defs)
      then obtain x where v: "v = ?u\<lparr>outs := x\<rparr>"
        using f(2) changeFreq_outs outs_self [of ?u]
        by (auto simp: call_write_def write_RTC_def write_file_def write_directory_def split: option.splits if_splits Option.bind_splits) metis+
      obtain z where "update_cursor (screen_x v (terminal_num s)) (screen_y v (terminal_num s)) (v\<lparr>terminal_num := terminal_num s\<rparr>) =
          v\<lparr>terminal_num := terminal_num s, outs := z\<rparr>" using update_cursor_outs [of _ _ "v\<lparr>terminal_num := terminal_num s\<rparr>"] by auto
      then have "s' = s\<lparr>outs := z, iflag := True\<rparr>" by (simp add: s' v cli_def sti_def)
      then show ?thesis using serves_ports [OF ok(1)] by simp
    qed
  qed
qed

subsection \<open>open, close, getargs and vidmap\<close>

lemma close_call_serves:
  assumes "screens_ok s" "fds_ok (cur_pcb s)" "close_call fd s = Some (ret, s')"
  shows "serves s s'"
  using assms(3) serves_same [OF assms(1)] serves_set_fd [OF assms(1,2) entry_ok_free, of "nat fd"]
  unfolding close_call_eq [OF assms(2)] by (auto split: if_splits)

lemma getargs_serves:
  assumes "screens_ok s" "fds_ok (cur_pcb s)" "getargs buf n s = Some (ret, bytes, s')"
  shows "serves s s'"
proof -
  have "serves s (set_cur_pcb ((cur_pcb s)\<lparr>args := a\<rparr>) s)" if "length a = length (args (cur_pcb s))" for a
    using serves_pcb [OF assms(1), where f = "fd_entry (cur_pcb s)" and a = a] assms(2) that by simp
  then show ?thesis
    using assms(3) serves_same [OF assms(1)] by (auto simp: getargs_def dest: aset_length split: if_splits Option.bind_splits)
qed


lemma call_open_outs:
  assumes "table_of_type ty = Some tbl" "operation OPEN \<lparr>operations_pointer = tbl, inode_index = i, file_position = p, flags = fl\<rparr> = Some f"
    and "call_open env f filename s = Some (ret, s')"
  shows "\<exists>x. s' = s\<lparr>outs := x\<rparr>"
proof -
  have "f \<in> {Open_RTC, Open_file, Open_directory}"
    using assms(1,2) by (auto simp: table_of_type_def operation_def table_defs split: if_splits)
  then show ?thesis
    using assms(3) changeFreq_outs outs_self [of s]
    by (auto simp: call_open_def open_RTC_def open_file_def open_directory_def)
qed

lemma open_call_serves:
  assumes ok: "screens_ok s" "fds_ok (cur_pcb s)" and op: "open_call env fname s = Some (ret, s')"
  shows "serves s s'"
proof -
  have std: "serves s (use_std 0 stdin_table s)" "serves s (use_std 1 stdout_table s)"
    unfolding use_std_def by (intro serves_set_fd ok, simp add: entry_ok_def)+
  have new: "serves s u"
    if i: "find_fd (cur_pcb s) [2..<8] = Some i" and ty: "table_of_type ty = Some tbl"
      and f: "operation OPEN \<lparr>operations_pointer = tbl, inode_index = n, file_position = 0, flags = IN_USE\<rparr> = Some f"
      and c: "call_open env f p (set_fd i \<lparr>operations_pointer = tbl, inode_index = n, file_position = 0, flags = IN_USE\<rparr> s) = Some (r, u)"
    for i ty tbl n f p r u
  proof -
    let ?e = "\<lparr>operations_pointer = tbl, inode_index = n, file_position = 0, flags = IN_USE\<rparr>"
    have "i \<noteq> 0" "i \<noteq> 1" using find_fd_Some [OF i] by auto
    moreover have "tbl \<in> {rtc_table, file_table, directory_table}" using ty by (auto simp: table_of_type_def split: if_splits)
    ultimately have s: "serves s (set_fd i ?e s)" by (intro serves_set_fd ok) (simp add: entry_ok_def)
    obtain x where "u = (set_fd i ?e s)\<lparr>outs := x\<rparr>" using call_open_outs [OF ty f c] by blast
    then have u: "u = (set_fd i ?e s)\<lparr>outs := x, iflag := iflag (set_fd i ?e s)\<rparr>" by simp
    have "screens_ok (set_fd i ?e s)" using s unfolding serves_def by blast
    then show ?thesis unfolding u by (rule serves_trans [OF s serves_ports])
  qed
  show ?thesis
    using op serves_same [OF ok(1)] std new unfolding open_call_def Let_def
    by (auto split: option.splits Option.bind_splits if_splits)
qed

lemma vidmap_serves:
  assumes "screens_ok s" "paged s" "0 \<le> current_pid s" "current_pid s < 6" "vidmap a s = Some (ret, s')"
  shows "serves s s'"
proof (cases "a < VIRTUAL_BLOCK_TOP \<or> a > VIRTUAL_BLOCK_BOTTOM")
  case True
  then show ?thesis using assms(5) serves_same [OF assms(1)] by (auto simp: vidmap_def)
next
  case False
  then have "0x08000000 \<le> unat a" "unat a < 0x08800000" by (auto simp: word_less_nat_alt)
  then show ?thesis
    using False assms(5) serves_poke_bytes [OF assms(1-4)]
    by (auto simp: vidmap_def Let_def simp del: poke_bytes.simps split: Option.bind_splits)
qed

end
