(* ===== verification/Kernel_Tasks.thy ===== *)
theory Kernel_Tasks
  imports Kernel_Inv
begin

text \<open>
  The operations that change the stacks of tasks: \<^verbatim>\<open>execute\<close> pushes a process on the stack of its
  terminal, \<^verbatim>\<open>halt\<close> and the exceptions pop it or start the terminal's shell again, a tick of the timer goes on to
  the next terminal. Each keeps the invariant of the running kernel.
\<close>

section \<open>The stacks\<close>

lemma chain_last: "chain s t ps \<Longrightarrow> ps \<noteq> [] \<and> last ps = int t"
  by (induction s t ps rule: chain.induct) (auto split: if_splits)

lemma chain_member:
  assumes "chain s t ps" "p \<in> set ps"
  shows "0 \<le> p \<and> p < 6 \<and> pid_flags s (nat p) \<noteq> 0 \<and> tty (pcbs s p) = of_nat t \<and> fds_ok (pcbs s p)"
  using assms by (induction s t ps rule: chain.induct) (auto split: if_splits)

lemma tasksD:
  assumes "tasks st s"
  shows "t < 3 \<Longrightarrow> chain s t (st t)" "t < 3 \<Longrightarrow> execute_pid s t = hd (st t)" "distinct (all_tasks st)"
    "p < 6 \<Longrightarrow> pid_flags s p \<noteq> 0 \<Longrightarrow> int p \<in> set (all_tasks st)" "pit_terminal_num s < 3"
    "current_pid s = hd (st (pit_terminal_num s))" "terminals_initialized s = 0" "length (args (pcbs s q)) = 128"
    "tss_esp0 s = kstack (current_pid s)" "u < 3 \<Longrightarrow> u \<noteq> pit_terminal_num s \<Longrightarrow> sched_esp0 (pcbs s (hd (st u))) = kstack (hd (st u))"
  using assms unfolding tasks_def by simp_all

lemma set_all_tasks: "p \<in> set (all_tasks st) \<longleftrightarrow> (\<exists>t < 3. p \<in> set (st t))"
  by (auto simp: all_tasks_def less_3)

lemma all_less_3: "(\<forall>t < 3. P t) \<longleftrightarrow> P (0 :: nat) \<and> P 1 \<and> P 2"
  by (auto simp: less_3)

lemma distinct_all_tasks:
  "distinct (all_tasks st) \<longleftrightarrow> (\<forall>t < 3. distinct (st t)) \<and> (\<forall>t < 3. \<forall>u < 3. t \<noteq> u \<longrightarrow> set (st t) \<inter> set (st u) = {})"
  unfolding all_less_3 all_tasks_def by simp blast

text \<open>The process that runs is on top of the stack of the terminal whose turn it is.\<close>

lemma tasks_current:
  assumes "tasks st s"
  shows "st (pit_terminal_num s) = current_pid s # tl (st (pit_terminal_num s))" "0 \<le> current_pid s" "current_pid s < 6"
    "pid_flags s (nat (current_pid s)) \<noteq> 0" "get_tty s = pit_terminal_num s" "fds_ok (cur_pcb s)"
proof -
  let ?t = "pit_terminal_num s"
  have t: "?t < 3" "chain s ?t (st ?t)" using tasksD(1,5) [OF assms] by blast+
  then show st: "st ?t = current_pid s # tl (st ?t)" using chain_last tasksD(6) [OF assms] by fastforce
  then have m: "current_pid s \<in> set (st ?t)" by (metis list.set_intros(1))
  show "0 \<le> current_pid s" "current_pid s < 6" "pid_flags s (nat (current_pid s)) \<noteq> 0" "fds_ok (cur_pcb s)"
    using chain_member [OF t(2) m] by (simp_all add: cur_pcb_def)
  have "tty (cur_pcb s) = of_nat ?t" using chain_member [OF t(2) m] by (simp add: cur_pcb_def)
  then show "get_tty s = ?t" using t(1) by (auto simp: get_tty_def less_3)
qed

lemma tasks_shells:
  assumes "tasks st s"
  shows "t < 3 \<Longrightarrow> pid_flags s t \<noteq> 0" "shells_running s"
proof -
  show *: "pid_flags s t \<noteq> 0" if "t < 3" for t
    using chain_last [OF tasksD(1) [OF assms that]] chain_member [OF tasksD(1) [OF assms that], of "int t"] by (metis last_in_set nat_int)
  show "shells_running s" using * tasksD(5) [OF assms] by (simp add: shells_running_def)
qed

text \<open>A new stack for the terminal whose turn it is.\<close>

lemma tasks_update:
  assumes st: "tasks st s" and t: "t = pit_terminal_num s"
    and new: "chain s' t ps" "set ps \<subseteq> - (set (all_tasks st) - set (st t))" "distinct ps"
    and s': "execute_pid s' = (execute_pid s)(t := hd ps)" "current_pid s' = hd ps" "pit_terminal_num s' = t" "terminals_initialized s' = 0"
    and others: "\<And>p. p \<in> set (all_tasks st) - set (st t) \<Longrightarrow> same_task s s' p \<and> sched_esp0 (pcbs s' p) = sched_esp0 (pcbs s p)"
    and flags: "\<And>p. p < 6 \<Longrightarrow> pid_flags s' p \<noteq> 0 \<Longrightarrow> int p \<in> set ps \<or> int p \<in> set (all_tasks st) - set (st t)"
    and args: "\<And>p. length (args (pcbs s' p)) = 128" and esp0: "tss_esp0 s' = kstack (hd ps)"
  shows "tasks (st(t := ps)) s'"
proof -
  have t3: "t < 3" using tasksD(5) [OF st] t by simp
  have dis: "set (st t) \<inter> set (st u) = {}" if "u < 3" "u \<noteq> t" for u
    using tasksD(3) [OF st] that t3 unfolding distinct_all_tasks by blast
  have rest: "set (st u) \<subseteq> set (all_tasks st) - set (st t)" if "u < 3" "u \<noteq> t" for u
    using dis [OF that] that(1) by (auto simp: set_all_tasks)
  then have ps: "set ps \<inter> set (st u) = {}" if "u < 3" "u \<noteq> t" for u using new(2) that by blast
  have "chain s' u ((st(t := ps)) u)" if u: "u < 3" for u
  proof (cases "u = t")
    case False
    have "chain s' u (st u)"
    proof (rule chain_cong [OF tasksD(1) [OF st u]])
      fix p assume "p \<in> set (st u)"
      then show "same_task s s' p" using rest [OF u False] others by blast
    qed
    then show ?thesis using False by simp
  qed (use new in simp)
  moreover have "execute_pid s' u = hd ((st(t := ps)) u)" if "u < 3" for u
    using tasksD(2) [OF st that] by (simp add: s'(1))
  moreover have "distinct (all_tasks (st(t := ps)))"
    using tasksD(3) [OF st] new(3) ps unfolding distinct_all_tasks by auto
  moreover have "int p \<in> set (all_tasks (st(t := ps)))" if "p < 6" "pid_flags s' p \<noteq> 0" for p
    using flags [OF that] t3 by (fastforce simp: set_all_tasks)
  moreover have "current_pid s' = execute_pid s' (pit_terminal_num s')" unfolding s' by simp
  moreover have "sched_esp0 (pcbs s' (hd ((st(t := ps)) u))) = kstack (hd ((st(t := ps)) u))" if "u < 3" "u \<noteq> t" for u
  proof -
    have "hd (st u) \<in> set (st u)" using chain_last [OF tasksD(1) [OF st that(1)]] by (cases "st u") simp_all
    then show ?thesis using rest [OF that] others tasksD(10) [OF st that(1)] that(2) t by auto
  qed
  ultimately show ?thesis unfolding tasks_def using s'(2,3,4) t3 args esp0 by auto
qed

section \<open>Messages of the kernel\<close>

text \<open>
  A message is one line of at most 57 characters. \<^verbatim>\<open>printf\<close> scrolls before it starts, not when the line wraps,
  so the cursor stays on the screen if the line fits the row the cursor is in.
\<close>

definition message_room :: "kernel \<Rightarrow> bool" where
  "message_room s \<longleftrightarrow> screen_x s (terminal_num s) \<le> 22"

text \<open>Output on the displayed terminal that leaves the cursor on the screen.\<close>

definition screen_written :: "kernel \<Rightarrow> kernel \<Rightarrow> bool" where
  "screen_written s s' \<longleftrightarrow> screen_only s s' \<and> confined (video_mem s (terminal_num s)) (mem s) (mem s') \<and> cursor_ok s' (terminal_num s) \<and>
     (\<forall>u. u \<noteq> terminal_num s \<longrightarrow> screen_x s' u = screen_x s u \<and> screen_y s' u = screen_y s u)"

lemma screen_written_trans [trans]:
  assumes "screen_written s s'" "screen_written s' s''"
  shows "screen_written s s''"
proof -
  have "terminal_num s' = terminal_num s" "video_mem s' = video_mem s"
    using assms(1) screen_onlyD(1,15) unfolding screen_written_def by blast+
  then show ?thesis
    using assms screen_only_trans confined_trans unfolding screen_written_def by metis
qed

lemma written_refl: "cursor_ok s (terminal_num s) \<Longrightarrow> screen_written s s"
  using screen_onlyI [where m = "mem s" and x = "screen_x s" and y = "screen_y s" and out = "outs s" and i = "iflag s"]
  by (simp add: screen_written_def)

lemma written_putc:
  "cursor_ok s (terminal_num s) \<Longrightarrow> cursor_ok (putc c s) (terminal_num s) \<Longrightarrow> screen_written s (putc c s)"
  using screen_only_putc putc_confined by (auto simp: screen_written_def putc_def Let_def)

lemma written_scroll:
  "cursor_ok s (terminal_num s) \<Longrightarrow> 0 < screen_y s (terminal_num s) \<Longrightarrow> screen_written s (scroll_screen s)"
  using screen_only_scroll scroll_confined by (auto simp: screen_written_def scroll_screen_eq cursor_ok_def)

lemma written_row:
  assumes "cursor_ok s (terminal_num s)" "screen_x s (terminal_num s) + int (length xs) < 80" "0x0A \<notin> set xs" "0x0D \<notin> set xs"
  shows "screen_written s (out_text xs s) \<and> terminal_num (out_text xs s) = terminal_num s \<and>
    screen_y (out_text xs s) (terminal_num s) = screen_y s (terminal_num s)"
  using assms
proof (induction xs arbitrary: s)
  case Nil
  then show ?case by (simp add: out_text_def written_refl)
next
  case (Cons c xs)
  let ?t = "terminal_num s"
  have cu: "cursor_ok s ?t" using Cons.prems(1) .
  have xy: "screen_x (putc c s) ?t = screen_x s ?t + 1" "screen_y (putc c s) ?t = screen_y s ?t"
    using putc_screen_xy [OF cu, of c] Cons.prems cu by (simp_all add: cursor_ok_def)
  then have cu': "cursor_ok (putc c s) ?t" using Cons.prems(1,2) cu by (simp add: cursor_ok_def)
  then have d: "screen_written s (putc c s)" by (rule written_putc [OF cu])
  have "screen_written (putc c s) (out_text xs (putc c s)) \<and> terminal_num (out_text xs (putc c s)) = ?t \<and>
      screen_y (out_text xs (putc c s)) ?t = screen_y s ?t"
    using Cons.IH [of "putc c s"] Cons.prems cu' xy by simp
  then show ?case using screen_written_trans [OF d] by (simp add: out_text_def)
qed

lemma kprintf_line:
  assumes cu: "cursor_ok s (terminal_num s)" and room: "message_room s" and fmt: "0 \<notin> set fmt" "length fmt < 4294967296"
    and out: "render fmt vs = Some (out @ [0x0A])" "text_line out"
  shows "\<exists>s'. kprintf fmt vs s = Some s' \<and> screen_written s s' \<and> screen_x s' (terminal_num s) = 0"
proof -
  define u where "u = (if check_out_of_bound s \<noteq> 0 then scroll_screen s else s)"
  let ?t = "terminal_num s"
  have u: "screen_written s u" "terminal_num u = ?t" "screen_x u ?t = screen_x s ?t" "screen_y u ?t < 24"
    using cu written_scroll [OF cu] written_refl [OF cu]
    by (auto simp: u_def check_out_of_bound_def scroll_screen_eq cursor_ok_def Let_def split: if_splits)
  then have du: "cursor_ok u ?t" by (simp add: screen_written_def)
  let ?v = "out_text out u"
  have v: "screen_written u ?v" "terminal_num ?v = ?t" "screen_y ?v ?t < 24"
    using written_row [of u out] du u room out(2) by (simp_all add: text_line_def message_room_def)
  then have dv: "cursor_ok ?v ?t" by (simp add: screen_written_def u(2))
  then have nl: "cursor_ok (putc 0x0A ?v) ?t" "screen_x (putc 0x0A ?v) ?t = 0"
    using v by (simp_all add: putc_newline cursor_ok_def)
  then have "screen_written ?v (putc 0x0A ?v)" using dv written_putc [of ?v] by (simp add: v(2))
  then have "screen_written s (out_text (out @ [0x0A]) u)" "screen_x (out_text (out @ [0x0A]) u) ?t = 0"
    using screen_written_trans [OF u(1) screen_written_trans [OF v(1)]] nl(2) by (simp_all add: out_text_append, simp_all add: out_text_def)
  moreover have "kprintf fmt vs s = Some (out_text (out @ [0x0A]) u)"
    using printf_render [OF cstr_arr_ptr [OF fmt] out(1), of "[]" s] by (simp add: kprintf_def u_def)
  ultimately show ?thesis by blast
qed

lemma draws_written: "display_ok s \<Longrightarrow> screen_written s s' \<Longrightarrow> draws s s'"
  using display_ok_terminal by (intro draws_screen [of s s' "terminal_num s"]) (auto simp: screen_written_def)

lemma kprintf_draws:
  assumes ok: "display_ok s" "message_room s" and msg: "text_line msg"
  shows "\<exists>s'. kprintf (msg @ [0x0A]) [] s = Some s' \<and> draws s s' \<and> screen_only s s'"
proof -
  have "cursor_ok s (terminal_num s)" using ok(1) display_ok_terminal by (simp add: display_ok_def)
  moreover have "render (msg @ [0x0A]) [] = Some (msg @ [0x0A])" using msg by (intro render_plain) (simp add: text_line_def)
  ultimately obtain s' where "kprintf (msg @ [0x0A]) [] s = Some s'" "screen_written s s'"
    using kprintf_line [of s "msg @ [0x0A]" "[]" msg] ok(2) msg by (auto simp: text_line_def)
  then show ?thesis using draws_written [OF ok(1)] by (auto simp: screen_written_def)
qed

section \<open>execute\<close>

definition max_message :: "u8 list" where
  "max_message = cbytes ''Maximum number of processes reached. Please exit shell. ''"

lemma max_message_line: "text_line max_message"
  by (simp add: max_message_def text_line_def cbytes_def)

text \<open>The three ways \<^verbatim>\<open>execute\<close> ends, whatever the command is.\<close>

lemma execute_start_shape:
  assumes i: "i < 6" and pg: "PDT s 33 = 0" and ex: "execute_start frame d larg start i s = Some (r, s')"
  shows "\<exists>eip na m. r = Entered eip 0x083FFFFF \<and> s' = started s i na m \<and> length na = length (args (pcbs s (int i))) \<and>
    only_frames {frame_of (int i)} s s'"
proof -
  let ?u = "load_state i s"
  have u: "PDT ?u 32 = prog_entry (int i)" "PDT ?u 33 = 0" "mem ?u = mem s"
    using pg by (simp_all add: load_state_def map_program_page_def flush_tlb_def prog_entry_def)
  obtain l where l: "load_loop (inode_number d) 0 ?u = Some l"
    using ex unfolding execute_start_def Let_def load_state_def [symmetric] by (auto split: Option.bind_splits)
  obtain m where m: "l = ?u\<lparr>mem := m\<rparr>" "only_frames {frame_of (int i)} ?u l"
    using load_loop_program_page [OF l u(1,2)] i by auto
  have "length na = length (args (pcbs s (int i)))"
    if "(if start then do { str \<leftarrow> strcpy (arr_ptr larg); astore (args (pcbs s (int i))) str } else Some (args (pcbs s (int i)))) = Some na" for na
    using that by (auto simp: astore_def split: if_splits Option.bind_splits)
  then obtain eip na where "r = Entered eip 0x083FFFFF" "s' = started s i na m" "length na = length (args (pcbs s (int i)))"
    using ex unfolding execute_start_loaded [OF i l [unfolded m(1)]] by (auto split: Option.bind_splits if_splits)
  moreover have "only_frames {frame_of (int i)} s (started s i na m)"
    using m(2) by (simp add: only_frames_def m(1) u(3) started_def)
  ultimately show ?thesis by blast
qed

lemma execute_shape:
  assumes ex: "execute frame cmd s = Some (r, s')" and pg: "PDT s 33 = 0"
  shows "(\<exists>v. r = Returned v \<and> s' = s\<lparr>iflag := True\<rparr>) \<or>
    (\<exists>u. r = Returned 0 \<and> find_pid s [0..<6] = None \<and> kprintf (max_message @ [0x0A]) [] (cli s) = Some u \<and> s' = sti u) \<or>
    (\<exists>eip i na m. r = Entered eip 0x083FFFFF \<and> find_pid s [0..<6] = Some i \<and> s' = started (cli s) i na m \<and>
       length na = length (args (pcbs s (int i))) \<and> only_frames {frame_of (int i)} s s')"
proof -
  have undo: "sti (cli s) = s\<lparr>iflag := True\<rparr>" by (simp add: sti_def cli_def)
  have start: "\<exists>eip na m. r = Entered eip 0x083FFFFF \<and> s' = started (cli s) i na m \<and> length na = length (args (pcbs s (int i))) \<and>
      only_frames {frame_of (int i)} s s'"
    if "find_pid (cli s) [0..<6] = Some i" "execute_start frame d larg start i (cli s) = Some (r, s')" for d larg start i
    using execute_start_shape [OF _ _ that(2)] find_pid_Some [OF that(1)] pg by (simp add: cli_def only_frames_def)
  have pid: "find_pid (cli s) [0..<6] = find_pid s [0..<6]" by (rule find_pid_cong) simp
  have "(\<exists>v. r = Returned v \<and> s' = s\<lparr>iflag := True\<rparr>) \<or>
      (\<exists>u. r = Returned 0 \<and> find_pid s [0..<6] = None \<and> kprintf (max_message @ [0x0A]) [] (cli s) = Some u \<and> s' = sti u) \<or>
      (\<exists>d larg start i. find_pid s [0..<6] = Some i \<and> execute_start frame d larg start i (cli s) = Some (r, s'))"
    using ex unfolding execute_def Let_def max_message_def [symmetric] undo pid
    by (auto split: option.splits Option.bind_splits if_splits)
  then show ?thesis using start [unfolded pid] by blast
qed

text \<open>What the invariant needs of a state in which another process runs.\<close>

definition device_state :: "kernel \<Rightarrow> _" where
  "device_state s = (char_buf s, command_buf s, buf_index s, shift_flag s, ctrl_flag s, alt_flag s, capslock_flag s, release_caps s,
     isAdd s, enter_flag s, screen_x s, screen_y s, video_mem s, PT0 s, PT1 s, PT0_addr s, PT1_addr s)"

lemma screens_ok_cong:
  assumes "screens_ok s" "terminal_num s' = terminal_num s" "device_state s' = device_state s"
  shows "screens_ok s'"
  using assms by (simp add: device_state_def screens_ok_def display_ok_def kbd_inv_def video_ok_def cursor_ok_def)

lemma paged_current:
  assumes "paged s" "PDT s' = (PDT s)(32 := prog_entry (current_pid s'))" "device_state s' = device_state s"
  shows "paged s'"
  using assms by (simp add: device_state_def paged_def tables_aligned_def)

lemma device_state_fields [simp]:
  "device_state (s\<lparr>terminal_num := t\<rparr>) = device_state s" "device_state (s\<lparr>iflag := i\<rparr>) = device_state s"
  "device_state (s\<lparr>outs := out\<rparr>) = device_state s" "device_state (s\<lparr>rtc_interrupt_occured := f\<rparr>) = device_state s"
  "device_state (s\<lparr>esp := x\<rparr>) = device_state s" "device_state (s\<lparr>ebp := x\<rparr>) = device_state s"
  "device_state (s\<lparr>tss_ss0 := x\<rparr>) = device_state s" "device_state (s\<lparr>tss_esp0 := x\<rparr>) = device_state s"
  "device_state (s\<lparr>pcbs := f'\<rparr>) = device_state s" "device_state (s\<lparr>pid_flags := g\<rparr>) = device_state s"
  "device_state (s\<lparr>current_pid := p\<rparr>) = device_state s" "device_state (s\<lparr>execute_pid := h\<rparr>) = device_state s"
  "device_state (s\<lparr>pit_terminal_num := t\<rparr>) = device_state s" "device_state (s\<lparr>terminals_initialized := v\<rparr>) = device_state s"
  "device_state (s\<lparr>PDT := e\<rparr>) = device_state s" "device_state (s\<lparr>cr3 := c\<rparr>) = device_state s" "device_state (s\<lparr>mem := m\<rparr>) = device_state s"
  by (simp_all add: device_state_def)

lemma device_state_ops [simp]:
  "device_state (cli s) = device_state s" "device_state (sti s) = device_state s" "device_state (outb b port s) = device_state s"
  "device_state (send_eoi n s) = device_state s" "device_state (update_cursor x y s) = device_state s"
  "device_state (map_program_page p s) = device_state s" "device_state (save_context s) = device_state s"
  by (simp_all add: cli_def sti_def outb_def send_eoi_def update_cursor_def map_program_page_def flush_tlb_def save_context_def
      set_cur_pcb_def set_pcb_def Let_def)

lemma next_task_PDT: "PDT (next_task s) = (PDT s)(32 := prog_entry (current_pid (next_task s)))"
  by (simp add: next_task_def Let_def map_program_page_def flush_tlb_def prog_entry_def)

lemma device_state_switched [simp]: "device_state (next_task s) = device_state s" "device_state (switched s) = device_state s"
  by (simp_all add: next_task_def Let_def switched_def)

lemma screens_ok_draws: "screens_ok s \<Longrightarrow> draws s s' \<Longrightarrow> screen_only s s' \<Longrightarrow> screens_ok s'"
  using kbd_inv_cong by (simp add: screens_ok_def draws_def)

section \<open>Steps of the tasks\<close>

text \<open>
  The abstract machine: whose turn it is and one stack of processes per terminal. A process starts a fresh one
  on top of itself, the process on top ends if it is not the shell, the turn goes round.
\<close>

inductive task_step :: "nat \<times> (nat \<Rightarrow> int list) \<Rightarrow> nat \<times> (nat \<Rightarrow> int list) \<Rightarrow> bool" where
  task_stay: "task_step (t, st) (t, st)"
| task_start: "0 \<le> p \<Longrightarrow> p < 6 \<Longrightarrow> p \<notin> set (all_tasks st) \<Longrightarrow> task_step (t, st) (t, st(t := p # st t))"
| task_end: "st t = p # q # ps \<Longrightarrow> task_step (t, st) (t, st(t := q # ps))"
| task_turn: "task_step (t, st) ((t + 1) mod 3, st)"

text \<open>What every operation of the running kernel does.\<close>

definition advances :: "dentry_t \<Rightarrow> (nat \<Rightarrow> int list) \<Rightarrow> kernel \<Rightarrow> (nat \<Rightarrow> int list) \<Rightarrow> kernel \<Rightarrow> bool" where
  "advances d st s st' s' \<longleftrightarrow> kernel_ok d st' s' \<and> task_step (pit_terminal_num s, st) (pit_terminal_num s', st')"

lemma tasks_range:
  assumes "tasks st s" "q \<in> set (all_tasks st)"
  shows "0 \<le> q \<and> q < 6 \<and> pid_flags s (nat q) \<noteq> 0"
  using assms tasksD(1) [OF assms(1)] chain_member unfolding set_all_tasks by meson

lemma kernel_okD:
  assumes "kernel_ok d st s"
  shows "screens_ok s" "paged s" "tasks st s" "installed s (cbytes ''shell'') d"
  using assms unfolding kernel_ok_def by blast+

lemma serves_advances:
  assumes "kernel_ok d st s" "serves s s'"
  shows "advances d st s st s'"
proof -
  note k = kernel_okD [OF assms(1)]
  have s': "keeps_tasks s s'" "only_frames {0, frame_of (current_pid s)} s s'" "screens_ok s'"
    using assms(2) unfolding serves_def by blast+
  have c: "0 \<le> current_pid s" "current_pid s < 6" using tasks_current(2,3) [OF k(3)] by blast+
  have "kernel_ok d st s'"
    using kernel_ok_cong [OF assms(1) s'(1,3,2)] frame_of_neq(2) [OF c] by fastforce
  then show ?thesis unfolding advances_def keeps_tasksD(4) [OF s'(1)] using task_stay by blast
qed

lemma draws_advances: "kernel_ok d st s \<Longrightarrow> draws s s' \<Longrightarrow> kbd_inv s' \<Longrightarrow> advances d st s st s'"
  using serves_advances serves_draws by blast

section \<open>A new process\<close>

lemma started_fields [simp]:
  "current_pid (started s i na m) = int i" "pid_flags (started s i na m) = (pid_flags s)(i := 1)"
  "pcbs (started s i na m) = (pcbs s)(int i := started_pcb s i na)" "mem (started s i na m) = m"
  "execute_pid (started s i na m) = (execute_pid s)(terminal_num s := int i)" "fs_start (started s i na m) = fs_start s"
  "pit_terminal_num (started s i na m) = pit_terminal_num s" "terminals_initialized (started s i na m) = terminals_initialized s"
  "PDT (started s i na m) = (PDT s)(32 := prog_entry (int i))" "tss_esp0 (started s i na m) = kstack (int i)"
  by (simp_all add: started_def kstack_def)

lemma started_pcb_fields [simp]:
  "tty (started_pcb s i na) = of_nat (terminal_num s)" "parent_id (started_pcb s i na) = word_of_int (current_pid s)"
  "args (started_pcb s i na) = na" "fds_ok (started_pcb s i na)" "parent_esp0 (started_pcb s i na) = tss_esp0 s"
  by (simp_all add: started_pcb_def new_fds_ok [of _ "pcbs s (int i)"])

lemma screens_ok_started: "screens_ok s \<Longrightarrow> screens_ok (started (cli s) i na m)"
  by (erule screens_ok_cong) (simp_all add: started_def cli_def)

lemma paged_started: "paged s \<Longrightarrow> paged (started (cli s) i na m)"
  by (erule paged_current) (simp_all add: started_def cli_def)

lemma cli_more [simp]:
  "execute_pid (cli s) = execute_pid s" "pit_terminal_num (cli s) = pit_terminal_num s" "terminals_initialized (cli s) = terminals_initialized s"
  "PDT (cli s) = PDT s" "tss_esp0 (cli s) = tss_esp0 s"
  by (simp_all add: cli_def)

lemma installed_started:
  assumes "installed s w d" "i < 6" "only_frames {frame_of (int i)} s (started (cli s) i na m)"
  shows "installed (started (cli s) i na m) w d"
  using installed_cong [OF assms(1) _ assms(3)] frame_of_neq(2) [of "int i"] assms(2) by simp

lemma start_advances:
  assumes ok: "kernel_ok d st s" and disp: "get_tty s = terminal_num s" and i: "find_pid s [0..<6] = Some i"
    and na: "length na = length (args (pcbs s (int i)))" and fr: "only_frames {frame_of (int i)} s (started (cli s) i na m)"
  shows "advances d st s (st(pit_terminal_num s := int i # st (pit_terminal_num s))) (started (cli s) i na m)"
proof -
  let ?t = "pit_terminal_num s" and ?s' = "started (cli s) i na m"
  note k = kernel_okD [OF ok]
  note cur = tasks_current [OF k(3)]
  have ip: "i < 6" "pid_flags s i = 0" using find_pid_Some [OF i] by auto
  have tn: "terminal_num s = ?t" using disp cur(5) by simp
  have new: "int i \<notin> set (all_tasks st)" using tasks_range [OF k(3), of "int i"] ip by auto
  have t3: "?t < 3" by (rule tasksD(5) [OF k(3)])
  have newt: "int i \<notin> set (st ?t)" using new t3 by (auto simp: set_all_tasks)
  have old: "chain ?s' ?t (st ?t)"
  proof (rule chain_cong [OF tasksD(1) [OF k(3) t3]])
    fix p assume "p \<in> set (st ?t)"
    then have "p \<noteq> int i" "0 \<le> p" using newt chain_member [OF tasksD(1) [OF k(3) t3]] by auto
    then show "same_task s ?s' p" by (auto simp: same_task_def)
  qed
  have ne: "st ?t \<noteq> []" "hd (st ?t) = current_pid s" using cur(1) by (metis list.discI, metis list.sel(1))
  have "tasks (st(?t := int i # st ?t)) ?s'"
  proof (rule tasks_update [OF k(3) refl])
    show "chain ?s' ?t (int i # st ?t)" using old ne ip(1) tasksD(9) [OF k(3)] by (simp add: tn)
    show "set (int i # st ?t) \<subseteq> - (set (all_tasks st) - set (st ?t))" using new by auto
    show "distinct (int i # st ?t)" using newt tasksD(3) [OF k(3)] t3 unfolding distinct_all_tasks by simp
    show "terminals_initialized ?s' = 0" using tasksD(7) [OF k(3)] by simp
    show "length (args (pcbs ?s' p)) = 128" for p using na tasksD(8) [OF k(3)] by simp
    show "int p \<in> set (int i # st ?t) \<or> int p \<in> set (all_tasks st) - set (st ?t)" if "p < 6" "pid_flags ?s' p \<noteq> 0" for p
      using that tasksD(4) [OF k(3) that(1)] by (auto split: if_splits)
    show "same_task s ?s' p \<and> sched_esp0 (pcbs ?s' p) = sched_esp0 (pcbs s p)" if "p \<in> set (all_tasks st) - set (st ?t)" for p
    proof -
      have "p \<noteq> int i" "0 \<le> p" using that new tasks_range [OF k(3), of p] by auto
      then show ?thesis by (auto simp: same_task_def)
    qed
  qed (simp_all add: tn)
  then have "kernel_ok d (st(?t := int i # st ?t)) ?s'"
    using screens_ok_started [OF k(1)] paged_started [OF k(2)] installed_started [OF k(4) ip(1) fr] unfolding kernel_ok_def by blast
  moreover have "task_step (?t, st) (?t, st(?t := int i # st ?t))" using ip(1) new by (intro task_start) auto
  ultimately show ?thesis by (simp add: advances_def)
qed

lemma execute_advances:
  assumes ok: "kernel_ok d st s" and disp: "get_tty s = terminal_num s" and room: "message_room s"
    and ex: "execute frame cmd s = Some (r, s')"
  shows "\<exists>st'. advances d st s st' s'"
proof -
  note k = kernel_okD [OF ok]
  have sc: "kbd_inv s" "display_ok s" using k(1) by (simp_all add: screens_ok_def)
  have "PDT s 33 = 0" using k(2) by (simp add: paged_def)
  from execute_shape [OF ex this] consider "s' = s\<lparr>iflag := True\<rparr>"
    | u where "kprintf (max_message @ [0x0A]) [] (cli s) = Some u" "s' = sti u"
    | i na m where "find_pid s [0..<6] = Some i" "s' = started (cli s) i na m"
      "length na = length (args (pcbs s (int i)))" "only_frames {frame_of (int i)} s s'"
    by blast
  then show ?thesis
  proof cases
    case 1
    have "serves s s'" using serves_ports [OF k(1), where x = "outs s" and i = True] by (simp add: 1)
    then show ?thesis using serves_advances [OF ok] by blast
  next
    case 2
    have c: "serves s (cli s)" using serves_ports [OF k(1), where x = "outs s" and i = False] by (simp add: cli_def)
    then have sc: "screens_ok (cli s)" by (simp add: serves_def)
    then have d: "display_ok (cli s)" "message_room (cli s)" using room by (simp_all add: screens_ok_def message_room_def cli_def)
    have u: "draws (cli s) u" "screen_only (cli s) u" using kprintf_draws [OF d max_message_line] 2(1) by auto
    then have su: "screens_ok u" by (rule screens_ok_draws [OF sc])
    then have "serves (cli s) u" using serves_draws [OF u(1)] by (simp add: screens_ok_def)
    moreover have "serves u s'" using serves_ports [OF su, where x = "outs u" and i = True] by (simp add: 2(2) sti_def)
    ultimately show ?thesis using serves_advances [OF ok] serves_trans c by blast
  next
    case 3
    then show ?thesis using start_advances [OF ok disp] by blast
  qed
qed

section \<open>The end of a process\<close>

lemma close_fds_fields [simp]:
  "tty (close_fds is p) = tty p" "parent_id (close_fds is p) = parent_id p" "args (close_fds is p) = args p"
  "parent_esp0 (close_fds is p) = parent_esp0 p" "sched_esp0 (close_fds is p) = sched_esp0 p"
  by (simp_all add: close_fds_def)

lemma fds_ok_return [simp]: "fds_ok (p\<lparr>return_value := v\<rparr>) = fds_ok p"
  by (simp add: fds_ok_def)

lemma tasks_ended:
  assumes st: "tasks st s" and top: "st (pit_terminal_num s) = p # q # ps"
  shows "tasks (st(pit_terminal_num s := q # ps)) (halted s p q status)"
proof -
  let ?t = "pit_terminal_num s" and ?s' = "halted s p q status"
  have t3: "?t < 3" by (rule tasksD(5) [OF st])
  have qs: "chain s ?t (q # ps)" and p0: "0 \<le> p" using tasksD(1) [OF st t3] unfolding top by auto
  have dp: "distinct (p # q # ps)" using tasksD(3) [OF st] t3 top unfolding distinct_all_tasks by metis
  have "tty (pcbs s q) = of_nat ?t" using qs by auto
  then have tty: "unat (tty (pcbs s q)) = ?t" using t3 by (auto simp: less_3)
  have keep: "same_task s ?s' x \<and> sched_esp0 (pcbs ?s' x) = sched_esp0 (pcbs s x)" if "x \<noteq> p" "0 \<le> x" for x
    using that p0 by (auto simp: halted_def same_task_def)
  show ?thesis
  proof (rule tasks_update [OF st refl])
    show "chain ?s' ?t (q # ps)"
    proof (rule chain_cong [OF qs])
      fix x assume "x \<in> set (q # ps)"
      then have "x \<noteq> p" "0 \<le> x" using dp chain_member [OF qs] by auto
      then show "same_task s ?s' x" using keep by blast
    qed
    show "set (q # ps) \<subseteq> - (set (all_tasks st) - set (st ?t))" using top by auto
    show "distinct (q # ps)" using dp by simp
    show "tss_esp0 ?s' = kstack (hd (q # ps))" using tasksD(1) [OF st t3] unfolding top by (simp add: halted_def)
    show "execute_pid ?s' = (execute_pid s)(?t := hd (q # ps))" by (simp add: halted_def tty)
    show "terminals_initialized ?s' = 0" using tasksD(7) [OF st] by (simp add: halted_def)
    show "length (args (pcbs ?s' x)) = 128" for x using tasksD(8) [OF st] by (simp add: halted_def)
    show "int x \<in> set (q # ps) \<or> int x \<in> set (all_tasks st) - set (st ?t)" if "x < 6" "pid_flags ?s' x \<noteq> 0" for x
    proof -
      have "int x \<noteq> p" "pid_flags s x \<noteq> 0" using that p0 by (auto simp: halted_def split: if_splits)
      then show ?thesis using tasksD(4) [OF st that(1)] top by auto
    qed
    fix x assume "x \<in> set (all_tasks st) - set (st ?t)"
    then have "x \<noteq> p" "0 \<le> x" using top tasks_range [OF st, of x] by auto
    then show "same_task s ?s' x \<and> sched_esp0 (pcbs ?s' x) = sched_esp0 (pcbs s x)" by (rule keep)
  qed (simp_all add: halted_def)
qed

lemma end_advances:
  assumes ok: "kernel_ok d st s" and top: "st (pit_terminal_num s) = p # q # ps"
  shows "halt_256 frame status s = Some (Returned (sint status), halted s p q status)"
    and "advances d st s (st(pit_terminal_num s := q # ps)) (halted s p q status)"
proof -
  let ?t = "pit_terminal_num s" and ?s' = "halted s p q status"
  note k = kernel_okD [OF ok]
  have t3: "?t < 3" by (rule tasksD(5) [OF k(3)])
  have p: "current_pid s = p" using tasks_current(1) [OF k(3)] top by simp
  have pr: "0 \<le> p" "p < 6" "parent_id (pcbs s p) = word_of_int q" "fds_ok (pcbs s p)" "0 \<le> q" "q < 6"
    using tasksD(1) [OF k(3) t3] unfolding top by auto
  have "q \<noteq> p" using tasksD(3) [OF k(3)] t3 top unfolding distinct_all_tasks by (metis distinct_length_2_or_more)
  then show "halt_256 frame status s = Some (Returned (sint status), ?s')"
    using halt_256_child [OF p pr(1-3,5,6) _ pr(4)] by blast
  have "screens_ok ?s'" using k(1) by (rule screens_ok_cong) (simp_all add: halted_def)
  moreover have "paged ?s'" using k(2) by (rule paged_current) (simp_all add: halted_def)
  moreover have "only_frames {} s ?s'" by (simp add: only_frames_def halted_def)
  ultimately have "kernel_ok d (st(?t := q # ps)) ?s'"
    using installed_cong [OF k(4), of ?s' "{}"] tasks_ended [OF k(3) top]
    by (simp add: kernel_ok_def halted_def only_frames_def)
  moreover have "task_step (?t, st) (?t, st(?t := q # ps))" using task_end [of st ?t] top by blast
  ultimately show "advances d st s (st(?t := q # ps)) ?s'" by (simp add: advances_def halted_def)
qed

text \<open>A shell that halts is started again in its place.\<close>

definition ended_shell :: "u32 \<Rightarrow> kernel \<Rightarrow> kernel" where
  "ended_shell status s = s\<lparr>pcbs := (pcbs s)(current_pid s := close_fds [0..<8] ((cur_pcb s)\<lparr>return_value := status\<rparr>)),
     pid_flags := (pid_flags s)(nat (current_pid s) := 0)\<rparr>"

lemma halt_256_shell:
  assumes p: "current_pid s = p" "0 \<le> p" "p < 6" and par: "parent_id (pcbs s p) = word_of_int p" and fds: "fds_ok (pcbs s p)"
  shows "halt_256 frame status s =
    do { (r, s') \<leftarrow> execute frame (Some (arr_ptr (cbytes ''shell'' @ [0]))) (ended_shell status s);
         case r of Entered ip sp \<Rightarrow> Some (Entered ip sp, s') | Returned v \<Rightarrow> resume_parent p s' }"
proof -
  define v where "v = set_pcb p ((pcbs s p)\<lparr>return_value := status\<rparr>) s"
  have v: "cur_pcb v = (pcbs s p)\<lparr>return_value := status\<rparr>" "current_pid v = p"
    by (simp_all add: v_def cur_pcb_def set_pcb_def p(1))
  have cl: "close_all [0..<8] v = Some (set_cur_pcb (close_fds [0..<8] (cur_pcb v)) v)"
    using fds v(1) by (intro close_all_eq) simp
  have u: "(set_cur_pcb (close_fds [0..<8] (cur_pcb v)) v)\<lparr>pid_flags := (pid_flags v)(nat p := 0)\<rparr> = ended_shell status s"
    by (simp add: ended_shell_def v_def set_cur_pcb_def set_pcb_def cur_pcb_def p(1))
  have "parent_id (pcbs (ended_shell status s) p) = word_of_int p" by (simp add: ended_shell_def cur_pcb_def p(1) par)
  then show ?thesis
    unfolding halt_256_def Let_def p(1) par sint_pid [OF p(2,3)] v_def [symmetric] cl Option.bind_lunit
    using u v(2) by (simp add: set_cur_pcb_def set_pcb_def ended_shell_def p(1))
qed

lemma ended_shell_fields [simp]:
  "mem (ended_shell status s) = mem s" "fs_start (ended_shell status s) = fs_start s" "current_pid (ended_shell status s) = current_pid s"
  "terminal_num (ended_shell status s) = terminal_num s" "execute_pid (ended_shell status s) = execute_pid s"
  "pit_terminal_num (ended_shell status s) = pit_terminal_num s" "terminals_initialized (ended_shell status s) = terminals_initialized s"
  "pid_flags (ended_shell status s) = (pid_flags s)(nat (current_pid s) := 0)" "args (pcbs (ended_shell status s) x) = args (pcbs s x)"
  "x \<noteq> current_pid s \<Longrightarrow> pcbs (ended_shell status s) x = pcbs s x"
  by (simp_all add: ended_shell_def cur_pcb_def)

lemma tasks_restarted:
  assumes st: "tasks st s" and top: "st (pit_terminal_num s) = [int t]" and t: "t = pit_terminal_num s" "terminal_num s = t"
    and na: "length na = 128"
  shows "tasks st (started (cli (ended_shell status s)) t na m)" (is "tasks st ?s'")
proof -
  have t3: "t < 3" using tasksD(5) [OF st] t(1) by simp
  have cur: "current_pid s = int t" using tasks_current(1) [OF st] top by simp
  have "tasks (st(t := [int t])) ?s'"
  proof (rule tasks_update [OF st t(1)])
    show "chain ?s' t [int t]" using t3 by (simp add: t(2) cur)
    show "set [int t] \<subseteq> - (set (all_tasks st) - set (st t))" using top t(1) by auto
    show "terminals_initialized ?s' = 0" using tasksD(7) [OF st] by simp
    show "length (args (pcbs ?s' x)) = 128" for x using tasksD(8) [OF st] na by simp
    show "int x \<in> set [int t] \<or> int x \<in> set (all_tasks st) - set (st t)" if "x < 6" "pid_flags ?s' x \<noteq> 0" for x
      using that tasksD(4) [OF st that(1)] top t(1) by (auto simp: cur split: if_splits)
    fix x assume "x \<in> set (all_tasks st) - set (st t)"
    then have "x \<noteq> int t" "0 \<le> x" using top t(1) tasks_range [OF st, of x] by auto
    then show "same_task s ?s' x \<and> sched_esp0 (pcbs ?s' x) = sched_esp0 (pcbs s x)" by (auto simp: cur same_task_def)
  qed (simp_all add: t cur)
  moreover have "st(t := [int t]) = st" using top t(1) by auto
  ultimately show ?thesis by simp
qed

lemma shell_restarts:
  assumes ok: "kernel_ok d st s" and top: "st (pit_terminal_num s) = [p]" and disp: "get_tty s = terminal_num s"
    and frame: "frame_ok frame"
  shows "\<exists>eip s'. halt_256 frame status s = Some (Entered eip 0x083FFFFF, s') \<and> advances d st s st s'"
proof -
  let ?t = "pit_terminal_num s" and ?u = "ended_shell status s"
  note k = kernel_okD [OF ok]
  have t3: "?t < 3" by (rule tasksD(5) [OF k(3)])
  have tn: "terminal_num s = ?t" using disp tasks_current(5) [OF k(3)] by simp
  have p: "p = int ?t" "current_pid s = int ?t" "parent_id (pcbs s (int ?t)) = of_nat ?t" "fds_ok (pcbs s (int ?t))"
    using tasksD(1) [OF k(3) t3] tasks_current(1) [OF k(3)] unfolding top by auto
  have inst: "installed ?u (cbytes ''shell'') d" using installed_cong [OF k(4), of ?u "{}"] by (simp add: only_frames_def)
  have pid: "find_pid ?u [0..<6] = Some ?t"
    using t3 tasks_shells(1) [OF k(3)] by (intro find_first_pid) (auto simp: p(2))
  let ?s' = "\<lambda>m. started (cli ?u) ?t (args (pcbs s (int ?t))) m"
  obtain eip m where ex: "execute frame (Some (arr_ptr (cbytes ''shell'' @ [0]))) ?u = Some (Entered eip 0x083FFFFF, ?s' m)"
      and m: "\<forall>a. drop_bit 22 a \<noteq> word_of_int (2 + int ?t) \<longrightarrow> m a = mem s a"
    using execute_starts [OF shell_command frame _ _ pid in_kernel_page_image] inst t3 tasksD(8) [OF k(3)] by (auto simp: installed_def)
  have fr: "only_frames {frame_of (int ?t)} ?u (?s' m)" using m by (simp add: only_frames_def frame_of_def)
  have "tasks st (?s' m)" using tasks_restarted [OF k(3) _ refl tn] top p(1) tasksD(8) [OF k(3)] by simp
  moreover have "screens_ok ?u" using k(1) by (rule screens_ok_cong) (simp_all add: ended_shell_def)
  moreover have "paged (?s' m)"
    using k(2) by (rule paged_current) (simp_all add: started_def cli_def ended_shell_def)
  ultimately have "kernel_ok d st (?s' m)"
    using screens_ok_started installed_started [OF inst _ fr] t3 unfolding kernel_ok_def by simp
  then have "advances d st s st (?s' m)" using task_stay by (simp add: advances_def)
  then show ?thesis using halt_256_shell [OF p(2) _ _ _ p(4), of frame status] p(3) ex t3 by auto
qed

lemma halt_256_advances:
  assumes ok: "kernel_ok d st s" and disp: "tl (st (pit_terminal_num s)) = [] \<Longrightarrow> get_tty s = terminal_num s" and frame: "frame_ok frame"
  shows "\<exists>r s' st'. halt_256 frame status s = Some (r, s') \<and> advances d st s st' s'"
proof (cases "tl (st (pit_terminal_num s))")
  case Nil
  then have "st (pit_terminal_num s) = [current_pid s]" using tasks_current(1) [OF kernel_okD(3) [OF ok]] by simp
  then show ?thesis using shell_restarts [OF ok _ disp frame] Nil by blast
next
  case (Cons q ps)
  then have "st (pit_terminal_num s) = current_pid s # q # ps" using tasks_current(1) [OF kernel_okD(3) [OF ok]] by simp
  then show ?thesis using end_advances [OF ok] by blast
qed


lemma serves_then_advances:
  assumes ok: "kernel_ok d st s" and first: "serves s u" and adv: "advances d st u st' s'"
  shows "advances d st s st' s'"
proof -
  have k: "keeps_tasks s u" using first unfolding serves_def by blast
  show ?thesis using adv unfolding advances_def keeps_tasksD(4) [OF k] by blast
qed

text \<open>An exception ends the process the same way, after its message.\<close>

lemma exception_advances:
  assumes ok: "kernel_ok d st s" and disp: "tl (st (pit_terminal_num s)) = [] \<Longrightarrow> get_tty s = terminal_num s" and frame: "frame_ok frame"
    and room: "message_room s" and n: "n < 20"
  shows "\<exists>r s' st'. (exception_handlers ! n) frame s = Some (r, s') \<and> advances d st s st' s'"
proof -
  note k = kernel_okD [OF ok]
  obtain msg where h: "exception_handlers ! n = exception_exit (msg @ [0x0A])" "text_line msg"
    using exception_message [OF n] by blast
  have dk: "display_ok s" using k(1) by (simp add: screens_ok_def)
  obtain t where t: "kprintf (msg @ [0x0A]) [] s = Some t" "draws s t" "screen_only s t"
    using kprintf_draws [OF dk room h(2)] by blast
  have st: "screens_ok t" by (rule screens_ok_draws [OF k(1) t(2,3)])
  have "serves s t" using serves_draws [OF t(2)] st by (simp add: screens_ok_def)
  moreover have "serves t (sti t)" using serves_ports [OF st, where x = "outs t" and i = True] by (simp add: sti_def)
  ultimately have s: "serves s (sti t)" by (rule serves_trans)
  then have kt: "kernel_ok d st (sti t)" "keeps_tasks s (sti t)"
    using serves_advances [OF ok s] unfolding advances_def serves_def by blast+
  have "get_tty (sti t) = get_tty s" "terminal_num (sti t) = terminal_num s"
    using screen_onlyD(1,13,14) [OF t(3)] by (simp_all add: get_tty_def cur_pcb_def)
  then obtain r s' st' where "halt_256 frame 256 (sti t) = Some (r, s')" "advances d st (sti t) st' s'"
    using halt_256_advances [OF kt(1) _ frame, of 256] disp keeps_tasksD(4) [OF kt(2)] by auto
  then show ?thesis using serves_then_advances [OF ok s] t(1) h(1) by (auto simp: exception_exit_def)
qed

section \<open>A tick of the timer\<close>

lemma save_context_pcb [simp]:
  "tty (pcbs (save_context s) p) = tty (pcbs s p)" "parent_id (pcbs (save_context s) p) = parent_id (pcbs s p)"
  "args (pcbs (save_context s) p) = args (pcbs s p)" "fds_ok (pcbs (save_context s) p) = fds_ok (pcbs s p)"
  "parent_esp0 (pcbs (save_context s) p) = parent_esp0 (pcbs s p)"
  "sched_esp0 (pcbs (save_context s) p) = (if p = current_pid s then tss_esp0 s else sched_esp0 (pcbs s p))"
  by (simp_all add: save_context_pcbs cur_pcb_def fds_ok_def)

lemma switched_screen:
  assumes "terminals_initialized s = 0"
  shows "screens_ok s \<Longrightarrow> screens_ok (switched s)" "paged s \<Longrightarrow> paged (switched s)"
    "terminals_initialized (switched s) = 0" "fs_start (switched s) = fs_start s"
proof -
  note d = switched_def next_task_def Let_def map_program_page_def flush_tlb_def update_cursor_def outb_def sti_def
    save_context_def set_cur_pcb_def set_pcb_def
  show "screens_ok (switched s)" if "screens_ok s"
    using that by (rule screens_ok_cong) (simp_all, simp add: d assms)
  show "paged (switched s)" if "paged s"
    using that by (rule paged_current) (simp_all add: switched_def next_task_PDT save_context_def set_cur_pcb_def set_pcb_def)
  show "terminals_initialized (switched s) = 0" "fs_start (switched s) = fs_start s" by (simp_all add: d assms)
qed

lemma tasks_switched:
  assumes st: "tasks st s"
  shows "tasks st (switched s)"
proof -
  have pcbs: "pcbs (switched s) = pcbs (save_context s)" by (simp add: switched_def)
  have "chain (switched s) t (st t)" if "t < 3" for t
    by (rule chain_cong [OF tasksD(1) [OF st that]]) (simp add: pcbs same_task_def)
  moreover have cur: "current_pid (switched s) = execute_pid (switched s) (pit_terminal_num (switched s))"
    by (simp add: switched_current(1))
  moreover have top: "sched_esp0 (pcbs (switched s) (hd (st u))) = kstack (hd (st u))" if "u < 3" for u
    using tasksD(6,9) [OF st] tasksD(10) [OF st that] by (auto simp: pcbs)
  moreover have "tss_esp0 (switched s) = kstack (current_pid (switched s))"
  proof -
    have "tss_esp0 (switched s) = sched_esp0 (pcbs (switched s) (current_pid (switched s)))"
      using switched_current(2) [of s] by (simp add: context_of_def saved_context_def)
    then show ?thesis using cur top tasksD(2) [OF st] by simp
  qed
  ultimately show ?thesis
    using switched_screen(3) [OF tasksD(7) [OF st]] tasksD(2-8) [OF st] unfolding tasks_def by (simp add: pcbs)
qed

lemma tick_advances:
  assumes ok: "kernel_ok d st s"
  shows "\<exists>s'. P_handler_wrapper frames s = Some (Resumed, s') \<and> advances d st s st s'"
proof -
  let ?u = "send_eoi 0 (s\<lparr>iflag := False\<rparr>)"
  have k1: "screens_ok s" by (rule kernel_okD(1) [OF ok])
  have u: "?u = s\<lparr>outs := outs ?u, iflag := False\<rparr>" by (simp add: send_eoi_def outb_def)
  have s: "serves s ?u" using serves_ports [OF k1, where x = "outs ?u" and i = False] u by simp
  then have ku: "kernel_ok d st ?u" using serves_advances [OF ok s] unfolding advances_def by blast
  note k = kernel_okD [OF ku]
  let ?v = "switched ?u"
  note sw = switched_screen [OF tasksD(7) [OF k(3)]]
  have "installed ?v (cbytes ''shell'') d" using installed_cong [OF k(4), of ?v "{}"] sw(4) by (simp add: only_frames_def)
  then have kv: "kernel_ok d st ?v" using sw(1) [OF k(1)] sw(2) [OF k(2)] tasks_switched [OF k(3)] unfolding kernel_ok_def by blast
  have "serves ?v (?v\<lparr>iflag := True\<rparr>)" using serves_ports [OF sw(1) [OF k(1)], where x = "outs ?v" and i = True] by simp
  from serves_advances [OF kv this] have kw: "kernel_ok d st (?v\<lparr>iflag := True\<rparr>)" unfolding advances_def by blast
  have "advances d st ?u st (?v\<lparr>iflag := True\<rparr>)"
    using kw task_turn [of "pit_terminal_num ?u" st] by (simp add: advances_def)
  then have "advances d st s st (?v\<lparr>iflag := True\<rparr>)" by (rule serves_then_advances [OF ok s])
  then show ?thesis
    using task_switch_running [OF tasks_shells(2) [OF k(3)]] by (simp add: P_handler_wrapper_def PIT_handler_def)
qed

end
