(* ===== verification/Kernel_Memory.thy ===== *)
theory Kernel_Memory
  imports Kernel_Tasks
begin

text \<open>
  The memory an operation may change, in any state with the invariant and without the conditions under
  which the operation keeps it: the low 4 MB with the screens, the frame of the running process, the frames of
  no process, and the buffer the caller names.
\<close>

section \<open>Frames nobody else uses\<close>

definition own_frames :: "kernel \<Rightarrow> u32 set" where
  "own_frames s = insert 0 (frame_of ` {p. 0 \<le> p \<and> p < 6 \<and> (p = current_pid s \<or> pid_flags s (nat p) = 0)})"

lemma own_frames_others:
  assumes "drop_bit 22 a = 1 \<or> (\<exists>q < 6. pid_flags s q \<noteq> 0 \<and> int q \<noteq> current_pid s \<and> drop_bit 22 a = frame_of (int q))"
  shows "drop_bit 22 a \<notin> own_frames s"
proof -
  have "drop_bit 22 a \<noteq> frame_of p" if p: "0 \<le> p" "p < 6" "p = current_pid s \<or> pid_flags s (nat p) = 0" for p
    using assms
  proof (elim disjE exE conjE)
    fix q assume q: "q < 6" "pid_flags s q \<noteq> 0" "int q \<noteq> current_pid s" "drop_bit 22 a = frame_of (int q)"
    then have "p \<noteq> int q" using p(3) by auto
    then show ?thesis using frame_of_neq(3) [OF p(1,2), of "int q"] q(1,4) by simp
  qed (use frame_of_neq(2) [OF p(1,2)] in simp)
  moreover have "drop_bit 22 a \<noteq> 0" using assms frame_of_neq(1) [of "int _"] by fastforce
  ultimately show ?thesis unfolding own_frames_def by blast
qed

lemma own_frames_simps:
  "0 \<in> own_frames s"
  "0 \<le> current_pid s \<Longrightarrow> current_pid s < 6 \<Longrightarrow> frame_of (current_pid s) \<in> own_frames s"
  "i < 6 \<Longrightarrow> pid_flags s i = 0 \<Longrightarrow> frame_of (int i) \<in> own_frames s"
  by (auto simp: own_frames_def)

lemma own_frames_cong: "current_pid s' = current_pid s \<Longrightarrow> pid_flags s' = pid_flags s \<Longrightarrow> own_frames s' = own_frames s"
  by (simp add: own_frames_def)

lemma only_own_trans:
  "only_frames (own_frames s) s s' \<Longrightarrow> only_frames (own_frames s') s' s'' \<Longrightarrow> own_frames s' \<subseteq> own_frames s \<Longrightarrow>
   only_frames (own_frames s) s s''"
  using only_frames_trans only_frames_mono by blast

lemma serves_own: "serves s s' \<Longrightarrow> 0 \<le> current_pid s \<Longrightarrow> current_pid s < 6 \<Longrightarrow> only_frames (own_frames s) s s'"
  using only_frames_mono own_frames_simps(1,2) unfolding serves_def by blast

section \<open>Messages of the kernel\<close>

text \<open>The characters of a message stay on the screen wherever it starts; only its newline may move the cursor below.\<close>

lemma out_text_confined:
  assumes "cursor_ok s (terminal_num s)" "0x0A \<notin> set xs" "0x0D \<notin> set xs"
  shows "confined (video_mem s (terminal_num s)) (mem s) (mem (out_text xs s)) \<and> screen_only s (out_text xs s)"
  using assms
proof (induction xs arbitrary: s)
  case (Cons c xs)
  let ?t = "terminal_num s"
  have "cursor_ok (putc c s) ?t"
    using putc_screen_xy [OF Cons.prems(1), of c] Cons.prems by (simp add: cursor_ok_def)
  then have "confined (video_mem s ?t) (mem (putc c s)) (mem (out_text xs (putc c s))) \<and> screen_only (putc c s) (out_text xs (putc c s))"
    using Cons.IH [of "putc c s"] Cons.prems by simp
  then show ?case
    using confined_trans [OF putc_confined [OF Cons.prems(1)]] screen_only_trans [OF screen_only_putc] unfolding out_text_def fold_simps
    by blast
qed (simp add: out_text_def)

lemma kprintf_confined:
  assumes cu: "cursor_ok s (terminal_num s)" and msg: "text_line msg"
  shows "\<exists>s'. kprintf (msg @ [0x0A]) [] s = Some s' \<and> confined (video_mem s (terminal_num s)) (mem s) (mem s') \<and> screen_only s s'"
proof -
  define u where "u = (if check_out_of_bound s \<noteq> 0 then scroll_screen s else s)"
  have u: "confined (video_mem s (terminal_num s)) (mem s) (mem u)" "screen_only s u" "terminal_num u = terminal_num s"
      "video_mem u = video_mem s" "cursor_ok u (terminal_num s)"
    using cu scroll_confined [of s] screen_only_scroll [of s]
    by (auto simp: u_def scroll_screen_eq cursor_ok_def check_out_of_bound_def Let_def split: if_splits)
  have m: "0 \<notin> set (msg @ [0x0A])" "0x25 \<notin> set (msg @ [0x0A])" "length (msg @ [0x0A]) < 4294967296"
    using msg by (auto simp: text_line_def)
  have "kprintf (msg @ [0x0A]) [] s = Some (out_text (msg @ [0x0A]) u)"
    using printf_render [OF cstr_arr_ptr [OF m(1,3)] render_plain [OF m(2)], of "[]" "[]" s] by (simp add: kprintf_def u_def)
  moreover have "out_text (msg @ [0x0A]) u = putc 0x0A (out_text msg u)" by (simp add: out_text_def)
  moreover have "confined (video_mem s (terminal_num s)) (mem u) (mem (out_text msg u)) \<and> screen_only u (out_text msg u)"
    using out_text_confined [of u msg] u msg by (simp add: text_line_def)
  moreover have "mem (putc 0x0A v) = mem v" for v by (simp add: putc_newline)
  ultimately show ?thesis
    using confined_trans [OF u(1)] screen_only_trans [OF u(2) screen_only_trans [OF _ screen_only_putc]] by auto
qed

lemma kprintf_low:
  assumes "display_ok s" "text_line msg" "kprintf (msg @ [0x0A]) [] s = Some s'"
  shows "only_frames {0} s s'" "screen_only s s'"
  using kprintf_confined [OF _ assms(2), of s] assms(1,3) confined_only_frames [of s "terminal_num s" s'] display_ok_terminal [OF assms(1)]
  by (auto simp: display_ok_def)

section \<open>Starting and ending programs\<close>

lemma execute_own:
  assumes dk: "display_ok s" and pg: "PDT s 33 = 0" and ex: "execute frame cmd s = Some (r, s')"
  shows "only_frames (own_frames s) s s'"
proof -
  have c: "display_ok (cli s)" using dk by (simp add: display_ok_def video_ok_def cursor_ok_def cli_def)
  from execute_shape [OF ex pg] consider "s' = s\<lparr>iflag := True\<rparr>"
    | u where "kprintf (max_message @ [0x0A]) [] (cli s) = Some u" "s' = sti u"
    | i where "find_pid s [0..<6] = Some i" "only_frames {frame_of (int i)} s s'"
    by blast
  then show ?thesis
  proof cases
    case 2
    then have "only_frames {0} s s'" using kprintf_low(1) [OF c max_message_line] by (simp add: only_frames_def cli_def sti_def)
    then show ?thesis using only_frames_mono own_frames_simps(1) by blast
  next
    case 3
    then show ?thesis using only_frames_mono [OF 3(2)] own_frames_simps(3) [of i s] find_pid_Some [OF 3(1)] by auto
  qed (simp add: only_frames_def)
qed

lemma resume_parent_mem: "resume_parent p s = Some (r, s') \<Longrightarrow> mem s' = mem s"
  by (auto simp: resume_parent_def Let_def map_program_page_def flush_tlb_def)

lemma halt_own:
  assumes st: "tasks st s" and pg: "PDT s 33 = 0" and h: "halt_256 frame status s = Some (r, s')"
  shows "only_frames (own_frames s) s s'"
proof -
  let ?t = "pit_terminal_num s" and ?p = "current_pid s"
  note cur = tasks_current [OF st]
  have ch: "chain s ?t (?p # tl (st ?t))" using tasksD(1) [OF st tasksD(5) [OF st]] cur(1) by simp
  show ?thesis
  proof (cases "tl (st ?t)")
    case (Cons q ps)
    then have q: "parent_id (pcbs s ?p) = word_of_int q" "0 \<le> q" "q < 6" "fds_ok (pcbs s ?p)" using ch by auto
    have "distinct (?p # q # ps)" using tasksD(3,5) [OF st] cur(1) Cons unfolding distinct_all_tasks by metis
    then have "s' = halted s ?p q status" using halt_256_child [OF refl cur(2,3) q(1-3) _ q(4)] h by auto
    then show ?thesis by (simp add: only_frames_def halted_def)
  next
    case Nil
    then have p: "parent_id (pcbs s ?p) = word_of_int ?p" "fds_ok (pcbs s ?p)" using ch by auto
    let ?u = "ended_shell status s"
    obtain r' u where ex: "execute frame (Some (arr_ptr (cbytes ''shell'' @ [0]))) ?u = Some (r', u)"
        and s': "mem s' = mem u"
      using h resume_parent_mem unfolding halt_256_shell [OF refl cur(2,3) p]
      by (auto split: Option.bind_splits outcome.splits)
    have "pid_flags ?u (nat ?p) = 0" by simp
    then have "find_pid ?u [0..<6] \<noteq> None" using find_pid_None [of ?u "[0..<6]"] cur(2,3) by fastforce
    moreover have "PDT ?u 33 = 0" using pg by (simp add: ended_shell_def)
    ultimately consider "mem u = mem ?u" | i where "find_pid ?u [0..<6] = Some i" "only_frames {frame_of (int i)} ?u u"
      using execute_shape [OF ex] by auto
    then have "only_frames (own_frames ?u) ?u u"
      using own_frames_simps(3) [of _ ?u] find_pid_Some [of ?u "[0..<6]"] only_frames_mono only_frames_refl by cases auto
    moreover have "own_frames ?u \<subseteq> own_frames s"
      unfolding own_frames_def by (intro insert_mono image_mono) (use cur(2) in \<open>auto split: if_splits\<close>)
    ultimately have "only_frames (own_frames s) ?u u" by (rule only_frames_mono)
    then show ?thesis by (simp add: only_frames_def s')
  qed
qed

lemma exception_own:
  assumes dk: "display_ok s" and st: "tasks st s" and pg: "paged s" and n: "n < 20"
    and h: "(exception_handlers ! n) frame s = Some (r, s')"
  shows "only_frames (own_frames s) s s'"
proof -
  obtain msg where m: "exception_handlers ! n = exception_exit (msg @ [0x0A])" "text_line msg"
    using exception_message [OF n] by blast
  obtain t where t: "kprintf (msg @ [0x0A]) [] s = Some t" "halt_256 frame 256 (sti t) = Some (r, s')"
    using h by (auto simp: m(1) exception_exit_def split: Option.bind_splits)
  note low = kprintf_low [OF dk m(2) t(1)]
  have k: "keeps_tasks s (sti t)" using low(2) by (auto simp: screen_only_def keeps_tasks_def sti_def)
  have "PDT (sti t) 33 = 0" using paged_cong [OF pg k] by (simp add: paged_def)
  then have "only_frames (own_frames (sti t)) (sti t) s'" using halt_own [OF tasks_cong [OF st k] _ t(2)] by blast
  moreover have "only_frames (own_frames s) s (sti t)"
    using only_frames_mono [OF low(1), of "own_frames s"] own_frames_simps(1) [of s] by (simp add: only_frames_def sti_def)
  moreover have "own_frames (sti t) = own_frames s" using keeps_tasksD(1,2) [OF k] by (rule own_frames_cong)
  ultimately show ?thesis using only_own_trans by blast
qed

section \<open>Ticks\<close>

lemma tick_memory:
  assumes st: "tasks st s" and p: "P_handler_wrapper frames s = Some (r, s')"
  shows "mem s' = mem s"
proof -
  let ?u = "send_eoi 0 (s\<lparr>iflag := False\<rparr>)"
  have "shells_running ?u" using tasks_shells(2) [OF st] by (simp add: shells_running_def send_eoi_def outb_def)
  then have "s' = (switched ?u)\<lparr>iflag := True\<rparr>"
    using p task_switch_running by (simp add: P_handler_wrapper_def PIT_handler_def)
  then show ?thesis by (simp add: send_eoi_def outb_def)
qed

end
