(* ===== verification/Kernel_Run.thy ===== *)
theory Kernel_Run
  imports Kernel_Memory
begin

text \<open>
  The running system as a machine that takes one event at a time: interrupts of the keyboard, the clock and the timer,
  system calls, exceptions and stores of user code, in any order. \<open>step\<close> is defined for every event; \<open>event_ok\<close> states,
  apart from it, the conditions under which an event keeps the invariant of the kernel. Runs of admissible events keep the
  invariant and follow the abstract machine of tasks. No event at all changes the memory of another process or of
  the file system, except where a process names a buffer there.
\<close>

section \<open>Runs\<close>

fun run :: "('e \<Rightarrow> 's \<Rightarrow> 's option) \<Rightarrow> 'e list \<Rightarrow> 's \<Rightarrow> 's option" where
  "run step [] s = Some s"
| "run step (e # es) s = Option.bind (step e s) (run step es)"

text \<open>Every event of the run satisfies \<open>ok\<close> in the state in which it happens.\<close>

fun admissible :: "('e \<Rightarrow> 's \<Rightarrow> bool) \<Rightarrow> ('e \<Rightarrow> 's \<Rightarrow> 's option) \<Rightarrow> 'e list \<Rightarrow> 's \<Rightarrow> bool" where
  "admissible ok step [] s = True"
| "admissible ok step (e # es) s = (ok e s \<and> (case step e s of None \<Rightarrow> True | Some s' \<Rightarrow> admissible ok step es s'))"

lemma run_append: "run step (es @ fs) s = Option.bind (run step es s) (run step fs)"
  by (induction es arbitrary: s) (auto split: Option.bind_splits)

lemma admissible_append:
  "admissible ok step (es @ fs) s \<longleftrightarrow>
    admissible ok step es s \<and> (case run step es s of None \<Rightarrow> True | Some s' \<Rightarrow> admissible ok step fs s')"
  by (induction es arbitrary: s) (auto split: option.splits)

text \<open>Invariants and refinements that hold step by step hold for runs.\<close>

locale stepwise =
  fixes step :: "'e \<Rightarrow> 's \<Rightarrow> 's option" and ok :: "'e \<Rightarrow> 's \<Rightarrow> bool" and inv :: "'s \<Rightarrow> bool"
  assumes step_inv: "inv s \<Longrightarrow> ok e s \<Longrightarrow> step e s = Some s' \<Longrightarrow> inv s'"
begin

lemma run_inv: "inv s \<Longrightarrow> admissible ok step es s \<Longrightarrow> run step es s = Some s' \<Longrightarrow> inv s'"
  by (induction es arbitrary: s) (auto dest: step_inv split: Option.bind_splits)

end

locale refinement =
  fixes step :: "'e \<Rightarrow> 's \<Rightarrow> 's option" and ok :: "'e \<Rightarrow> 's \<Rightarrow> bool" and abs :: "'s \<Rightarrow> 'a \<Rightarrow> bool" and astep :: "'a \<Rightarrow> 'a \<Rightarrow> bool"
  assumes step_refines: "abs s a \<Longrightarrow> ok e s \<Longrightarrow> step e s = Some s' \<Longrightarrow> \<exists>a'. abs s' a' \<and> astep a a'"
begin

lemma run_refines:
  "abs s a \<Longrightarrow> admissible ok step es s \<Longrightarrow> run step es s = Some s' \<Longrightarrow> \<exists>a'. abs s' a' \<and> astep\<^sup>*\<^sup>* a a'"
proof (induction es arbitrary: s a)
  case (Cons e es)
  then obtain u where u: "ok e s" "step e s = Some u" "admissible ok step es u" "run step es u = Some s'"
    by (auto split: Option.bind_splits)
  obtain b where b: "abs u b" "astep a b" using step_refines [OF Cons.prems(1) u(1,2)] by blast
  then show ?case using Cons.IH [OF b(1) u(3,4)] by (meson converse_rtranclp_into_rtranclp)
qed auto

end

sublocale refinement \<subseteq> stepwise step ok "\<lambda>s. \<exists>a. abs s a"
proof
  show "\<exists>a. abs s' a" if "\<exists>a. abs s a" "ok e s" "step e s = Some s'" for s e s'
    using that step_refines by meson
qed

section \<open>Blocking reads\<close>

text \<open>
  While \<^verbatim>\<open>terminal_read\<close> and \<^verbatim>\<open>read_RTC\<close> wait, other processes run. The two halves of a read are steps of
  their own; between them any other step may happen.
\<close>

definition read_begin :: "kernel \<Rightarrow> kernel" where
  "read_begin s = s\<lparr>t_enter_flag := (t_enter_flag s)(get_tty s := 0),
     command_buf := (command_buf s)(get_tty s := (command_buf s (get_tty s))[0 := 0])\<rparr>"

definition read_end :: "u32 \<Rightarrow> kernel \<Rightarrow> (int \<times> kernel) option" where
  "read_end buf s =
     (if t_enter_flag s (get_tty s) = 0 then None
      else do { bytes \<leftarrow> read_line (command_buf s (get_tty s));
                s \<leftarrow> poke_bytes buf bytes s; Some (int (length bytes), s) })"

definition rtc_begin :: "kernel \<Rightarrow> kernel" where
  "rtc_begin s = s\<lparr>rtc_interrupt_occured := (rtc_interrupt_occured s)(get_tty s := 1)\<rparr>"

lemma terminal_read_halves:
  assumes "buf \<noteq> 0"
  shows "do { (ret, bytes, s) \<leftarrow> terminal_read hs fd buf n s; s \<leftarrow> poke_bytes buf bytes s; Some (ret, s) } =
    do { s \<leftarrow> spin (\<lambda>s. t_enter_flag s (get_tty s) = 0) hs (read_begin s); read_end buf s }"
  using assms spin_done [of "\<lambda>s. t_enter_flag s (get_tty s) = 0" hs "read_begin s"]
  by (auto simp: terminal_read_def Let_def read_begin_def read_end_def split: Option.bind_split)

lemma read_RTC_halves:
  "read_RTC hs fd buf n s = map_option (\<lambda>s. (0, [], s)) (spin (\<lambda>s. rtc_interrupt_occured s (get_tty s) = 1) hs (rtc_begin s))"
  by (simp add: read_RTC_def rtc_begin_def map_conv_bind_option comp_def)

section \<open>Events\<close>

text \<open>
  What can happen to the kernel: a key with its scancode, a tick of the clock or of the timer, a system call with its
  registers, the two halves of a blocking read of a line, the first half of one of the clock, an exception, a store of user code,
  a change of the stack registers. The result \<open>None\<close> means that the code has no defined result: it waits, it faults inside the
  kernel or it runs over the end of an array. A call that does not wait takes place without an interrupt in between.
\<close>

datatype event =
    Key u8
  | Clock
  | Timer "nat \<Rightarrow> stack_frame"
  | Call environment stack_frame u32 u32 u32 u32
  | Wait_line
  | Line u32
  | Wait_clock
  | Fault nat stack_frame
  | Store u32 u8
  | Registers u32 u32

fun step :: "event \<Rightarrow> kernel \<Rightarrow> kernel option" where
  "step (Key c) s = k_handler c s"
| "step Clock s = Some (R_handler_wrapper s)"
| "step (Timer frames) s = map_option snd (P_handler_wrapper frames s)"
| "step (Call env frame eax ebx ecx edx) s = map_option snd (sys_handler env frame eax ebx ecx edx s)"
| "step Wait_line s = Some (read_begin s)"
| "step (Line buf) s = map_option snd (read_end buf s)"
| "step Wait_clock s = Some (rtc_begin s)"
| "step (Fault n frame) s = (if n < 20 then map_option snd ((exception_handlers ! n) frame s) else None)"
| "step (Store v b) s = map_option (\<lambda>a. s\<lparr>mem := (mem s)(a := b)\<rparr>) (mmu s True v)"
| "step (Registers x y) s = Some (s\<lparr>esp := x, ebp := y\<rparr>)"

section \<open>Conditions on the events\<close>

text \<open>Text a process writes to its terminal has no carriage return; interrupts during a wait are events of their own.\<close>

fun plain_text :: "event \<Rightarrow> kernel \<Rightarrow> bool" where
  "plain_text (Call env frame eax ebx ecx edx) s \<longleftrightarrow> handlers env = [] \<and>
     (eax = 4 \<longrightarrow> sint ebx = 1 \<longrightarrow> (\<forall>k < nat (sint edx). virt_ptr s ecx (of_nat k) \<noteq> Some 0x0D))"
| "plain_text _ s \<longleftrightarrow> True"

text \<open>A shell ends only on the terminal that is displayed.\<close>

definition end_ok :: "kernel \<Rightarrow> bool" where
  "end_ok s \<longleftrightarrow> (parent_id (cur_pcb s) = word_of_int (current_pid s) \<longrightarrow> get_tty s = terminal_num s)"

text \<open>
  The conditions of the invariant: programs are started, and shells end, on the terminal that is displayed, with room for a
  message of the kernel in the row of the cursor; buffers to be filled start in the program page; text for the terminal is plain.
\<close>

fun event_ok :: "event \<Rightarrow> kernel \<Rightarrow> bool" where
  "event_ok (Call env frame eax ebx ecx edx) s \<longleftrightarrow> plain_text (Call env frame eax ebx ecx edx) s \<and> frame_ok frame \<and>
     (eax = 1 \<longrightarrow> end_ok s) \<and> (eax = 2 \<longrightarrow> get_tty s = terminal_num s \<and> message_room s) \<and>
     (eax = 3 \<longrightarrow> own_page ecx) \<and> (eax = 7 \<longrightarrow> own_page ebx)"
| "event_ok (Line buf) s \<longleftrightarrow> own_page buf"
| "event_ok (Fault n frame) s \<longleftrightarrow> frame_ok frame \<and> message_room s \<and> end_ok s"
| "event_ok _ s \<longleftrightarrow> True"

section \<open>Every step advances the tasks\<close>

lemma serves_quiet:
  assumes "screens_ok s" "keeps_tasks s s'" "mem s' = mem s" "screens_ok s'"
  shows "serves s s'"
  using assms by (simp add: serves_def only_frames_refl)

lemma key_serves:
  assumes ok: "screens_ok s" and k: "k_handler c s = Some s'"
  shows "serves s s'"
proof -
  obtain u where u: "keyboard_handler c (cli s) = Some u" "s' = u\<lparr>iflag := iflag s\<rparr>" using k by (auto simp: k_handler_def)
  have c: "serves s (cli s)" using serves_ports [OF ok, where x = "outs s" and i = False] by (simp add: cli_def)
  then have "screens_ok (cli s)" by (simp add: serves_def)
  from draws_keyboard [OF this u(1)] have d: "serves (cli s) u" "screens_ok u" using serves_draws by (auto simp: screens_ok_def)
  have "serves u s'" using serves_ports [OF d(2), where x = "outs u" and i = "iflag s"] by (simp add: u(2))
  then show ?thesis using serves_trans [OF c serves_trans [OF d(1)]] by blast
qed

lemma clock_serves: "screens_ok s \<Longrightarrow> serves s (R_handler_wrapper s)"
  by (rule serves_quiet, assumption)
     (simp_all add: R_handler_wrapper_def RTC_handler_def send_eoi_def outb_def keeps_tasks_def screens_ok_cong Let_def)

lemma wait_serves:
  assumes "screens_ok s"
  shows "serves s (read_begin s)" "serves s (rtc_begin s)" "serves s (s\<lparr>esp := x, ebp := y\<rparr>)"
proof -
  have "screens_ok (read_begin s)"
    using assms by (simp add: read_begin_def screens_ok_def kbd_inv_def display_ok_def video_ok_def cursor_ok_def)
  then show "serves s (read_begin s)" by (rule serves_quiet [OF assms, rotated 2]) (simp_all add: read_begin_def keeps_tasks_def)
  show "serves s (rtc_begin s)" "serves s (s\<lparr>esp := x, ebp := y\<rparr>)"
    by (rule serves_quiet [OF assms], simp_all add: rtc_begin_def keeps_tasks_def screens_ok_cong [OF assms])+
qed

text \<open>Bytes stored for the current process, after a call that served it.\<close>

lemma serves_then_poke:
  assumes pg: "paged s" and pid: "0 \<le> current_pid s" "current_pid s < 6" and u: "serves s u" and v: "own_page v" "poke_bytes v bs u = Some s'"
  shows "serves s s'"
proof -
  have su: "keeps_tasks s u" "screens_ok u" using u unfolding serves_def by blast+
  have "serves u s'"
    using paged_cong [OF pg su(1)] pid v keeps_tasksD(1) [OF su(1)]
    by (intro serves_poke_bytes [OF su(2)]) (auto simp: own_page_def)
  then show ?thesis by (rule serves_trans [OF u])
qed

lemma store_serves:
  assumes ok: "screens_ok s" "paged s" "0 \<le> current_pid s" "current_pid s < 6" and m: "mmu s True v = Some a"
  shows "serves s (s\<lparr>mem := (mem s)(a := b)\<rparr>)"
proof -
  have "video_ok s" using ok(1) by (simp add: screens_ok_def display_ok_def)
  then have "drop_bit 22 a \<in> {0, frame_of (current_pid s)}" using user_reach_paged [OF ok(2) _ ok(3,4) m] by blast
  then show ?thesis using ok(1) only_frames_upd by (simp add: serves_def screens_ok_mem keeps_tasks_def)
qed

lemma write_serves:
  assumes ok: "screens_ok s" "fds_ok (cur_pcb s)" "get_tty s < 3" and w: "write_call env (sint ebx) (user_ptr s ecx) edx s = Some (ret, s')"
    and c: "plain_text (Call env frame 4 ebx ecx edx) s"
  shows "serves s s'"
proof (rule write_call_serves [OF ok w])
  fix p j assume "sint ebx = 1" "user_ptr s ecx = Some p" "j < nat (sint edx)"
  then show "p (of_nat j) \<noteq> Some 0x0D" using c by (auto simp: user_ptr_def split: if_splits)
qed

lemma end_okD:
  assumes "tasks st s" "end_ok s" "tl (st (pit_terminal_num s)) = []"
  shows "get_tty s = terminal_num s"
proof -
  have "chain s (pit_terminal_num s) [current_pid s]"
    using tasksD(1,5) [OF assms(1)] tasks_current(1) [OF assms(1)] assms(3) by metis
  then show ?thesis using assms(2) by (auto simp: end_ok_def cur_pcb_def)
qed

text \<open>The calls, by what they change.\<close>

lemma sys_handler_cases [consumes 1, case_names same halt execute read writes opens close getargs vidmap]:
  assumes "sys_handler env frame eax ebx ecx edx s = Some (r, s')"
  obtains "s' = s" | "eax = 1" "halt frame (ucast ebx) s = Some (r, s')"
    | "eax = 2" "execute frame (user_ptr s ebx) s = Some (r, s')"
    | ret bytes u where "eax = 3" "read_call env (sint ebx) ecx edx s = Some (ret, bytes, u)" "poke_bytes ecx bytes u = Some s'"
    | ret where "eax = 4" "write_call env (sint ebx) (user_ptr s ecx) edx s = Some (ret, s')"
    | ret where "open_call env (user_ptr s ebx) s = Some (ret, s')"
    | ret where "close_call (sint ebx) s = Some (ret, s')"
    | ret bytes u where "eax = 7" "getargs ebx ecx s = Some (ret, bytes, u)" "poke_bytes ebx bytes u = Some s'"
    | ret where "vidmap ebx s = Some (ret, s')"
  using assms unfolding sys_handler_def set_handler_def sigreturn_def by (auto split: if_splits Option.bind_splits)

text \<open>A system call: every call number, with its result and its error returns.\<close>

lemma call_advances:
  assumes ok: "kernel_ok d st s" and call: "sys_handler env frame eax ebx ecx edx s = Some (r, s')"
    and c: "event_ok (Call env frame eax ebx ecx edx) s"
  shows "\<exists>st'. advances d st s st' s'"
proof -
  note k = kernel_okD [OF ok]
  note cur = tasks_current [OF k(3)]
  have tty: "get_tty s < 3" using cur(5) tasksD(5) [OF k(3)] by simp
  have env: "handlers env = []" and frame: "frame_ok frame" using c by simp_all
  show ?thesis
    using call
  proof (cases rule: sys_handler_cases)
    case same
    then show ?thesis using serves_advances [OF ok serves_same [OF k(1)]] by blast
  next
    case halt
    then have "end_ok s" using c by simp
    then have "\<exists>r s' st'. halt_256 frame (ucast (ucast ebx :: u8)) s = Some (r, s') \<and> advances d st s st' s'"
      using halt_256_advances [OF ok end_okD [OF k(3)] frame] by blast
    then show ?thesis using halt(2) by (auto simp: halt_def)
  next
    case execute
    then show ?thesis using execute_advances [OF ok _ _ execute(2)] c by simp
  next
    case (read ret bytes u)
    then show ?thesis
      using serves_then_poke [OF k(2) cur(2,3) read_call_serves [OF k(1) cur(6) read(2) env] _ read(3)] serves_advances [OF ok] c
      by auto
  next
    case (writes ret)
    have "serves s s'" using write_serves [OF k(1) cur(6) tty writes(2), of frame] c writes(1) by simp
    then show ?thesis using serves_advances [OF ok] by blast
  next
    case (opens ret)
    then show ?thesis using serves_advances [OF ok open_call_serves [OF k(1) cur(6)]] by blast
  next
    case (close ret)
    then show ?thesis using serves_advances [OF ok close_call_serves [OF k(1) cur(6)]] by blast
  next
    case (getargs ret bytes u)
    then show ?thesis
      using serves_then_poke [OF k(2) cur(2,3) getargs_serves [OF k(1) cur(6) getargs(2)] _ getargs(3)] serves_advances [OF ok] c
      by auto
  next
    case (vidmap ret)
    then show ?thesis using serves_advances [OF ok vidmap_serves [OF k(1,2) cur(2,3)]] by blast
  qed
qed

lemma step_advances:
  assumes ok: "kernel_ok d st s" and e: "event_ok e s" and st: "step e s = Some s'"
  shows "\<exists>st'. advances d st s st' s'"
proof -
  note k = kernel_okD [OF ok]
  note cur = tasks_current [OF k(3)] and srv = serves_advances [OF ok]
  show ?thesis
  proof (cases e)
    case (Key c)
    then show ?thesis using srv [OF key_serves [OF k(1)]] st by auto
  next
    case Clock
    then show ?thesis using srv [OF clock_serves [OF k(1)]] st by auto
  next
    case (Timer frames)
    then show ?thesis using tick_advances [OF ok, of frames] st by auto
  next
    case (Call env frame eax ebx ecx edx)
    then show ?thesis using call_advances [OF ok] st e by auto
  next
    case (Line buf)
    then obtain bytes where "poke_bytes buf bytes s = Some s'" using st by (auto simp: read_end_def split: if_splits Option.bind_splits)
    then show ?thesis using srv [OF serves_then_poke [OF k(2) cur(2,3) serves_same [OF k(1)]]] e Line by auto
  next
    case (Fault n frame)
    then have f: "n < 20" "frame_ok frame" "message_room s" "end_ok s" using st e by (auto split: if_splits)
    then obtain r u st' where "(exception_handlers ! n) frame s = Some (r, u)" "advances d st s st' u"
      using exception_advances [OF ok end_okD [OF k(3) f(4)] f(2,3,1)] by blast
    then show ?thesis using st Fault f(1) by auto
  next
    case (Store v b)
    then show ?thesis using srv [OF store_serves [OF k(1,2) cur(2,3)]] st by auto
  qed (use srv wait_serves [OF k(1)] st in auto)
qed

section \<open>Runs of the kernel\<close>

text \<open>The kernel refines the machine of tasks.\<close>

interpretation tasks_run: refinement step event_ok "\<lambda>s (t, st). kernel_ok d st s \<and> t = pit_terminal_num s" task_step for d
proof
  fix s s' e and a :: "nat \<times> (nat \<Rightarrow> int list)"
  assume "case a of (t, st) \<Rightarrow> kernel_ok d st s \<and> t = pit_terminal_num s" "event_ok e s" "step e s = Some s'"
  then obtain st st' where "a = (pit_terminal_num s, st)" "advances d st s st' s'" using step_advances by (cases a) blast
  then show "\<exists>a'. (case a' of (t, st) \<Rightarrow> kernel_ok d st s' \<and> t = pit_terminal_num s') \<and> task_step a a'"
    by (intro exI [of _ "(pit_terminal_num s', st')"]) (simp add: advances_def)
qed

lemma run_tasks:
  assumes "kernel_ok d st s" "admissible event_ok step es s" "run step es s = Some s'"
  shows "\<exists>st'. kernel_ok d st' s' \<and> task_step\<^sup>*\<^sup>* (pit_terminal_num s, st) (pit_terminal_num s', st')"
  using tasks_run.run_refines [of d s "(pit_terminal_num s, st)" es s'] assms by auto

text \<open>Interrupts always have a result, and so has the end of a process.\<close>

lemma interrupts_defined:
  assumes ok: "kernel_ok d st s"
  shows "step (Key c) s \<noteq> None" "step (Timer frames) s \<noteq> None"
    and "end_ok s \<Longrightarrow> frame_ok frame \<Longrightarrow> step (Call env frame 1 ebx ecx edx) s \<noteq> None"
proof -
  note k = kernel_okD [OF ok]
  have "kbd_inv (cli s)" using k(1) by (simp add: screens_ok_def kbd_inv_def cli_def)
  then show "step (Key c) s \<noteq> None" using keyboard_handler_total [of "cli s" c] by (auto simp: k_handler_def)
  show "step (Timer frames) s \<noteq> None" using tick_advances [OF ok, of frames] by auto
  assume "end_ok s" "frame_ok frame"
  then show "step (Call env frame 1 ebx ecx edx) s \<noteq> None"
    using halt_256_advances [OF ok end_okD [OF k(3)], of frame "ucast (ucast ebx :: u8)"] by (auto simp: sys_handler_def halt_def)
qed

section \<open>Memory\<close>

text \<open>The buffer an event lets the kernel fill, and how many bytes of it at most; a name of a directory has up to 32.\<close>

fun buffer :: "event \<Rightarrow> u32 \<times> nat" where
  "buffer (Call env frame eax ebx ecx edx) = (if eax = 3 then (ecx, max 32 (unat edx)) else if eax = 7 then (ebx, unat ecx) else (0, 0))"
| "buffer (Line buf) = (buf, 128)"
| "buffer _ = (0, 0)"

text \<open>The physical addresses of the first \<open>n\<close> bytes at \<open>v\<close>, as the kernel reaches them.\<close>

definition targets :: "kernel \<Rightarrow> u32 \<Rightarrow> nat \<Rightarrow> u32 set" where
  "targets s v n = {a. \<exists>k < n. mmu s False (v + of_nat k) = Some a}"

definition buffer_targets :: "event \<Rightarrow> kernel \<Rightarrow> u32 set" where
  "buffer_targets e s = targets s (fst (buffer e)) (snd (buffer e))"

lemma mmu_tables:
  "PDT s' = PDT s \<Longrightarrow> PT0 s' = PT0 s \<Longrightarrow> PT1 s' = PT1 s \<Longrightarrow> PT0_addr s' = PT0_addr s \<Longrightarrow> PT1_addr s' = PT1_addr s \<Longrightarrow> mmu s' = mmu s"
  by (intro ext) (simp add: mmu_def page_table_def Let_def)

lemma targets_mono: "m \<le> n \<Longrightarrow> targets s v m \<subseteq> targets s v n"
  unfolding targets_def using less_le_trans by blast

lemma poke_bytes_targets:
  "poke_bytes v bs s = Some s' \<Longrightarrow> a \<notin> targets s v (length bs) \<Longrightarrow> mem s' a = mem s a"
proof (induction bs arbitrary: v s)
  case (Cons b bs)
  obtain p where p: "mmu s False v = Some p" "poke_bytes (v + 1) bs (s\<lparr>mem := (mem s)(p := b)\<rparr>) = Some s'"
    using Cons.prems(1) by (auto simp: poke_def split: Option.bind_splits)
  have "mmu s False (v + of_nat k) \<noteq> Some a" if "k < Suc (length bs)" for k using Cons.prems(2) that by (auto simp: targets_def)
  from this [of 0] this [of "Suc _"] have n: "p \<noteq> a" "\<forall>k < length bs. mmu s False (v + 1 + of_nat k) \<noteq> Some a"
    using p(1) by (auto simp: algebra_simps)
  have "mmu (s\<lparr>mem := m\<rparr>) = mmu s" for m by (rule mmu_tables) simp_all
  then have "a \<notin> targets (s\<lparr>mem := (mem s)(p := b)\<rparr>) (v + 1) (length bs)" using n(2) by (simp add: targets_def)
  then show ?case using Cons.IH [OF p(2)] n(1) by simp
qed simp

text \<open>Bytes of a call that fit its buffer, stored in a state with the same page tables.\<close>

lemma poke_buffer:
  assumes "poke_bytes v bs u = Some s'" "length bs \<le> n" "mmu u = mmu s" "mem u = mem s" "a \<notin> targets s v n"
  shows "mem s' a = mem s a"
  using poke_bytes_targets [OF assms(1), of a] targets_mono [OF assms(2), of s v] assms(3-5) by (auto simp: targets_def)

lemma read_call_stores:
  assumes r: "read_call env fd buf n s = Some (ret, bytes, s')" and env: "handlers env = []"
  shows "length bytes \<le> max 32 (unat n) \<and> mmu s' = mmu s \<and> mem s' = mem s"
proof -
  have fd: "mmu (set_fd i e s) = mmu s" "mem (set_fd i e s) = mem s" for i e
    by (rule mmu_tables) (simp_all add: set_fd_def set_cur_pcb_def set_pcb_def)
  have tt: "get_tty (s\<lparr>t_enter_flag := a, command_buf := b\<rparr>) = get_tty s" "get_tty (s\<lparr>rtc_interrupt_occured := c\<rparr>) = get_tty s" for a b c
    by (simp_all add: get_tty_def cur_pcb_def)
  have name: "length (copy_name (file_name d)) \<le> 32" if "read_dentry_by_index i s = Some d" for i d
    using that length_takeWhile_le [of _ "file_name d"] by (auto simp: copy_name_takeWhile read_dentry_by_index_def copy_dentry_def Let_def split: if_splits)
  have "length bytes \<le> max 32 (unat n) \<and> mmu s' = mmu s \<and> mem s' = mem s"
    if "call_read env f i buf n s = Some (ret, bytes, s')" for f i
  proof (cases f)
    case Terminal_read
    then show ?thesis using that env by (auto simp: call_read_def terminal_read_def Let_def tt split: if_splits Option.bind_splits)
  next
    case Read_RTC
    then show ?thesis using that env by (auto simp: call_read_def read_RTC_def tt split: Option.bind_splits)
  next
    case Read_file
    then show ?thesis using that fd by (auto simp: call_read_def read_file_def Let_def read_data_slice)
  next
    case Read_directory
    then show ?thesis
      using that fd name by (auto simp: call_read_def read_directory_def Let_def max.coboundedI1 split: if_splits option.splits)
  qed (use that in \<open>simp_all add: call_read_def\<close>)
  then show ?thesis using r by (auto simp: read_call_def Let_def split: if_splits Option.bind_splits)
qed

lemma strncpy_loop_length: "strncpy_loop src n i = Some bs \<Longrightarrow> length bs \<le> unat n - unat i"
proof (induction src n i arbitrary: bs rule: strncpy_loop.induct)
  case (1 src n i)
  obtain c where c: "src i = Some c" using 1(2) by (subst (asm) strncpy_loop.simps) (auto split: Option.bind_splits)
  show ?case
  proof (cases "c \<noteq> 0 \<and> i < n")
    case True
    then obtain rest where r: "strncpy_loop src n (i + 1) = Some rest" "bs = c # rest"
      using 1(2) c by (subst (asm) strncpy_loop.simps) (auto split: Option.bind_splits)
    have "unat (i + 1) = Suc (unat i)" using True by (auto simp: unat_Suc_u32 word_less_nat_alt)
    moreover have "unat i < unat n" using True by (simp add: word_less_nat_alt)
    ultimately show ?thesis using 1(1) [OF c True r(1)] by (simp add: r(2))
  next
    case False
    then show ?thesis using 1(2) c by (subst (asm) strncpy_loop.simps) (auto split: if_splits)
  qed
qed

lemma getargs_stores:
  assumes "getargs buf n s = Some (ret, bytes, s')"
  shows "length bytes \<le> unat n \<and> mmu s' = mmu s \<and> mem s' = mem s"
proof -
  have "mmu (set_cur_pcb p s) = mmu s" "mem (set_cur_pcb p s) = mem s" for p
    by (rule mmu_tables) (simp_all add: set_cur_pcb_def set_pcb_def)
  then show ?thesis
    using assms strncpy_loop_length [of _ n 0] by (auto simp: getargs_def strncpy_def split: if_splits Option.bind_splits)
qed

lemma read_line_length: "read_line cs = Some bs \<Longrightarrow> length bs \<le> length cs"
  by (induction cs arbitrary: bs) (auto split: if_splits)

text \<open>A process whose buffer lies in its own page reaches its own memory only.\<close>

lemma targets_own_page:
  assumes "paged s" "0 \<le> current_pid s" "current_pid s < 6" "0x08000000 \<le> unat v" "unat v + n \<le> 0x08400000" "a \<in> targets s v n"
  shows "drop_bit 22 a = frame_of (current_pid s)"
proof -
  obtain k where k: "k < n" "mmu s False (v + of_nat k) = Some a" using assms(6) by (auto simp: targets_def)
  have "drop_bit 22 (v + of_nat k) = 32" using program_page_index [OF assms(4), of k] k(1) assms(5) by simp
  moreover have "PDT s 32 = prog_entry (current_pid s)" using assms(1) by (simp add: paged_def)
  ultimately show ?thesis using program_page_frame [OF _ assms(2,3) _ k(2)] by blast
qed

lemma call_own:
  assumes ok: "kernel_ok d st s" and call: "sys_handler env frame eax ebx ecx edx s = Some (r, s')"
    and c: "plain_text (Call env frame eax ebx ecx edx) s"
    and a: "drop_bit 22 a \<notin> own_frames s" "a \<notin> buffer_targets (Call env frame eax ebx ecx edx) s"
  shows "mem s' a = mem s a"
proof -
  note k = kernel_okD [OF ok]
  note cur = tasks_current [OF k(3)]
  have tty: "get_tty s < 3" using cur(5) tasksD(5) [OF k(3)] by simp
  have dk: "display_ok s" and pg: "PDT s 33 = 0" using k(1,2) by (simp_all add: screens_ok_def paged_def)
  have srv: "mem s' a = mem s a" if "serves s s'" using serves_own [OF that cur(2,3)] a(1) by (simp add: only_frames_def)
  show ?thesis
    using call
  proof (cases rule: sys_handler_cases)
    case halt
    then show ?thesis using halt_own [OF k(3) pg] a(1) by (simp add: halt_def only_frames_def)
  next
    case execute
    then show ?thesis using execute_own [OF dk pg] a(1) by (simp add: only_frames_def)
  next
    case (read ret bytes u)
    then show ?thesis using poke_buffer [OF read(3)] read_call_stores [OF read(2)] a(2) c by (auto simp: buffer_targets_def)
  next
    case (writes ret)
    then show ?thesis using srv write_serves [OF k(1) cur(6) tty writes(2), of frame] c by simp
  next
    case (opens ret)
    then show ?thesis using srv open_call_serves [OF k(1) cur(6)] by blast
  next
    case (close ret)
    then show ?thesis using srv close_call_serves [OF k(1) cur(6)] by blast
  next
    case (getargs ret bytes u)
    then show ?thesis using poke_buffer [OF getargs(3)] getargs_stores [OF getargs(2)] a(2) by (auto simp: buffer_targets_def)
  next
    case (vidmap ret)
    then show ?thesis using srv vidmap_serves [OF k(1,2) cur(2,3)] by blast
  qed simp
qed

lemma step_own:
  assumes ok: "kernel_ok d st s" and e: "plain_text e s" and st: "step e s = Some s'"
    and a: "drop_bit 22 a \<notin> own_frames s" "a \<notin> buffer_targets e s"
  shows "mem s' a = mem s a"
proof -
  note k = kernel_okD [OF ok]
  note cur = tasks_current [OF k(3)]
  have dk: "display_ok s" "kbd_inv s" using k(1) by (simp_all add: screens_ok_def)
  have srv: "mem s' a = mem s a" if "serves s s'" using serves_own [OF that cur(2,3)] a(1) by (simp add: only_frames_def)
  show ?thesis
  proof (cases e)
    case (Key c)
    then show ?thesis using srv key_serves [OF k(1)] st by simp
  next
    case Clock
    then show ?thesis using srv clock_serves [OF k(1)] st by simp
  next
    case (Timer frames)
    then show ?thesis using tick_memory [OF k(3)] st by auto
  next
    case (Call env frame eax ebx ecx edx)
    then obtain r where r: "sys_handler env frame eax ebx ecx edx s = Some (r, s')" using st by auto
    show ?thesis by (rule call_own [OF ok r e [unfolded Call] a [unfolded Call]])
  next
    case (Line buf)
    then obtain bytes where b: "read_line (command_buf s (get_tty s)) = Some bytes" "poke_bytes buf bytes s = Some s'"
      using st by (auto simp: read_end_def split: if_splits Option.bind_splits)
    have "get_tty s < 3" using cur(5) tasksD(5) [OF k(3)] by simp
    then have "length (command_buf s (get_tty s)) = 128" using dk(2) by (simp add: kbd_inv_def)
    then show ?thesis using poke_buffer [OF b(2), of 128 s] read_line_length [OF b(1)] a(2) Line by (simp add: buffer_targets_def)
  next
    case (Fault n frame)
    then show ?thesis using exception_own [OF dk(1) k(3,2)] st a(1) by (auto simp: only_frames_def split: if_splits)
  next
    case (Store v b)
    then show ?thesis using srv store_serves [OF k(1,2) cur(2,3)] st by auto
  qed (use srv wait_serves [OF k(1)] st in auto)
qed

section \<open>Where the steps need their conditions\<close>

text \<open>A carriage return on the last row moves the cursor below the screen.\<close>

lemma carriage_return_leaves_screen:
  assumes "screen_y s (terminal_num s) = 24" "screen_x s (terminal_num s) < 79"
  shows "screen_y (write_char 0x0D s) (terminal_num s) = 25"
  using assms by (simp add: write_char_def Let_def check_out_of_bound_def putc_newline)

text \<open>So does a message of the kernel that wraps on the last but one row.\<close>

lemma message_leaves_screen:
  assumes pos: "screen_x s (terminal_num s) = 79" "screen_y s (terminal_num s) = 23" and msg: "text_line (c # msg)"
  shows "\<exists>s'. kprintf ((c # msg) @ [0x0A]) [] s = Some s' \<and> screen_y s' (terminal_num s) = 25"
proof -
  let ?t = "terminal_num s" and ?u = "putc c s"
  have cu: "cursor_ok s ?t" using pos by (simp add: cursor_ok_def)
  have xy: "screen_x ?u ?t = 0" "screen_y ?u ?t = 24" using putc_screen_xy [OF cu, of c] msg pos by (simp_all add: text_line_def)
  then have v: "terminal_num (out_text msg ?u) = ?t" "screen_y (out_text msg ?u) ?t = 24"
    using written_row [of ?u msg] msg by (simp_all add: text_line_def cursor_ok_def)
  have m: "0 \<notin> set ((c # msg) @ [0x0A])" "0x25 \<notin> set ((c # msg) @ [0x0A])" "length ((c # msg) @ [0x0A]) < 4294967296"
    using msg by (auto simp: text_line_def)
  have "check_out_of_bound s = 0" using pos by (simp add: check_out_of_bound_def)
  then have "kprintf ((c # msg) @ [0x0A]) [] s = Some (out_text ((c # msg) @ [0x0A]) s)"
    using printf_render [OF cstr_arr_ptr [OF m(1,3)] render_plain [OF m(2)], of "[]" "[]" s] by (simp add: kprintf_def)
  moreover have "out_text ((c # msg) @ [0x0A]) s = putc 0x0A (out_text msg ?u)" by (simp add: out_text_def)
  ultimately show ?thesis using v by (simp add: putc_newline)
qed

text \<open>The kernel stores wherever a buffer address points, into its own page too.\<close>

lemma buffers_reach_kernel_page:
  assumes "paged s" "drop_bit 22 v = (1 :: u32)"
  shows "poke v b s = Some (s\<lparr>mem := (mem s)(v := b)\<rparr>)"
proof -
  have "PDT s 1 = 0x400083" using assms(1) by (simp add: paged_def)
  then have "mmu s False v = mmu (paging_tables s) False v" using assms(2) by (simp add: mmu_def paging_tables_eq)
  then show ?thesis using mmu_kernel_page [OF assms(2), of s False] by (simp add: poke_def)
qed

text \<open>A program started while another terminal is displayed gets that terminal.\<close>

lemma started_on_displayed_terminal:
  assumes "get_tty s \<noteq> terminal_num s" "terminal_num s < 3"
  shows "get_tty (started (cli s) i na m) \<noteq> get_tty s \<and> execute_pid (started (cli s) i na m) (get_tty s) = execute_pid s (get_tty s)"
  using assms by (auto simp: get_tty_def cur_pcb_def less_3)

end
