(* ===== verification/Kernel_Entry.thy ===== *)
theory Kernel_Entry
  imports Idt
begin

text \<open>
  \<^verbatim>\<open>student-distrib/kernel.c\<close>: \<^verbatim>\<open>entry\<close>, called by the boot code with the multiboot magic number
  and the address of the information structure. The structure is read from physical memory at
  the offsets of \<^verbatim>\<open>multiboot.h\<close>. The addresses the linker chose (\<^verbatim>\<open>ldt\<close>, \<^verbatim>\<open>tss\<close> and their sizes) and the
  bytes read from the device ports are arguments. The theory shows the state in which
  the kernel enables interrupts.
\<close>

section \<open>The descriptors of the GDT\<close>

record seg_desc_t =
  seg_lim_15_00 :: u16
  base_15_00 :: u16
  base_23_16 :: u8
  seg_type :: "4 word"
  seg_sys :: "1 word"
  seg_dpl :: "2 word"
  seg_present :: "1 word"
  seg_lim_19_16 :: "4 word"
  avail :: "1 word"
  seg_reserved :: "1 word"
  opsize :: "1 word"
  granularity :: "1 word"
  base_31_24 :: u8

text \<open>\<^verbatim>\<open>SET_LDT_PARAMS\<close> and \<^verbatim>\<open>SET_TSS_PARAMS\<close> have the same body.\<close>

definition SET_LDT_PARAMS :: "u32 \<Rightarrow> u32 \<Rightarrow> seg_desc_t \<Rightarrow> seg_desc_t" where
  "SET_LDT_PARAMS addr lim str =
     str\<lparr>base_31_24 := ucast (drop_bit 24 (addr AND 0xFF000000)), base_23_16 := ucast (drop_bit 16 (addr AND 0x00FF0000)),
         base_15_00 := ucast (addr AND 0x0000FFFF),
         seg_lim_19_16 := ucast (drop_bit 16 (lim AND 0x000F0000)), seg_lim_15_00 := ucast (lim AND 0x0000FFFF)\<rparr>"

definition SET_TSS_PARAMS :: "u32 \<Rightarrow> u32 \<Rightarrow> seg_desc_t \<Rightarrow> seg_desc_t" where
  "SET_TSS_PARAMS addr lim str =
     str\<lparr>base_31_24 := ucast (drop_bit 24 (addr AND 0xFF000000)), base_23_16 := ucast (drop_bit 16 (addr AND 0x00FF0000)),
         base_15_00 := ucast (addr AND 0x0000FFFF),
         seg_lim_19_16 := ucast (drop_bit 16 (lim AND 0x000F0000)), seg_lim_15_00 := ucast (lim AND 0x0000FFFF)\<rparr>"

text \<open>The two GDT entries, the LDT and task registers, and the TSS field \<^verbatim>\<open>ldt_segment_selector\<close>.\<close>

record gdt_state =
  ldt_desc_ptr :: seg_desc_t
  tss_desc_ptr :: seg_desc_t
  ldtr :: u16
  task_register :: u16
  ldt_segment_selector :: u16

text \<open>What the linker, the devices and the uninitialised stack contribute.\<close>

record boot_env =
  ldt_at :: u32
  ldt_size :: u32
  tss_at :: u32
  tss_size :: u32
  desc0 :: seg_desc_t
  kbd_port :: "u8 list"
  rtc_regB :: u8

definition the_ldt_desc :: "boot_env \<Rightarrow> seg_desc_t" where
  "the_ldt_desc env = SET_LDT_PARAMS (ldt_at env) (ldt_size env)
     ((desc0 env)\<lparr>granularity := 0, opsize := 1, seg_reserved := 0, avail := 0, seg_present := 1, seg_dpl := 0,
        seg_sys := 0, seg_type := 2\<rparr>)"

definition the_tss_desc :: "boot_env \<Rightarrow> seg_desc_t" where
  "the_tss_desc env = SET_TSS_PARAMS (tss_at env) (tss_size env)
     ((desc0 env)\<lparr>granularity := 0, opsize := 0, seg_reserved := 0, avail := 0,
        seg_lim_19_16 := ucast ((104 :: u32) AND 0x000F0000), seg_present := 1, seg_dpl := 0, seg_sys := 0, seg_type := 9,
        seg_lim_15_00 := ucast ((104 :: u32) AND 0x0000FFFF)\<rparr>)"

definition build_descriptors :: "boot_env \<Rightarrow> gdt_state \<Rightarrow> kernel \<Rightarrow> gdt_state \<times> kernel" where
  "build_descriptors env g s =
     (let g = g\<lparr>ldt_desc_ptr := the_ldt_desc env, ldtr := 0x38\<rparr>;
          g = g\<lparr>tss_desc_ptr := the_tss_desc env, ldt_segment_selector := 0x38\<rparr>;
          s = s\<lparr>tss_ss0 := KERNEL_DS, tss_esp0 := 0x800000\<rparr>
      in (g\<lparr>task_register := 0x30\<rparr>, s))"

section \<open>The multiboot information\<close>

definition CHECK_FLAG :: "u32 \<Rightarrow> nat \<Rightarrow> bool" where
  "CHECK_FLAG w b \<longleftrightarrow> w AND push_bit b 1 \<noteq> 0"

fun print_bytes :: "u32 \<Rightarrow> nat list \<Rightarrow> kernel \<Rightarrow> kernel option" where
  "print_bytes md [] s = Some s"
| "print_bytes md (i # is) s =
     do { s \<leftarrow> kprintf (cbytes ''0x%x '') [scast (mem s (load32 (mem s) md + of_nat i))] s; print_bytes md is s }"

partial_function (option) print_modules :: "u32 \<Rightarrow> u32 \<Rightarrow> u32 \<Rightarrow> kernel \<Rightarrow> kernel option" where
  "print_modules mbi mod_count md s =
     (if mod_count < load32 (mem s) (mbi + 20)
      then do { s \<leftarrow> kprintf (cbytes ''Module %d loaded at address: 0x%#x'' @ [0x0A]) [mod_count, load32 (mem s) md] s;
                s \<leftarrow> kprintf (cbytes ''Module %d ends at address: 0x%#x'' @ [0x0A]) [mod_count, load32 (mem s) (md + 4)] s;
                s \<leftarrow> kprintf (cbytes ''First few bytes of module:'' @ [0x0A]) [] s;
                s \<leftarrow> print_bytes md [0..<16] s;
                s \<leftarrow> kprintf [0x0A] [] s;
                print_modules mbi (mod_count + 1) (md + 16) s }
      else Some s)"

partial_function (option) print_mmap :: "u32 \<Rightarrow> u32 \<Rightarrow> kernel \<Rightarrow> kernel option" where
  "print_mmap mbi mmap s =
     (let f = (\<lambda>k. load32 (mem s) (mmap + k)) in
      if mmap < load32 (mem s) (mbi + 48) + load32 (mem s) (mbi + 44)
      then do { s \<leftarrow> kprintf (cbytes ''    size = 0x%x, base_addr = 0x%#x%#x'' @ [0x0A] @
                            cbytes ''    type = 0x%x,  length    = 0x%#x%#x'' @ [0x0A])
                      [f 0, f 8, f 4, f 20, f 16, f 12] s;
                print_mmap mbi (mmap + load32 (mem s) mmap + 4) s }
      else Some s)"

text \<open>Everything \<^verbatim>\<open>entry\<close> prints about the structure; the result says whether it goes on.\<close>

definition print_mbi :: "u32 \<Rightarrow> kernel \<Rightarrow> (bool \<times> kernel) option" where
  "print_mbi mbi s =
     do { s \<leftarrow> kprintf (cbytes ''flags = 0x%#x'' @ [0x0A]) [load32 (mem s) mbi] s;
          s \<leftarrow> (if CHECK_FLAG (load32 (mem s) mbi) 0
               then kprintf (cbytes ''mem_lower = %uKB, mem_upper = %uKB'' @ [0x0A])
                      [load32 (mem s) (mbi + 4), load32 (mem s) (mbi + 8)] s
               else Some s);
          s \<leftarrow> (if CHECK_FLAG (load32 (mem s) mbi) 1
               then kprintf (cbytes ''boot_device = 0x%#x'' @ [0x0A]) [load32 (mem s) (mbi + 12)] s
               else Some s);
          s \<leftarrow> (if CHECK_FLAG (load32 (mem s) mbi) 2
               then kprintf (cbytes ''cmdline = %s'' @ [0x0A]) [load32 (mem s) (mbi + 16)] s
               else Some s);
          s \<leftarrow> (if CHECK_FLAG (load32 (mem s) mbi) 3 then print_modules mbi 0 (load32 (mem s) (mbi + 24)) s else Some s);
          if CHECK_FLAG (load32 (mem s) mbi) 4 \<and> CHECK_FLAG (load32 (mem s) mbi) 5
          then do { s \<leftarrow> kprintf (cbytes ''Both bits 4 and 5 are set.'' @ [0x0A]) [] s; Some (False, s) }
          else do { s \<leftarrow> (if CHECK_FLAG (load32 (mem s) mbi) 5
                         then kprintf (cbytes ''elf_sec: num = %u, size = 0x%#x, addr = 0x%#x, shndx = 0x%#x'' @ [0x0A])
                                (map (\<lambda>k. load32 (mem s) (mbi + k)) [28, 32, 36, 40]) s
                         else Some s);
                    s \<leftarrow> (if CHECK_FLAG (load32 (mem s) mbi) 6
                         then do { s \<leftarrow> kprintf (cbytes ''mmap_addr = 0x%#x, mmap_length = 0x%x'' @ [0x0A])
                                         [load32 (mem s) (mbi + 48), load32 (mem s) (mbi + 44)] s;
                                   print_mmap mbi (load32 (mem s) (mbi + 48)) s }
                         else Some s);
                    Some (True, s) } }"

section \<open>Initialisation\<close>

text \<open>
  From the second \<^verbatim>\<open>clear\<close> to the idle loop; \<^verbatim>\<open>launch_tests\<close> has no active statement.
\<close>

definition init_kernel :: "boot_env \<Rightarrow> u32 \<Rightarrow> kernel \<Rightarrow> kernel option" where
  "init_kernel env mbi s =
     do { let s = reset_screen (clear s);
          s \<leftarrow> kprintf (cbytes ''Initializing devices...'' @ [0x0A]) [] s;
          let s = i8259_init s;
          s \<leftarrow> set_fs_start (load32 (mem s) (load32 (mem s) (mbi + 24))) s;
          s \<leftarrow> initialize_keyboard (kbd_port env) s;
          let s = initialize_RTC (rtc_regB env) s;
          let s = intitalize_PIT s;
          s \<leftarrow> init_paging s;
          s \<leftarrow> kprintf (cbytes ''Enabling Interrupts'' @ [0x0A]) [] s;
          let s = s\<lparr>mem := fold (\<lambda>i m. m(cell (video_mem s 0) (2 * int i + 1) := SCREEN_COLOR 0)) [0..<2000] (mem s)\<rparr>;
          Some (sti s) }"

text \<open>\<open>True\<close>: the kernel idles with interrupts enabled; \<open>False\<close>: \<^verbatim>\<open>entry\<close> returned to the boot code.\<close>

definition entry :: "boot_env \<Rightarrow> u32 \<Rightarrow> u32 \<Rightarrow> gdt_state \<Rightarrow> kernel \<Rightarrow> (bool \<times> gdt_state \<times> kernel) option" where
  "entry env magic addr g s =
     (let s = clear s in
      if magic \<noteq> 0x2BADB002
      then do { s \<leftarrow> kprintf (cbytes ''Invalid magic number: 0x%#x'' @ [0x0A]) [magic] s; Some (False, g, s) }
      else do { (ok, s) \<leftarrow> print_mbi addr s;
                if \<not> ok then Some (False, g, s)
                else do { let (g, s) = build_descriptors env g s;
                          s \<leftarrow> init_kernel env addr s;
                          Some (True, g, s) } })"

section \<open>The state at the idle loop\<close>

lemma ack_loop_acked: "0xFA \<in> set ins \<Longrightarrow> \<exists>out. ack_loop ins s = Some (s\<lparr>outs := out\<rparr>)"
proof (induction ins arbitrary: s)
  case (Cons c ins)
  then show ?case
  proof (cases "c = 0xFA")
    case True
    then show ?thesis by (auto intro: exI [of _ "outs s"])
  next
    case False
    let ?s = "if c = 0xFE then outb 0xF6 0x60 s else s"
    obtain out where "ack_loop ins ?s = Some (?s\<lparr>outs := out\<rparr>)" using Cons False by auto
    moreover have "?s\<lparr>outs := out\<rparr> = s\<lparr>outs := out\<rparr>" by (simp add: outb_def)
    ultimately have "ack_loop (c # ins) s = Some (s\<lparr>outs := out\<rparr>)" using False by (simp add: Let_def)
    then show ?thesis by blast
  qed
qed simp

lemma clear_dentry_flags:
  "fold (\<lambda>i s. s\<lparr>dentry_table_flags := (dentry_table_flags s)(i := 0)\<rparr>) [0..<n] s =
     s\<lparr>dentry_table_flags := (\<lambda>i. if i < n then 0 else dentry_table_flags s i)\<rparr>"
  by (induction n) (auto simp: fun_eq_iff intro!: kernel.equality)

lemma messages:
  "\<exists>s'. kprintf (cbytes ''Initializing devices...'' @ [0x0A]) [] s = Some s' \<and> screen_only s s'"
  "\<exists>s'. kprintf (cbytes ''Dentry Count: %d '' @ [0x0A]) [v] s = Some s' \<and> screen_only s s'"
  "\<exists>s'. kprintf (cbytes ''Inode Count: %d '' @ [0x0A]) [v] s = Some s' \<and> screen_only s s'"
  "\<exists>s'. kprintf (cbytes ''Initializing Paging... '' @ [0x0A]) [] s = Some s' \<and> screen_only s s'"
  "\<exists>s'. kprintf (cbytes ''Enabling Interrupts'' @ [0x0A]) [] s = Some s' \<and> screen_only s s'"
  by - (rule kprintf_render, simp add: cbytes_def, simp add: cbytes_def, simp add: cbytes_def conv_text_def)+

text \<open>
  What the initialisation leaves alone: processes, terminals, keyboard and scheduler.
\<close>

definition process_state :: "kernel \<Rightarrow> _" where
  "process_state s = (pcbs s, pid_flags s, current_pid s, execute_pid s, terminal_num s, pit_terminal_num s,
     terminals_initialized s, esp s, ebp s, tss_esp0 s, PDT_addr s, PT0_addr s, PT1_addr s)"

lemma set_fs_start_ok:
  "\<exists>s' f. set_fs_start a s = Some s' \<and> screen_only (s\<lparr>fs_start := a, dentry_table_flags := f\<rparr>) s' \<and> (\<forall>i < 8. f i = 0)"
proof -
  obtain t where t: "kprintf (cbytes ''Dentry Count: %d '' @ [0x0A]) [load32 (mem s) a] (s\<lparr>fs_start := a\<rparr>) = Some t"
      "screen_only (s\<lparr>fs_start := a\<rparr>) t"
    using messages(2) by blast
  obtain u where u: "kprintf (cbytes ''Inode Count: %d '' @ [0x0A]) [load32 (mem s) (a + 4)] t = Some u" "screen_only t u"
    using messages(3) by blast
  have "screen_only (s\<lparr>fs_start := a\<rparr>) u" using t(2) u(2) screen_only_trans by blast
  then obtain m x y out i where "u = s\<lparr>fs_start := a, mem := m, screen_x := x, screen_y := y, outs := out, iflag := i\<rparr>"
    unfolding screen_only_def by blast
  then have "screen_only (s\<lparr>fs_start := a, dentry_table_flags := g\<rparr>) (u\<lparr>dentry_table_flags := g\<rparr>)" for g
    by (intro screen_onlyI [where m = m and x = x and y = y and out = out and i = i]) simp
  then have "screen_only (s\<lparr>fs_start := a, dentry_table_flags := f\<rparr>) (u\<lparr>dentry_table_flags := f\<rparr>) \<and> (\<forall>i < 8. f i = 0)"
    if "f = (\<lambda>i. if i < 8 then 0 else dentry_table_flags u i)" for f using that by simp
  then show ?thesis using t(1) u(1) by (auto simp: set_fs_start_def Let_def clear_dentry_flags simp del: fun_upd_apply)
qed

text \<open>
  When the kernel reaches its idle loop: interrupts are on, the paging tables are the ones of
  \<^verbatim>\<open>init_paging\<close> and paging is enabled, exactly the lines of the timer, the keyboard, the second controller
  and the clock are unmasked, and there is no process yet.
\<close>

lemma init_kernel_state:
  assumes ack: "0xFA \<in> set (kbd_port env)" and masks: "master_mask s = 0xFF" "slave_mask s = 0xFF"
  shows "\<exists>s'. init_kernel env mbi s = Some s' \<and> iflag s' \<and> process_state s' = process_state s \<and>
    PDT s' = PDT (paging_tables s) \<and> PT0 s' = PT0 (paging_tables s) \<and> PT1 s' = PT1 (paging_tables s) \<and>
    bit (cr0 s') 31 \<and> bit (cr4 s') 4 \<and> cr3 s' = (cr3 s AND 0xFFF) + PDT_addr s \<and>
    master_mask s' = 0xF8 \<and> slave_mask s' = 0xFE"
proof -
  let ?s1 = "reset_screen (clear s)"
  obtain s2 where s2: "kprintf (cbytes ''Initializing devices...'' @ [0x0A]) [] ?s1 = Some s2" "screen_only ?s1 s2"
    using messages(1) by blast
  have "screen_only s s2"
    using screen_only_clear screen_only_reset s2(2) screen_only_trans by blast
  then obtain m2 x2 y2 o2 i2 where e2: "s2 = s\<lparr>mem := m2, screen_x := x2, screen_y := y2, outs := o2, iflag := i2\<rparr>"
    unfolding screen_only_def by blast
  let ?a = "load32 (mem s2) (load32 (mem s2) (mbi + 24))"
  have mem8: "mem (i8259_init s2) = mem s2" by (simp add: i8259_init_def outb_def Let_def)
  obtain s4 f where s4: "set_fs_start ?a (i8259_init s2) = Some s4"
      "screen_only ((i8259_init s2)\<lparr>fs_start := ?a, dentry_table_flags := f\<rparr>) s4"
    using set_fs_start_ok by blast
  then obtain m4 x4 y4 o4 i4 where e4: "s4 = (i8259_init s2)\<lparr>fs_start := ?a, dentry_table_flags := f, mem := m4,
      screen_x := x4, screen_y := y4, outs := o4, iflag := i4\<rparr>"
    unfolding screen_only_def by blast
  obtain o5 where s5: "ack_loop (kbd_port env) (outb 0xF6 0x60 s4) = Some ((outb 0xF6 0x60 s4)\<lparr>outs := o5\<rparr>)"
    using ack_loop_acked [OF ack] by blast
  define s6 where "s6 = intitalize_PIT (initialize_RTC (rtc_regB env) (enable_irq 1 ((outb 0xF6 0x60 s4)\<lparr>outs := o5\<rparr>)))"
  obtain s7 where s7: "kprintf (cbytes ''Initializing Paging... '' @ [0x0A]) [] s6 = Some s7" "screen_only s6 s7"
    using messages(4) by blast
  then obtain m7 x7 y7 o7 i7 where e7: "s7 = s6\<lparr>mem := m7, screen_x := x7, screen_y := y7, outs := o7, iflag := i7\<rparr>"
    unfolding screen_only_def by blast
  define s8 where "s8 = (flush_tlb (paging_tables s7))\<lparr>cr4 := cr4 s7 OR 0x10, cr0 := cr0 s7 OR 0x80000001\<rparr>"
  have pg: "init_paging s6 = Some s8"
    using s7(1) by (simp add: init_paging_def s8_def Let_def flush_tlb_def paging_tables_eq)
  obtain s9 where s9: "kprintf (cbytes ''Enabling Interrupts'' @ [0x0A]) [] s8 = Some s9" "screen_only s8 s9"
    using messages(5) by blast
  then obtain m9 x9 y9 o9 i9 where e9: "s9 = s8\<lparr>mem := m9, screen_x := x9, screen_y := y9, outs := o9, iflag := i9\<rparr>"
    unfolding screen_only_def by blast
  define s' where "s' = sti (s9\<lparr>mem := fold (\<lambda>i m. m(cell (video_mem s9 0) (2 * int i + 1) := SCREEN_COLOR 0)) [0..<2000] (mem s9)\<rparr>)"
  have run: "init_kernel env mbi s = Some s'"
    unfolding init_kernel_def initialize_keyboard_def
    using s2(1) s4(1) s5 pg s9(1) mem8 by (simp add: s6_def s'_def)
  have e6: "process_state s6 = process_state s" "PDT s6 = PDT s" "PT0 s6 = PT0 s" "PT1 s6 = PT1 s" "cr3 s6 = cr3 s"
      "master_mask s6 = 0xF8" "slave_mask s6 = 0xFE"
    by (simp_all add: s6_def intitalize_PIT_def initialize_RTC_def enable_irq_def outb_def e4 i8259_init_def e2 Let_def
        process_state_def masks)
  have f7: "process_state s7 = process_state s" "PDT s7 = PDT s" "PT0 s7 = PT0 s" "PT1 s7 = PT1 s" "cr3 s7 = cr3 s"
      "master_mask s7 = 0xF8" "slave_mask s7 = 0xFE"
    using e6 by (simp_all add: e7 process_state_def)
  have "process_state s' = process_state s" "iflag s'"
    using f7(1) by (simp_all add: s'_def sti_def e9 s8_def flush_tlb_def paging_tables_eq process_state_def)
  moreover have "PDT s' = PDT (paging_tables s)" "PT0 s' = PT0 (paging_tables s)" "PT1 s' = PT1 (paging_tables s)"
      "cr3 s' = (cr3 s AND 0xFFF) + PDT_addr s" "master_mask s' = 0xF8" "slave_mask s' = 0xFE"
    using f7 by (simp_all add: s'_def sti_def e9 s8_def flush_tlb_def paging_tables_eq process_state_def cong: if_cong)
  moreover have "bit (cr0 s') 31" "bit (cr4 s') 4"
    by (simp_all add: s'_def sti_def e9 s8_def flush_tlb_def bit_or_iff bit_numeral_rec)
  ultimately show ?thesis using run by blast
qed

end
