(* ===== verification/Machines.thy ===== *)
theory Machines
  imports Kernel_Entry
begin

text \<open>
  Concrete kernel states: \<open>machine0\<close> just after boot with zeroed memory, \<open>machine1\<close> with a small file
  system image (a directory entry, the program \<open>shell\<close>, the clock), \<open>machine2\<close> with the first
  shell running. Their contents are computed once here.
\<close>

section \<open>A machine at boot\<close>

definition machine0 :: kernel where
  "machine0 = boot_kernel (\<lambda>_. 0) 0x401000 0x402000 0x403000"

lemma machine0_kbd_inv: "kbd_inv machine0"
  by (simp add: machine0_def boot_kernel_def kbd_inv_def)

lemma machine0_editor:
  "abs_editor machine0 = \<lparr>line = [], eshift = False, ectrl = False, ealt = False, ecaps = False, erel = True\<rparr>"
  by (simp add: machine0_def boot_kernel_def abs_editor_def)

lemma machine0_tables: "tables_aligned machine0"
  by (simp add: machine0_def boot_kernel_def tables_aligned_def)

section \<open>A machine with a file system\<close>

definition disk :: mem where
  "disk = (\<lambda>_. 0)(0x410000 := 3, 0x410004 := 1, 0x410008 := 1,
     0x410040 := 0x2E, 0x410060 := 1,
     0x410080 := 0x73, 0x410081 := 0x68, 0x410082 := 0x65, 0x410083 := 0x6C, 0x410084 := 0x6C, 0x4100A0 := 2,
     0x4100C0 := 0x72, 0x4100C1 := 0x74, 0x4100C2 := 0x63,
     0x411000 := 28,
     0x412000 := 0x7F, 0x412001 := 0x45, 0x412002 := 0x4C, 0x412003 := 0x46,
     0x412018 := 0x54, 0x412019 := 0x80, 0x41201A := 0x04, 0x41201B := 0x08)"

definition machine1 :: kernel where
  "machine1 = (boot_kernel disk 0x401000 0x402000 0x403000)\<lparr>fs_start := 0x410000\<rparr>"

definition entry_of :: "string \<Rightarrow> u32 \<Rightarrow> dentry_t" where
  "entry_of name ty = \<lparr>file_name = cbytes name @ replicate (32 - length name) 0, file_type = ty, inode_number = 0\<rparr>"

lemma machine1_mem: "mem machine1 = disk" "fs_start machine1 = 0x410000"
  by (simp_all add: machine1_def boot_kernel_def)

lemma disk_directory:
  assumes m: "\<And>a. drop_bit 22 a = (1 :: u32) \<Longrightarrow> m a = disk a"
  shows "dentry_list (machine1\<lparr>mem := m\<rparr>) = [entry_of ''.'' 1, entry_of ''shell'' 2, entry_of ''rtc'' 0]"
proof -
  have count: "load32 m 0x410000 = 3" by (simp add: load32_def m) (simp add: disk_def)
  have e: "copy_dentry m 0x410040 = entry_of ''.'' 1" "copy_dentry m 0x410080 = entry_of ''shell'' 2" "copy_dentry m 0x4100C0 = entry_of ''rtc'' 0"
    by (simp_all add: copy_dentry_def load32_def m upt_rec entry_of_def cbytes_def, simp_all add: disk_def, simp_all add: numeral_eq_Suc)
  show ?thesis by (simp add: dentry_list_def machine1_mem count upt_rec e)
qed


definition program :: "u8 list" where
  "program = [0x7F, 0x45, 0x4C, 0x46] @ replicate 20 0 @ [0x54, 0x80, 0x04, 0x08]"

lemma disk_program:
  assumes m: "\<And>a. drop_bit 22 a = (1 :: u32) \<Longrightarrow> m a = disk a"
  shows "file_bytes (machine1\<lparr>mem := m\<rparr>) 0 = program"
proof -
  have l: "load32 m 0x411000 = 28" "load32 m 0x410004 = 1" "load32 m 0x411004 = 0"
    by (simp_all add: load32_def m, simp_all add: disk_def)
  have b: "data_block_address (machine1\<lparr>mem := m\<rparr>) 0 0 = 0x412000"
    by (simp add: data_block_address_def machine1_mem l inode_ptr_def)
  have "inode_length (machine1\<lparr>mem := m\<rparr>) 0 = 28" by (simp add: inode_length_def inode_ptr_def machine1_mem l)
  then show ?thesis
    by (simp add: file_bytes_def file_byte_def upt_rec b m program_def, simp add: disk_def, simp add: numeral_eq_Suc)
qed

lemma machine1_stable: "fs_stable machine1 0"
proof -
  have agree: "m a = disk a" if "same_outside (mem machine1) m" "drop_bit 22 a = (1 :: u32)" for m a
  proof -
    have "\<not> in_program_frames a" using that(2) by (simp add: in_program_frames_def word_le_nat_alt)
    then show ?thesis using that(1) by (simp add: same_outside_def machine1_mem)
  qed
  have "dentry_list (machine1\<lparr>mem := m\<rparr>) = dentry_list machine1 \<and> file_bytes (machine1\<lparr>mem := m\<rparr>) 0 = file_bytes machine1 0"
    if "same_outside (mem machine1) m" for m
    using disk_directory [of m] disk_program [of m] disk_directory [of disk] disk_program [of disk] agree [OF that]
    by (simp add: machine1_mem [symmetric])
  then show ?thesis by (simp add: fs_stable_def)
qed

lemma machine1_dentries: "dentry_list machine1 = [entry_of ''.'' 1, entry_of ''shell'' 2, entry_of ''rtc'' 0]"
  using disk_directory [of disk] by (simp add: machine1_mem [symmetric])

lemma machine1_program: "file_bytes machine1 0 = program"
  using disk_program [of disk] by (simp add: machine1_mem [symmetric])

lemma machine1_shell: "shell_file machine1 (entry_of ''shell'' 2)"
proof -
  have i: "inode_number (entry_of ''shell'' 2) = 0" by (simp add: entry_of_def)
  have f: "List.find (name_found (cbytes ''shell'')) (dentry_list machine1) = Some (entry_of ''shell'' 2)"
    by (simp add: machine1_dentries, simp add: entry_of_def name_found_def entry_name_def cbytes_def)
  have "length (file_bytes machine1 0) = 28" "take 4 (file_bytes machine1 0) = magic_number"
    unfolding machine1_program by (simp_all add: program_def magic_number_def)
  then show ?thesis using machine1_stable f i by (simp add: shell_file_def)
qed


section \<open>A machine with one process\<close>

definition pcb0 :: pcb_t where
  "pcb0 = zero_pcb\<lparr>fd_entry := new_fds zero_pcb\<rparr>"

definition machine2 :: kernel where
  "machine2 = machine1\<lparr>pid_flags := (\<lambda>_. 0)(0 := 1), pcbs := (\<lambda>_. zero_pcb)(0 := pcb0)\<rparr>"

lemma machine2_fields [simp]:
  "mem machine2 = disk" "fs_start machine2 = 0x410000" "pid_flags machine2 = (\<lambda>_. 0)(0 := 1)"
  "pcbs machine2 = (\<lambda>_. zero_pcb)(0 := pcb0)" "current_pid machine2 = 0" "terminal_num machine2 = 0"
  "esp machine2 = 0" "ebp machine2 = 0" "tss_esp0 machine2 = 0"
  by (simp_all add: machine2_def machine1_def boot_kernel_def)

lemma machine2_fds_ok: "fds_ok (cur_pcb machine2)" "cur_pcb machine2 = pcb0"
  by (auto simp: cur_pcb_def pcb0_def intro: new_fds_ok)

lemma machine2_files:
  "dentry_list machine2 = [entry_of ''.'' 1, entry_of ''shell'' 2, entry_of ''rtc'' 0]" "file_bytes machine2 0 = program"
  "inode_length machine2 0 = 28" "image_outside (int i) 0 machine2 = image_outside (int i) 0 machine1"
proof -
  show "dentry_list machine2 = [entry_of ''.'' 1, entry_of ''shell'' 2, entry_of ''rtc'' 0]"
    using dentry_list_cong [of machine2 machine1] by (simp add: machine1_mem machine1_dentries)
  show "file_bytes machine2 0 = program"
    using file_bytes_cong [of machine2 machine1] by (simp add: machine1_mem machine1_program)
  show "image_outside (int i) 0 machine2 = image_outside (int i) 0 machine1"
    by (rule image_outside_cong) (simp_all add: machine1_mem)
  show "inode_length machine2 0 = 28"
    by (simp add: inode_length_def inode_ptr_def load32_def) (simp add: disk_def)
qed

section \<open>A machine with three shells\<close>

definition machine3 :: kernel where
  "machine3 = machine1\<lparr>pid_flags := (\<lambda>_. 0)(0 := 1, 1 := 1, 2 := 1), execute_pid := int,
     esp := 0x7FF000, ebp := 0x7FF010, tss_esp0 := 0x7FFFFC\<rparr>"

lemma machine3_fields [simp]:
  "pid_flags machine3 = (\<lambda>_. 0)(0 := 1, 1 := 1, 2 := 1)" "execute_pid machine3 = int" "pit_terminal_num machine3 = 0"
  "current_pid machine3 = 0" "esp machine3 = 0x7FF000" "ebp machine3 = 0x7FF010" "tss_esp0 machine3 = 0x7FFFFC"
  by (simp_all add: machine3_def machine1_def boot_kernel_def)

end
