(* ===== verification/User_Tests.thy ===== *)
theory User_Tests
  imports User_Programs
begin

text \<open>
  The test program \<^verbatim>\<open>syscalls/ece391syserr.c\<close>, which calls the kernel with bad arguments, and the proof
  that the kernel passes all its tests.
\<close>

section \<open>The tests\<close>

abbreviation (input) NEG_FD :: int where "NEG_FD \<equiv> -1073741823"
abbreviation (input) BIG_FD :: int where "BIG_FD \<equiv> 1073741823"
abbreviation (input) BIG_NUM :: int where "BIG_NUM \<equiv> 1073741823"
abbreviation (input) NEG_NUM :: int where "NEG_NUM \<equiv> -1073741823"

text \<open>The other registers hold whatever they held before the call.\<close>

definition call_sys :: "environment \<Rightarrow> stack_frame \<Rightarrow> u32 \<times> u32 \<times> u32 \<Rightarrow> int \<Rightarrow> kernel \<Rightarrow> (int \<times> kernel) option" where
  "call_sys env frame regs num s =
     do { let (ebx, ecx, edx) = regs;
          (r, s) \<leftarrow> sys_handler env frame (word_of_int num) ebx ecx edx s;
          case r of Returned v \<Rightarrow> Some (v, s) | Entered ip sp \<Rightarrow> None }"

text \<open>The statement \<^verbatim>\<open>if (-1 != ret) { fail = 2; ece391_fdputs(1, msg); }\<close> of the tests, and their last lines.\<close>

definition expect_error :: "environment \<Rightarrow> rptr \<Rightarrow> int \<Rightarrow> int \<Rightarrow> kernel \<Rightarrow> (int \<times> kernel) option" where
  "expect_error env msg ret fail s =
     (if -1 \<noteq> ret then do { s \<leftarrow> ece391_fdputs env 1 msg s; Some (2, s) } else Some (fail, s))"

definition verdict :: "environment \<Rightarrow> string \<Rightarrow> int \<Rightarrow> kernel \<Rightarrow> (int \<times> kernel) option" where
  "verdict env test fail s =
     do { s \<leftarrow> (if fail \<noteq> 0 then ece391_fdputs env 1 (litn (test @ '': FAIL'')) s
               else ece391_fdputs env 1 (litn (test @ '': PASS'')) s);
          Some (fail, s) }"

definition err_bad_fd :: "environment \<Rightarrow> (nat \<Rightarrow> u8) \<Rightarrow> int \<Rightarrow> kernel \<Rightarrow> (int \<times> kernel) option" where
  "err_bad_fd env junk fd s =
     do { (ret, buf, s) \<leftarrow> ece391_read env fd (local_array 32 junk) 0 31 s;
          (fail, s) \<leftarrow> expect_error env (litn ''read fail'') ret 0 s;
          (ret, s) \<leftarrow> ece391_write env fd (arr_ptr buf) 31 s;
          (fail, s) \<leftarrow> expect_error env (litn ''write fail'') ret fail s;
          (ret, s) \<leftarrow> ece391_close fd s;
          expect_error env (litn ''close fail'') ret fail s }"

definition err_neg_fd :: "environment \<Rightarrow> (nat \<Rightarrow> u8) \<Rightarrow> kernel \<Rightarrow> (int \<times> kernel) option" where
  "err_neg_fd env junk s =
     do { (fail, s) \<leftarrow> err_bad_fd env junk NEG_FD s; verdict env ''err_neg_fd'' fail s }"

definition err_big_fd :: "environment \<Rightarrow> (nat \<Rightarrow> u8) \<Rightarrow> kernel \<Rightarrow> (int \<times> kernel) option" where
  "err_big_fd env junk s =
     do { (fail, s) \<leftarrow> err_bad_fd env junk BIG_FD s; verdict env ''err_big_fd'' fail s }"

text \<open>The loops of \<^verbatim>\<open>err_open_lots\<close> and \<^verbatim>\<open>err_unopened\<close>, with the iterations left.\<close>

fun open_times :: "environment \<Rightarrow> nat \<Rightarrow> int \<Rightarrow> kernel \<Rightarrow> (int \<times> kernel) option" where
  "open_times env 0 cnt s = Some (cnt, s)"
| "open_times env (Suc n) cnt s =
     do { (fd, s) \<leftarrow> ece391_open env (lit ''.'') s; open_times env n (if -1 = fd then cnt + 1 else cnt) s }"

fun close_each :: "nat list \<Rightarrow> kernel \<Rightarrow> kernel option" where
  "close_each [] s = Some s"
| "close_each (i # is) s = do { (ret, s) \<leftarrow> ece391_close (int i) s; close_each is s }"

definition err_open_lots :: "environment \<Rightarrow> kernel \<Rightarrow> (int \<times> kernel) option" where
  "err_open_lots env s =
     do { (cnt, s) \<leftarrow> open_times env 7 0 s;
          s \<leftarrow> close_each [2..<8] s;
          verdict env ''err_open_lots'' (if cnt = 1 then 0 else 2) s }"

definition err_open :: "environment \<Rightarrow> kernel \<Rightarrow> (int \<times> kernel) option" where
  "err_open env s =
     do { (ret, s) \<leftarrow> ece391_open env (lit ''helloo'') s;
          (fail, s) \<leftarrow> expect_error env (litn (CHR 0x27 # ''helloo'' @ CHR 0x27 # '' fail'')) ret 0 s;
          (ret, s) \<leftarrow> ece391_open env (lit ''shel'') s;
          (fail, s) \<leftarrow> expect_error env (litn (CHR 0x27 # ''shel'' @ CHR 0x27 # '' fail'')) ret fail s;
          (ret, s) \<leftarrow> ece391_open env (lit '''') s;
          (fail, s) \<leftarrow> expect_error env (litn ''empty string fail'') ret fail s;
          verdict env ''err_open'' fail s }"

fun close_unopened :: "environment \<Rightarrow> nat list \<Rightarrow> int \<Rightarrow> kernel \<Rightarrow> (int \<times> kernel) option" where
  "close_unopened env [] fail s = Some (fail, s)"
| "close_unopened env (i # is) fail s =
     do { (ret, s) \<leftarrow> ece391_close (int i) s;
          (fail, s) \<leftarrow> expect_error env (litn ''close unopened or invalid fd fail'') ret fail s;
          close_unopened env is fail s }"

fun read_unopened :: "environment \<Rightarrow> u8 list \<Rightarrow> nat list \<Rightarrow> int \<Rightarrow> kernel \<Rightarrow> (u8 list \<times> int \<times> kernel) option" where
  "read_unopened env buf [] fail s = Some (buf, fail, s)"
| "read_unopened env buf (i # is) fail s =
     do { (ret, buf, s) \<leftarrow> ece391_read env (int i) buf 0 31 s;
          (fail, s) \<leftarrow> expect_error env (litn ''read from unopened fd fail'') ret fail s;
          read_unopened env buf is fail s }"

fun write_unopened :: "environment \<Rightarrow> u8 list \<Rightarrow> nat list \<Rightarrow> int \<Rightarrow> kernel \<Rightarrow> (int \<times> kernel) option" where
  "write_unopened env buf [] fail s = Some (fail, s)"
| "write_unopened env buf (i # is) fail s =
     do { (ret, s) \<leftarrow> ece391_write env (int i) (arr_ptr buf) 31 s;
          (fail, s) \<leftarrow> expect_error env (litn ''write to unopened fd fail'') ret fail s;
          write_unopened env buf is fail s }"

definition err_unopened :: "environment \<Rightarrow> (nat \<Rightarrow> u8) \<Rightarrow> kernel \<Rightarrow> (int \<times> kernel) option" where
  "err_unopened env junk s =
     do { (fail, s) \<leftarrow> close_unopened env [0..<8] 0 s;
          (buf, fail, s) \<leftarrow> read_unopened env (local_array 32 junk) [2..<8] fail s;
          (fail, s) \<leftarrow> write_unopened env buf [2..<8] fail s;
          verdict env ''err_unopened'' fail s }"

definition err_vidmap :: "environment \<Rightarrow> kernel \<Rightarrow> (int \<times> kernel) option" where
  "err_vidmap env s =
     do { (ret, s) \<leftarrow> ece391_vidmap 0 s;
          (fail, s) \<leftarrow> expect_error env (litn ''Null pointer fail'') ret 0 s;
          (ret, s) \<leftarrow> ece391_vidmap 0x400000 s;
          (fail, s) \<leftarrow> expect_error env (litn ''Kernel pointer fail fail'') ret fail s;
          verdict env ''err_vidmap'' fail s }"

definition err_stdin_out :: "environment \<Rightarrow> (nat \<Rightarrow> u8) \<Rightarrow> kernel \<Rightarrow> (int \<times> kernel) option" where
  "err_stdin_out env junk s =
     do { let buf = local_array 32 junk;
          (ret, s) \<leftarrow> ece391_write env 0 (arr_ptr buf) 31 s;
          (fail, s) \<leftarrow> expect_error env (litn ''write to stdin fail'') ret 0 s;
          (ret, buf, s) \<leftarrow> ece391_read env 1 buf 0 31 s;
          (fail, s) \<leftarrow> expect_error env (litn ''read from stdout fail'') ret fail s;
          verdict env ''err_stdin_out'' fail s }"

definition err_syscall_num :: "environment \<Rightarrow> stack_frame \<Rightarrow> u32 \<times> u32 \<times> u32 \<Rightarrow> kernel \<Rightarrow> (int \<times> kernel) option" where
  "err_syscall_num env frame regs s =
     do { (ret, s) \<leftarrow> call_sys env frame regs BIG_NUM s;
          (fail, s) \<leftarrow> expect_error env (litn ''syscall 0 fail'') ret 0 s;
          (ret, s) \<leftarrow> call_sys env frame regs NEG_NUM s;
          (fail, s) \<leftarrow> expect_error env (litn ''big num syscall fail'') ret fail s;
          (ret, s) \<leftarrow> call_sys env frame regs 0 s;
          (fail, s) \<leftarrow> expect_error env (litn ''neg num syscall fail'') ret fail s;
          verdict env ''err_syscall_num'' fail s }"

section \<open>The program\<close>

text \<open>The case \<^verbatim>\<open>0\<close> of \<^verbatim>\<open>main\<close>: all tests.\<close>

definition syserr_all :: "environment \<Rightarrow> stack_frame \<Rightarrow> u32 \<times> u32 \<times> u32 \<Rightarrow> (nat \<Rightarrow> u8) \<Rightarrow> kernel \<Rightarrow> (int \<times> kernel) option" where
  "syserr_all env frame regs junk s =
     do { (f1, s) \<leftarrow> err_neg_fd env junk s;
          (f2, s) \<leftarrow> err_big_fd env junk s;
          (f3, s) \<leftarrow> err_open_lots env s;
          (f4, s) \<leftarrow> err_open env s;
          (f5, s) \<leftarrow> err_unopened env junk s;
          (f6, s) \<leftarrow> err_vidmap env s;
          (f7, s) \<leftarrow> err_stdin_out env junk s;
          (f8, s) \<leftarrow> err_syscall_num env frame regs s;
          let fail = f1 + f2 + f3 + f4 + f5 + f6 + f7 + f8;
          s \<leftarrow> ece391_fdputs env 1 (arr_ptr (0x0A # cbytes (if fail \<noteq> 0 then ''Overall Tests: FAIL'' else ''Overall Tests: PASS'') @ [0x0A, 0])) s;
          Some (fail, s) }"

definition syserr_main :: "environment \<Rightarrow> stack_frame \<Rightarrow> u32 \<times> u32 \<times> u32 \<Rightarrow> (nat \<Rightarrow> u8) \<Rightarrow> kernel \<Rightarrow> (int \<times> kernel) option" where
  "syserr_main env frame regs junk s =
     do { s \<leftarrow> ece391_fdputs env 1 (lit ''Choose from tests 1-8. 0 to run all: '') s;
          (cnt, buf, s) \<leftarrow> ece391_read env 0 (local_array 128 junk) 0 127 s;
          if -1 = cnt then do { s \<leftarrow> ece391_fdputs env 1 (litn ''Can't read test #'') s; Some (2, s) }
          else do { c \<leftarrow> aget buf 0;
                    let select = uint c - 0x30;
                    if select = 0 then syserr_all env frame regs junk s
                    else if select = 1 then err_neg_fd env junk s
                    else if select = 2 then err_big_fd env junk s
                    else if select = 3 then err_open_lots env s
                    else if select = 4 then err_open env s
                    else if select = 5 then err_unopened env junk s
                    else if select = 6 then err_vidmap env s
                    else if select = 7 then err_stdin_out env junk s
                    else if select = 8 then err_syscall_num env frame regs s
                    else do { s \<leftarrow> ece391_fdputs env 1 (lit ''Invalid test number. Choose from tests 1-8 or 0'') s;
                              Some (0, s) } } }"

section \<open>The kernel passes\<close>

text \<open>The state the tests run in: no descriptor but the standard ones is open.\<close>

definition vacant :: "kernel \<Rightarrow> bool" where
  "vacant s \<longleftrightarrow> (\<forall>k. 2 \<le> k \<and> k < 8 \<longrightarrow> flags (fd_entry (cur_pcb s) k) = FREE)"

definition test_state :: "u32 \<Rightarrow> kernel \<Rightarrow> bool" where
  "test_state inode s \<longleftrightarrow> stdout_ok s \<and> vacant s \<and> off_screen s inode"

definition pass_text :: "string \<Rightarrow> u8 list" where
  "pass_text test = cbytes (test @ '': PASS'') @ [0x0A]"

text \<open>A test is passed: it returns 0 having printed its line, and the next test can run.\<close>

definition passed :: "u32 \<Rightarrow> (int \<times> kernel) option \<Rightarrow> u8 list \<Rightarrow> kernel \<Rightarrow> bool" where
  "passed inode r msg s \<longleftrightarrow> (\<exists>s'. r = Some (0, s') \<and> shown msg s s' \<and> test_state inode s' \<and> dentry_list s' = dentry_list s)"

lemma expect_error_met [simp]: "expect_error env msg (-1) fail s = Some (fail, s)"
  by (simp add: expect_error_def)

lemma read_refused: "read_call env fd USER_BUF n s = Some (-1, [], s) \<Longrightarrow> ece391_read env fd buf 0 n s = Some (-1, buf, s)"
  by (simp add: ece391_read_def astore_at_def)

lemma verdict_passed:
  assumes "shown [] s s'" "vacant s'" "test_state inode s"
    and plain: "list_all (\<lambda>c. 0x20 \<le> (of_nat (of_char c) :: u8)) test" "length test < 1000"
  shows "passed inode (verdict env test 0 s') (pass_text test) s"
proof -
  let ?m = "pass_text test"
  have "0x0D \<notin> set ?m" "0 \<notin> set ?m" "length ?m < 2147483648"
    using plain by (fastforce simp: pass_text_def cbytes_def list_all_iff)+
  moreover from this have "cstr (litn (test @ '': PASS'')) ?m"
    using cstr_arr_ptr [of ?m "[]"] by (simp add: pass_text_def)
  ultimately obtain s'' where s'': "ece391_fdputs env 1 (litn (test @ '': PASS'')) s' = Some s''" "shown ?m s' s''" "cur_pcb s'' = cur_pcb s'"
    using fdputs_shows [OF shown_stdout_ok [OF assms(1)], of "litn (test @ '': PASS'')" ?m env] by blast
  have sh: "shown ?m s s''" using shown_trans [OF assms(1) s''(2)] by simp
  have os: "off_screen s inode" using assms(3) by (simp add: test_state_def)
  have "vacant s''" using assms(2) by (simp add: vacant_def s''(3))
  then show ?thesis
    using s''(1) sh off_screen_shown [OF os sh] shown_stdout_ok [OF sh]
    by (auto simp: passed_def verdict_def test_state_def)
qed

lemma passedI:
  "test_state inode s \<Longrightarrow> r = verdict env test 0 s \<Longrightarrow> list_all (\<lambda>c. 0x20 \<le> (of_nat (of_char c) :: u8)) test \<Longrightarrow>
   length test < 1000 \<Longrightarrow> passed inode r (pass_text test) s"
  using verdict_passed [of s s inode test env] by (simp add: test_state_def shown_refl)

lemma err_bad_fd_refused: "fd < 0 \<or> 8 \<le> fd \<Longrightarrow> err_bad_fd env junk fd s = Some (0, s)"
proof -
  assume "fd < 0 \<or> 8 \<le> fd"
  then have bad: "fd < 0 \<or> 8 \<le> fd \<or> flags (fd_entry (cur_pcb s) (nat fd)) = FREE" by blast
  show ?thesis
    by (simp add: err_bad_fd_def read_refused ece391_write_def ece391_close_def bad_descriptor [OF bad])
qed

lemma err_neg_fd_passes: "test_state inode s \<Longrightarrow> passed inode (err_neg_fd env junk s) (pass_text ''err_neg_fd'') s"
  by (rule passedI [where env = env]) (simp_all add: err_neg_fd_def err_bad_fd_refused)

lemma err_big_fd_passes: "test_state inode s \<Longrightarrow> passed inode (err_big_fd env junk s) (pass_text ''err_big_fd'') s"
  by (rule passedI [where env = env]) (simp_all add: err_big_fd_def err_bad_fd_refused)

lemma err_vidmap_passes: "test_state inode s \<Longrightarrow> passed inode (err_vidmap env s) (pass_text ''err_vidmap'') s"
  by (rule passedI [where env = env]) (simp_all add: err_vidmap_def ece391_vidmap_def vidmap_def)

lemma err_stdin_out_passes: "test_state inode s \<Longrightarrow> passed inode (err_stdin_out env junk s) (pass_text ''err_stdin_out'') s"
  by (rule passedI [where env = env]) (simp_all add: err_stdin_out_def ece391_write_def write_call_def read_refused read_call_def)

lemma err_syscall_num_passes:
  "test_state inode s \<Longrightarrow> passed inode (err_syscall_num env frame regs s) (pass_text ''err_syscall_num'') s"
proof -
  assume t: "test_state inode s"
  obtain ebx ecx edx where r: "regs = (ebx, ecx, edx)" by (cases regs) auto
  have "call_sys env frame regs n s = Some (-1, s)" if "n = 1073741823 \<or> n = -1073741823 \<or> n = 0" for n
    using sys_handler_bad_number [of "word_of_int n" env frame ebx ecx edx s] that by (auto simp: call_sys_def r)
  then show ?thesis by (intro passedI [OF t, where env = env]) (simp_all add: err_syscall_num_def)
qed

lemma unopened_refused:
  assumes "vacant s"
  shows "set is \<subseteq> {0..<8} \<Longrightarrow> close_unopened env is fail s = Some (fail, s)"
    and "set is \<subseteq> {2..<8} \<Longrightarrow> read_unopened env buf is fail s = Some (buf, fail, s)"
    and "set is \<subseteq> {2..<8} \<Longrightarrow> write_unopened env buf is fail s = Some (fail, s)"
proof -
  have free: "flags (fd_entry (cur_pcb s) k) = FREE" if "2 \<le> k" "k < 8" for k using assms that by (simp add: vacant_def)
  have c: "close_call (int k) s = Some (-1, s)" if "k < 8" for k
    using free [of k] that by (auto simp: close_call_def Let_def)
  show "set is \<subseteq> {0..<8} \<Longrightarrow> close_unopened env is fail s = Some (fail, s)"
    by (induction "is") (simp_all add: ece391_close_def c)
  show "set is \<subseteq> {2..<8} \<Longrightarrow> read_unopened env buf is fail s = Some (buf, fail, s)"
    by (induction "is") (simp_all add: read_refused bad_descriptor free)
  show "set is \<subseteq> {2..<8} \<Longrightarrow> write_unopened env buf is fail s = Some (fail, s)"
    by (induction "is") (simp_all add: ece391_write_def bad_descriptor free)
qed

lemma err_unopened_passes: "test_state inode s \<Longrightarrow> passed inode (err_unopened env junk s) (pass_text ''err_unopened'') s"
  by (rule passedI [where env = env])
     (simp_all add: err_unopened_def unopened_refused test_state_def del: upt_rec_numeral)

text \<open>\<^verbatim>\<open>err_open_lots\<close>: descriptors 2 to \<open>k + 1\<close> are taken.\<close>

definition taken :: "nat \<Rightarrow> kernel \<Rightarrow> bool" where
  "taken k s \<longleftrightarrow> (\<forall>j. 2 \<le> j \<and> j < 8 \<longrightarrow> (flags (fd_entry (cur_pcb s) j) = FREE \<longleftrightarrow> k + 2 \<le> j))"

lemma dot_name: "cstr (lit ''.'') (cbytes ''.'')" "take 5 (cbytes ''.'') \<noteq> cbytes ''stdin''" "take 6 (cbytes ''.'') \<noteq> cbytes ''stdout''"
  by (rule cstr_arr_ptr, simp_all add: cbytes_def)

lemma find_fd_taken:
  assumes "taken k s" "k \<le> 6"
  shows "find_fd (cur_pcb s) [2..<8] = (if k < 6 then Some (k + 2) else None)"
proof (cases "find_fd (cur_pcb s) [2..<8]")
  case None
  then have "\<forall>i \<in> {2..<8}. flags (fd_entry (cur_pcb s) i) \<noteq> FREE" unfolding find_fd_None set_upt .
  moreover have "flags (fd_entry (cur_pcb s) (k + 2)) = FREE" "k + 2 \<in> {2..<8}" if "k < 6" using that assms by (simp_all add: taken_def)
  ultimately have "\<not> k < 6" by blast
  then show ?thesis using None by simp
next
  case (Some i)
  then have i: "2 \<le> i" "i < 8" "flags (fd_entry (cur_pcb s) i) = FREE" using find_fd_Some by fastforce+
  then have ki: "k + 2 \<le> i" using assms(1) by (simp add: taken_def)
  have "\<not> k + 2 < i"
  proof
    assume l: "k + 2 < i"
    then have "k + 2 \<in> set [2..<8]" using i by (simp only: set_upt atLeastLessThan_iff) linarith
    then have "flags (fd_entry (cur_pcb s) (k + 2)) \<noteq> FREE" using find_fd_least [OF sorted_upt Some _ l] by blast
    then show False using assms(1) l i by (simp add: taken_def)
  qed
  then show ?thesis using Some ki i by simp
qed

lemma open_times_taken:
  assumes "stdout_ok s" "off_screen s inode" "List.find (name_found (cbytes ''.'')) (dentry_list s) = Some d" "file_type d = 1"
    and "taken k s" "k \<le> 6"
  shows "\<exists>s'. open_times env n cnt s = Some (cnt + int (k + n - 6), s') \<and> shown [] s s'"
  using assms(1-3,5,6)
proof (induction n arbitrary: s k cnt)
  case 0
  then show ?case by (simp add: shown_refl)
next
  case (Suc n)
  show ?case
  proof (cases "k < 6")
    case True
    have fd: "find_fd (cur_pcb s) [2..<8] = Some (k + 2)" using find_fd_taken [OF Suc.prems(4,5)] True by simp
    have tbl: "table_of_type (file_type d) = Some directory_table" "directory_table \<noteq> rtc_table"
      using assms(4) by (simp_all add: table_of_type_def table_defs)
    let ?s1 = "set_fd (k + 2) (opened d directory_table) s"
    have op: "ece391_open env (lit ''.'') s = Some (int (k + 2), ?s1)"
      using fd tbl Suc.prems(3) unfolding ece391_open_def open_call_eq [OF dot_name] by simp
    have sh: "shown [] s ?s1" using Suc.prems(1) True by (intro shown_set_fd) (auto simp: entry_ok_def opened_def)
    note os = off_screen_shown [OF Suc.prems(2) sh]
    have tk: "taken (Suc k) ?s1" using Suc.prems(4) by (auto simp: taken_def opened_def)
    have "\<exists>s'. open_times env n cnt ?s1 = Some (cnt + int (Suc k + n - 6), s') \<and> shown [] ?s1 s'"
      using Suc.IH [OF shown_stdout_ok [OF sh] os(1) _ tk] Suc.prems(3) os(2) True by simp
    then show ?thesis using op shown_trans [OF sh] by fastforce
  next
    case False
    then have "ece391_open env (lit ''.'') s = Some (-1, s)"
      using find_fd_taken [OF Suc.prems(4,5)] Suc.prems(3) unfolding ece391_open_def open_call_eq [OF dot_name] by simp
    then show ?thesis using Suc.IH [OF Suc.prems(1-5), of "cnt + 1"] False Suc.prems(5) by auto
  qed
qed

lemma close_each_vacates:
  assumes "stdout_ok s" "set is \<subseteq> {2..<8}"
  shows "\<exists>s'. close_each is s = Some s' \<and> shown [] s s' \<and>
    (\<forall>j. j \<in> set is \<or> flags (fd_entry (cur_pcb s) j) = FREE \<longrightarrow> flags (fd_entry (cur_pcb s') j) = FREE)"
  using assms
proof (induction "is" arbitrary: s)
  case Nil
  then show ?case by (simp add: shown_refl)
next
  case (Cons i "is")
  have i: "2 \<le> i" "i < 8" using Cons.prems(2) by auto
  have fds: "fds_ok (cur_pcb s)" using Cons.prems(1) by (simp add: stdout_ok_def)
  obtain r s1 where s1: "close_call (int i) s = Some (r, s1)" "shown [] s s1"
      "flags (fd_entry (cur_pcb s1) i) = FREE" "\<And>j. flags (fd_entry (cur_pcb s) j) = FREE \<Longrightarrow> flags (fd_entry (cur_pcb s1) j) = FREE"
    using close_call_eq [OF fds, of "int i"] i shown_set_fd [OF Cons.prems(1) entry_ok_free [OF i(1)]] shown_refl [OF Cons.prems(1)]
    by (auto simp: free_entry_def split: if_splits)
  obtain s' where "close_each is s1 = Some s'" "shown [] s1 s'"
      "\<forall>j. j \<in> set is \<or> flags (fd_entry (cur_pcb s1) j) = FREE \<longrightarrow> flags (fd_entry (cur_pcb s') j) = FREE"
    using Cons.IH [OF shown_stdout_ok [OF s1(2)]] Cons.prems(2) by auto
  then show ?case using s1 shown_trans [OF s1(2)] by (fastforce simp: ece391_close_def)
qed

lemma err_open_lots_passes:
  assumes t: "test_state inode s" and dot: "List.find (name_found (cbytes ''.'')) (dentry_list s) = Some d" "file_type d = 1"
  shows "passed inode (err_open_lots env s) (pass_text ''err_open_lots'') s"
proof -
  have "taken 0 s" using t by (simp add: test_state_def vacant_def taken_def)
  then obtain s1 where s1: "open_times env 7 0 s = Some (1, s1)" "shown [] s s1"
    using open_times_taken [of s inode d 0 env 7 0] t dot by (auto simp: test_state_def)
  obtain s2 where s2: "close_each [2..<8] s1 = Some s2" "shown [] s1 s2" "\<forall>j. j \<in> {2..<8} \<longrightarrow> flags (fd_entry (cur_pcb s2) j) = FREE"
    using close_each_vacates [OF shown_stdout_ok [OF s1(2)], of "[2..<8]"] unfolding set_upt by blast
  have "vacant s2" using s2(3) by (simp add: vacant_def)
  then have "passed inode (verdict env ''err_open_lots'' 0 s2) (pass_text ''err_open_lots'') s"
    using verdict_passed [OF shown_trans [OF s1(2) s2(2), simplified] _ t] by simp
  then show ?thesis using s1(1) s2(1) by (simp add: err_open_lots_def del: upt_rec_numeral)
qed

lemma open_missing:
  assumes "cstr p xs" "take 5 xs \<noteq> cbytes ''stdin''" "take 6 xs \<noteq> cbytes ''stdout''" "List.find (name_found xs) (dentry_list s) = None"
  shows "ece391_open env p s = Some (-1, s)"
  using assms by (simp add: ece391_open_def open_call_eq)

lemma err_open_passes:
  assumes t: "test_state inode s"
    and missing: "\<forall>xs \<in> {cbytes ''helloo'', cbytes ''shel'', cbytes []}. List.find (name_found xs) (dentry_list s) = None"
  shows "passed inode (err_open env s) (pass_text ''err_open'') s"
proof -
  have c: "cstr (lit x) (cbytes x)" if "x \<in> {''helloo'', ''shel'', []}" for x
    using that by (intro cstr_arr_ptr) (auto simp: cbytes_def)
  have "ece391_open env (lit x) s = Some (-1, s)" if "x \<in> {''helloo'', ''shel'', []}" for x
    using that missing by (intro open_missing [OF c]) (auto simp: cbytes_def)
  then show ?thesis by (intro passedI [OF t, where env = env]) (simp_all add: err_open_def)
qed

text \<open>What the whole program prints when every test passes.\<close>

definition all_passed :: "u8 list" where
  "all_passed = concat (map pass_text [''err_neg_fd'', ''err_big_fd'', ''err_open_lots'', ''err_open'', ''err_unopened'',
     ''err_vidmap'', ''err_stdin_out'', ''err_syscall_num'']) @ 0x0A # pass_text ''Overall Tests''"

lemma passed_then:
  assumes "passed inode r msg s"
  obtains s' where "r = Some (0, s')" "shown msg s s'" "test_state inode s'" "dentry_list s' = dentry_list s"
  using assms by (auto simp: passed_def)

lemma syserr_all_passes:
  assumes t: "test_state inode s" and dot: "List.find (name_found (cbytes ''.'')) (dentry_list s) = Some d" "file_type d = 1"
    and missing: "\<forall>xs \<in> {cbytes ''helloo'', cbytes ''shel'', cbytes []}. List.find (name_found xs) (dentry_list s) = None"
  shows "\<exists>s'. syserr_all env frame regs junk s = Some (0, s') \<and> shown all_passed s s'"
proof -
  obtain s1 where 1: "err_neg_fd env junk s = Some (0, s1)" "shown (pass_text ''err_neg_fd'') s s1" "test_state inode s1" "dentry_list s1 = dentry_list s"
    using err_neg_fd_passes [OF t] by (rule passed_then)
  obtain s2 where 2: "err_big_fd env junk s1 = Some (0, s2)" "shown (pass_text ''err_big_fd'') s1 s2" "test_state inode s2" "dentry_list s2 = dentry_list s1"
    using err_big_fd_passes [OF 1(3)] by (rule passed_then)
  have "passed inode (err_open_lots env s2) (pass_text ''err_open_lots'') s2"
    using err_open_lots_passes [OF 2(3)] dot 1(4) 2(4) by simp
  then obtain s3 where 3: "err_open_lots env s2 = Some (0, s3)" "shown (pass_text ''err_open_lots'') s2 s3" "test_state inode s3" "dentry_list s3 = dentry_list s2"
    by (rule passed_then)
  have "passed inode (err_open env s3) (pass_text ''err_open'') s3"
    using err_open_passes [OF 3(3)] missing 1(4) 2(4) 3(4) by simp
  then obtain s4 where 4: "err_open env s3 = Some (0, s4)" "shown (pass_text ''err_open'') s3 s4" "test_state inode s4" by (rule passed_then)
  obtain s5 where 5: "err_unopened env junk s4 = Some (0, s5)" "shown (pass_text ''err_unopened'') s4 s5" "test_state inode s5"
    using err_unopened_passes [OF 4(3)] by (rule passed_then)
  obtain s6 where 6: "err_vidmap env s5 = Some (0, s6)" "shown (pass_text ''err_vidmap'') s5 s6" "test_state inode s6"
    using err_vidmap_passes [OF 5(3)] by (rule passed_then)
  obtain s7 where 7: "err_stdin_out env junk s6 = Some (0, s7)" "shown (pass_text ''err_stdin_out'') s6 s7" "test_state inode s7"
    using err_stdin_out_passes [OF 6(3)] by (rule passed_then)
  obtain s8 where 8: "err_syscall_num env frame regs s7 = Some (0, s8)" "shown (pass_text ''err_syscall_num'') s7 s8" "test_state inode s8"
    using err_syscall_num_passes [OF 7(3)] by (rule passed_then)
  let ?m = "0x0A # pass_text ''Overall Tests''"
  have m: "0 \<notin> set ?m" "0x0D \<notin> set ?m" "length ?m < 2147483648" by (simp_all add: pass_text_def cbytes_def)
  have c: "cstr (arr_ptr (?m @ [0])) ?m" using cstr_arr_ptr [OF m(1), of "[]"] m(3) by simp
  obtain s9 where 9: "ece391_fdputs env 1 (arr_ptr (?m @ [0])) s8 = Some s9" "shown ?m s8 s9"
    using fdputs_shows [OF _ c m(3,2), of s8 env] 8(3) by (auto simp: test_state_def)
  have "syserr_all env frame regs junk s = Some (0, s9)"
    using 9(1) by (simp add: syserr_all_def 1 2 3 4 5 6 7 8 pass_text_def cbytes_def)
  moreover have "shown all_passed s s9"
    using shown_trans [OF 1(2) shown_trans [OF 2(2) shown_trans [OF 3(2) shown_trans [OF 4(2) shown_trans [OF 5(2)
        shown_trans [OF 6(2) shown_trans [OF 7(2) shown_trans [OF 8(2) 9(2)]]]]]]]]
    by (simp add: all_passed_def)
  ultimately show ?thesis by blast
qed

end
