(* ===== verification/Grep.thy ===== *)
theory Grep
  imports User_Programs "HOL-Library.Sublist"
begin

text \<open>
  Correctness of \<^verbatim>\<open>do_one_file\<close> of \<^verbatim>\<open>syscalls/ece391grep.c\<close>: although it works on chunks of 1024 bytes, moves
  incomplete lines to the front of its buffer and cuts lines with NULs in place, it prints exactly the
  lines of the file that contain the search string.
\<close>

section \<open>Lines and matches\<close>

fun lines_of :: "u8 list \<Rightarrow> u8 list list" where
  "lines_of [] = []"
| "lines_of (c # cs) = (if c = 0x0A then [] # lines_of cs
     else case lines_of cs of [] \<Rightarrow> [[c]] | l # ls \<Rightarrow> (c # l) # ls)"

text \<open>The search never finds a string whose first byte is above 0x7F.\<close>

definition hit :: "u8 list \<Rightarrow> u8 list \<Rightarrow> bool" where
  "hit sx lx \<longleftrightarrow> sx \<noteq> [] \<and> hd sx < 128 \<and> sublist sx lx"

definition report :: "u8 list \<Rightarrow> u8 list \<Rightarrow> u8 list \<Rightarrow> u8 list" where
  "report sx fx lx = (if hit sx lx then fx @ [0x3A] @ lx @ [0x0A] else [])"

definition grep_text :: "u8 list \<Rightarrow> u8 list \<Rightarrow> u8 list list \<Rightarrow> u8 list" where
  "grep_text sx fx ls = concat (map (report sx fx) ls)"

lemma lines_of_line: "0x0A \<notin> set lx \<Longrightarrow> lines_of (lx @ 0x0A # rest) = lx # lines_of rest"
  by (induction lx) auto

lemma lines_of_last: "0x0A \<notin> set lx \<Longrightarrow> lx \<noteq> [] \<Longrightarrow> lines_of lx = [lx]"
proof (induction lx)
  case (Cons c cs)
  then show ?case by (cases "cs = []") auto
qed simp

lemma split_line:
  obtains (more) lx rest where "xs = lx @ 0x0A # rest" "0x0A \<notin> set lx" | (last) "0x0A \<notin> set xs"
  using split_list_first [of "0x0A" xs] by blast

lemma lines_of_append:
  "xs = [] \<or> last xs = 0x0A \<Longrightarrow> lines_of (xs @ ys) = lines_of xs @ lines_of ys"
proof (induction xs rule: length_induct)
  case (1 xs)
  show ?case
  proof (cases xs rule: split_line)
    case (more lx rest)
    then have "length rest < length xs" "rest = [] \<or> last rest = 0x0A" using 1(2) by (auto split: if_splits)
    then have "lines_of (rest @ ys) = lines_of rest @ lines_of ys" using 1(1) by blast
    then show ?thesis using more by (simp add: lines_of_line)
  next
    case last
    have "xs = []"
    proof (rule ccontr)
      assume "xs \<noteq> []"
      then show False using 1(2) last last_in_set [of xs] by simp
    qed
    then show ?thesis by simp
  qed
qed

lemma first_line_longer:
  "0x0A \<notin> set part \<Longrightarrow> part \<noteq> [] \<Longrightarrow> \<exists>l ls. lines_of (part @ r) = l # ls \<and> length part \<le> length l"
proof (induction part)
  case (Cons c cs)
  then show ?case by (cases "cs = []") (auto split: list.splits)
qed simp

lemma sublist_at: "sx \<noteq> [] \<Longrightarrow> sublist sx lx \<longleftrightarrow> (\<exists>k < length lx. take (length sx) (drop k lx) = sx)"
proof
  assume "sx \<noteq> []" "sublist sx lx"
  then obtain ps ss where "lx = ps @ sx @ ss" by (auto simp: sublist_def)
  then show "\<exists>k < length lx. take (length sx) (drop k lx) = sx"
    using \<open>sx \<noteq> []\<close> by (intro exI [of _ "length ps"]) simp
next
  assume "\<exists>k < length lx. take (length sx) (drop k lx) = sx"
  then obtain k where "take (length sx) (drop k lx) = sx" by blast
  then have "lx = take k lx @ sx @ drop (length sx) (drop k lx)"
    by (metis append_take_drop_id)
  then show "sublist sx lx" by (metis sublist_appendI)
qed

section \<open>Comparing strings\<close>

lemma ece391_strncmp_loop_cstr:
  assumes "cstr s xs" "cstr t ys"
  shows "k \<le> length xs \<Longrightarrow> k \<le> length ys \<Longrightarrow> n \<noteq> 0 \<Longrightarrow> \<exists>d. ece391_strncmp_loop s t n (of_nat k) = Some d \<and>
    (d = 0 \<longleftrightarrow> take (unat n) (drop k xs) = take (unat n) (drop k ys))"
proof (induction "unat n" arbitrary: k n)
  case 0
  then show ?case by (simp add: unat_eq_zero)
next
  case (Suc m)
  have s: "s (of_nat k) = Some ((xs @ [0]) ! k)" and t: "t (of_nat k) = Some ((ys @ [0]) ! k)"
    using assms Suc.prems(1,2) by (auto simp: cstr_def)
  let ?a = "(xs @ [0]) ! k" and ?b = "(ys @ [0]) ! k"
  have m: "unat (n - 1) = m" using Suc.hyps(2) Suc.prems(3) by (simp add: unat_minus_one)
  have nz: "k < length xs \<Longrightarrow> ?a \<noteq> 0" "k < length ys \<Longrightarrow> ?b \<noteq> 0"
    using cstr_char [OF assms(1)] cstr_char [OF assms(2)] by (auto simp: nth_append)
  have step: "take (unat n) (drop k xs) = take (unat n) (drop k ys) \<longleftrightarrow>
      ?a = ?b \<and> (?a = 0 \<or> take m (drop (Suc k) xs) = take m (drop (Suc k) ys))"
    using nz Suc.prems(1,2) Suc.hyps(2) [symmetric]
    by (cases "k < length xs"; cases "k < length ys")
       (auto simp: nth_append Cons_nth_drop_Suc [symmetric] split: if_splits)
  have u: "uint ?a = uint ?b \<longleftrightarrow> ?a = ?b" by (metis unsigned_word_eqI)
  show ?case
  proof (cases "?a = ?b \<and> ?a \<noteq> 0 \<and> n - 1 \<noteq> 0")
    case True
    then have "k < length xs" "k < length ys" using Suc.prems(1,2) by (auto simp: nth_append split: if_splits)
    then have "\<exists>d. ece391_strncmp_loop s t (n - 1) (of_nat (Suc k)) = Some d \<and>
        (d = 0 \<longleftrightarrow> take (unat (n - 1)) (drop (Suc k) xs) = take (unat (n - 1)) (drop (Suc k) ys))"
      using True m by (intro Suc.hyps(1)) simp_all
    then show ?thesis
      unfolding step using s t True m by (subst ece391_strncmp_loop.simps) (auto simp: add.commute)
  next
    case False
    have "m = 0" if "n - 1 = 0" using m that by simp
    then show ?thesis
      unfolding step using s t False u by (subst ece391_strncmp_loop.simps) auto
  qed
qed

lemma ece391_strncmp_cstr:
  assumes "cstr s xs" "cstr t ys"
  shows "\<exists>d. ece391_strncmp s t n = Some d \<and> (d = 0 \<longleftrightarrow> take (unat n) xs = take (unat n) ys)"
  using ece391_strncmp_loop_cstr [OF assms, of 0 n] by (auto simp: ece391_strncmp_def)

section \<open>Moving a line to the front\<close>

lemma ece391_strcpy_down:
  assumes "dst \<le> src" "drop src a = zs @ 0 # r" "0 \<notin> set zs"
  shows "ece391_strcpy a dst src = Some (take dst a @ zs @ 0 # drop (Suc (dst + length zs)) a)"
  using assms
proof (induction zs arbitrary: a dst src)
  case Nil
  then have src: "src < length a" "a ! src = 0"
    by (metis append_Nil drop_eq_Nil list.distinct(1) not_le, metis append_Nil nth_via_drop)
  then have "dst < length a" using Nil by simp
  then show ?case using src by (subst ece391_strcpy.simps) (simp add: upd_conv_take_nth_drop)
next
  case (Cons z zs)
  then have src: "src < length a" "a ! src = z"
    by (metis append_Cons drop_eq_Nil list.distinct(1) not_le, metis append_Cons nth_via_drop)
  have dst: "dst < length a" using Cons.prems(1) src by simp
  let ?a = "a[dst := z]"
  have "drop (Suc src) a = zs @ 0 # r" using Cons.prems(2) by (metis append_Cons drop_Suc list.sel(3) tl_drop)
  then have "drop (Suc src) ?a = zs @ 0 # r" using Cons.prems(1) by simp
  then have "ece391_strcpy ?a (Suc dst) (Suc src) = Some (take (Suc dst) ?a @ zs @ 0 # drop (Suc (Suc dst + length zs)) ?a)"
    using Cons.prems by (intro Cons.IH) simp_all
  then show ?case
    using src dst Cons.prems(3) by (subst ece391_strcpy.simps) (simp add: take_Suc_conv_app_nth)
qed
section \<open>One line\<close>

lemma find_line_end_at:
  "0x0A \<notin> set lx \<Longrightarrow> lst = length pre + length lx \<or> (lst > length pre + length lx \<and> (\<exists>post'. post = 0x0A # post')) \<Longrightarrow>
   find_line_end (pre @ lx @ post) (length pre) lst = Some (length pre + length lx)"
proof (induction lx arbitrary: pre)
  case Nil
  then show ?case by (subst find_line_end.simps) (auto simp: aget_def nth_append)
next
  case (Cons c cs)
  have "find_line_end ((pre @ [c]) @ cs @ post) (length (pre @ [c])) lst = Some (length (pre @ [c]) + length cs)"
    using Cons.prems by (intro Cons.IH) auto
  then show ?case using Cons.prems by (subst find_line_end.simps) (auto simp: aget_def nth_append)
qed

text \<open>What the search relies on: the search string, the file name and the line are proper strings.\<close>

definition search_ok :: "rptr \<Rightarrow> u8 list \<Rightarrow> rptr \<Rightarrow> u8 list \<Rightarrow> bool" where
  "search_ok str sx fname fx \<longleftrightarrow> cstr str sx \<and> cstr fname fx \<and> length fx < 2147483648 \<and> 0x0D \<notin> set fx"

definition text_ok :: "u8 list \<Rightarrow> bool" where
  "text_ok xs \<longleftrightarrow> 0 \<notin> set xs \<and> 0x0D \<notin> set xs \<and> length xs < 2147483648"

lemma report_shows:
  assumes "stdout_ok s" "search_ok str sx fname fx" "text_ok lx"
  shows "\<exists>s'. do { s \<leftarrow> ece391_fdputs env 1 fname s; s \<leftarrow> ece391_fdputs env 1 (lit '':'') s;
      s \<leftarrow> ece391_fdputs env 1 (arr_ptr (lx @ 0 # post)) s; ece391_fdputs env 1 (arr_ptr (cbytes [] @ [0x0A, 0])) s } = Some s' \<and>
    shown (fx @ [0x3A] @ lx @ [0x0A]) s s' \<and> cur_pcb s' = cur_pcb s"
proof -
  have c: "cstr (lit '':'') [0x3A]" "cstr (arr_ptr (cbytes [] @ [0x0A, 0])) [0x0A]" "cstr (arr_ptr (lx @ 0 # post)) lx"
    using cstr_arr_ptr [of "[0x3A]" "[]"] cstr_arr_ptr [of "[0x0A]" "[]"] cstr_arr_ptr [of lx post] assms(3)
    by (simp_all add: cbytes_def text_ok_def)
  obtain s1 where 1: "ece391_fdputs env 1 fname s = Some s1" "shown fx s s1" "cur_pcb s1 = cur_pcb s"
    using fdputs_shows [OF assms(1), of fname fx env] assms(2) by (auto simp: search_ok_def)
  obtain s2 where 2: "ece391_fdputs env 1 (lit '':'') s1 = Some s2" "shown [0x3A] s1 s2" "cur_pcb s2 = cur_pcb s1"
    using fdputs_shows [OF shown_stdout_ok [OF 1(2)] c(1), of env] by auto
  obtain s3 where 3: "ece391_fdputs env 1 (arr_ptr (lx @ 0 # post)) s2 = Some s3" "shown lx s2 s3" "cur_pcb s3 = cur_pcb s2"
    using fdputs_shows [OF shown_stdout_ok [OF 2(2)] c(3), of env] assms(3) by (auto simp: text_ok_def)
  obtain s4 where 4: "ece391_fdputs env 1 (arr_ptr (cbytes [] @ [0x0A, 0])) s3 = Some s4" "shown [0x0A] s3 s4" "cur_pcb s4 = cur_pcb s3"
    using fdputs_shows [OF shown_stdout_ok [OF 3(2)] c(2), of env] by auto
  have "shown (fx @ [0x3A] @ lx @ [0x0A]) s s4"
    using shown_trans [OF 1(2) shown_trans [OF 2(2) shown_trans [OF 3(2) 4(2)]]] .
  then show ?thesis using 1 2 3 4 by auto
qed

text \<open>The search from column \<open>j\<close> of the line on.\<close>

lemma search_line_from:
  assumes ok: "stdout_ok s" "search_ok str sx fname fx" "text_ok lx" and len: "length (pre @ lx @ 0 # post) < 4294967296"
  shows "j \<le> length lx \<Longrightarrow> \<exists>s'. search_line env str (of_nat (length sx)) fname (pre @ lx @ 0 # post) (length pre)
      (length pre + j) (length pre + length lx) s = Some s' \<and> cur_pcb s' = cur_pcb s \<and>
    shown (if \<exists>k. j \<le> k \<and> k < length lx \<and> sx \<noteq> [] \<and> hd sx < 128 \<and> take (length sx) (drop k lx) = sx
           then fx @ [0x3A] @ lx @ [0x0A] else []) s s'"
proof (induction "length lx - j" arbitrary: j)
  case 0
  then show ?case using ok(1) by (subst search_line.simps) (auto simp: shown_refl)
next
  case (Suc n)
  then have j: "j < length lx" by simp
  let ?data = "pre @ lx @ 0 # post"
  have str: "cstr str sx" using ok(2) by (simp add: search_ok_def)
  have ls: "length sx < 4294967296" using cstr_length [OF str] .
  have d: "aget ?data (length pre + j) = Some (lx ! j)" using j by (simp add: aget_def nth_append)
  have dj: "drop (length pre + j) ?data = drop j lx @ 0 # post" "drop (length pre) ?data = lx @ 0 # post" using j by simp_all
  have lj: "lx ! j \<noteq> 0" using ok(3) nth_mem [OF j] unfolding text_ok_def by metis
  have "0 \<notin> set (drop j lx)" "length (drop j lx) < 4294967296" using ok(3) in_set_dropD len by (fastforce simp: text_ok_def)+
  then have cj: "cstr (arr_ptr (drop j lx @ 0 # post)) (drop j lx)" by (rule cstr_arr_ptr)
  obtain r where r: "ece391_strncmp (arr_ptr (drop j lx @ 0 # post)) str (of_nat (length sx)) = Some r"
      "r = 0 \<longleftrightarrow> take (length sx) (drop j lx) = sx"
    using ece391_strncmp_cstr [OF cj str, of "of_nat (length sx)"] ls by (auto simp: unat_of_nat_u32)
  obtain c where c: "str 0 = Some c" "c = (if sx = [] then 0 else hd sx)"
    using cstr_char [OF str, of 0] cstr_nul [OF str] by (cases sx) auto
  have djc: "drop j lx = lx ! j # drop (Suc j) lx" using j by (simp add: Cons_nth_drop_Suc)
  let ?m = "sx \<noteq> [] \<and> hd sx < 128 \<and> take (length sx) (drop j lx) = sx"
  have m: "sint c = uint (lx ! j) \<and> r = 0 \<longleftrightarrow> ?m"
    using lj unfolding signed_eq_unsigned_u8 r(2) c(2) djc by (cases sx) auto
  show ?case
  proof (cases ?m)
    case True
    obtain s' where "do { s \<leftarrow> ece391_fdputs env 1 fname s; s \<leftarrow> ece391_fdputs env 1 (lit '':'') s;
      s \<leftarrow> ece391_fdputs env 1 (arr_ptr (lx @ 0 # post)) s; ece391_fdputs env 1 (arr_ptr (cbytes [] @ [0x0A, 0])) s } = Some s'"
      "shown (fx @ [0x3A] @ lx @ [0x0A]) s s'" "cur_pcb s' = cur_pcb s"
      using report_shows [OF ok] by blast
    moreover have "\<exists>k. j \<le> k \<and> k < length lx \<and> sx \<noteq> [] \<and> hd sx < 128 \<and> take (length sx) (drop k lx) = sx" using True j by blast
    ultimately show ?thesis
      using True m c(1) d r(1) j by (subst search_line.simps) (simp add: dj)
  next
    case False
    have "\<exists>s'. search_line env str (of_nat (length sx)) fname ?data (length pre) (length pre + Suc j) (length pre + length lx) s = Some s' \<and>
        cur_pcb s' = cur_pcb s \<and>
        shown (if \<exists>k. Suc j \<le> k \<and> k < length lx \<and> sx \<noteq> [] \<and> hd sx < 128 \<and> take (length sx) (drop k lx) = sx
               then fx @ [0x3A] @ lx @ [0x0A] else []) s s'"
      using Suc.hyps(2) j by (intro Suc.hyps(1)) simp_all
    moreover have "(\<exists>k. Suc j \<le> k \<and> k < length lx \<and> sx \<noteq> [] \<and> hd sx < 128 \<and> take (length sx) (drop k lx) = sx) \<longleftrightarrow>
        (\<exists>k. j \<le> k \<and> k < length lx \<and> sx \<noteq> [] \<and> hd sx < 128 \<and> take (length sx) (drop k lx) = sx)"
      using False by (metis Suc_leD Suc_leI le_neq_implies_less)
    moreover have "search_line env str (of_nat (length sx)) fname ?data (length pre) (length pre + j) (length pre + length lx) s =
        search_line env str (of_nat (length sx)) fname ?data (length pre) (length pre + Suc j) (length pre + length lx) s"
      using False m c(1) d r(1) j by (subst search_line.simps) (auto simp: dj)
    ultimately show ?thesis by simp
  qed
qed

lemma search_line_reports:
  assumes ok: "stdout_ok s" "search_ok str sx fname fx" "text_ok lx" and len: "length (pre @ lx @ 0 # post) < 4294967296"
  shows "\<exists>s'. search_line env str (of_nat (length sx)) fname (pre @ lx @ 0 # post) (length pre)
      (length pre) (length pre + length lx) s = Some s' \<and> cur_pcb s' = cur_pcb s \<and> shown (report sx fx lx) s s'"
proof -
  have "(\<exists>k. 0 \<le> k \<and> k < length lx \<and> sx \<noteq> [] \<and> hd sx < 128 \<and> take (length sx) (drop k lx) = sx) \<longleftrightarrow> hit sx lx"
    using sublist_at [of sx lx] by (auto simp: hit_def)
  then show ?thesis using search_line_from [OF assms, of 0 env] unfolding report_def by simp
qed

section \<open>The lines in the buffer\<close>

text \<open>
  \<open>xs\<close> is what the buffer holds from the current line on. Either all of it has been searched, or a last
  line without a newline has been moved to the front for the next round.
\<close>

definition searched :: "u8 list \<Rightarrow> u8 list \<Rightarrow> int \<Rightarrow> bool \<Rightarrow> u8 list \<Rightarrow> u8 \<Rightarrow> u8 list \<times> nat \<times> kernel \<Rightarrow> kernel \<Rightarrow> bool" where
  "searched sx fx cnt first xs c res s \<longleftrightarrow> (case res of (data, lst, s') \<Rightarrow>
     lst = 0 \<and> shown (grep_text sx fx (lines_of xs)) s s' \<and>
       (cnt = 0 \<or> xs = [] \<or> last xs = 0x0A \<or> first \<and> 0x0A \<notin> set xs \<or> c = 0x0A) \<or>
     (\<exists>full part. cnt \<noteq> 0 \<and> xs = full @ part \<and> (full = [] \<or> last full = 0x0A) \<and> part \<noteq> [] \<and> 0x0A \<notin> set part \<and>
        lst = length part \<and> take lst data = part \<and> shown (grep_text sx fx (lines_of full)) s s'))"

lemma grep_text_Cons: "grep_text sx fx (l # ls) = report sx fx l @ grep_text sx fx ls"
  by (simp add: grep_text_def)

lemma text_ok_parts: "text_ok (xs @ ys) \<Longrightarrow> text_ok xs \<and> text_ok ys" "text_ok (x # xs) \<Longrightarrow> text_ok xs"
  by (auto simp: text_ok_def)

lemma searched_line:
  assumes "searched sx fx cnt False rest c (data, lst, s') s1" "shown (report sx fx lx) s s1" "0x0A \<notin> set lx" "rest \<noteq> []"
  shows "searched sx fx cnt first (lx @ 0x0A # rest) c (data, lst, s') s"
proof -
  have sh: "shown (report sx fx lx @ msg) s s'" if "shown msg s1 s'" for msg using shown_trans [OF assms(2) that] .
  consider (all) "lst = 0" "shown (grep_text sx fx (lines_of rest)) s1 s'" "cnt = 0 \<or> last rest = 0x0A \<or> c = 0x0A"
    | (part) full part where "cnt \<noteq> 0" "rest = full @ part" "full = [] \<or> last full = 0x0A" "part \<noteq> []" "0x0A \<notin> set part"
        "lst = length part" "take lst data = part" "shown (grep_text sx fx (lines_of full)) s1 s'"
    using assms(1,4) unfolding searched_def prod.case by blast
  then show ?thesis
  proof cases
    case all
    then show ?thesis using sh [OF all(2)] assms(3,4) by (auto simp: searched_def lines_of_line grep_text_Cons)
  next
    case part
    let ?full = "lx @ 0x0A # full"
    have "shown (grep_text sx fx (lines_of ?full)) s s'"
      using sh [OF part(8)] assms(3) by (simp add: lines_of_line grep_text_Cons)
    moreover have "lx @ 0x0A # rest = ?full @ part" "last ?full = 0x0A" using part(2,3) by auto
    ultimately show ?thesis using part unfolding searched_def by blast
  qed
qed

lemma nth_behind: "Suc (length xs) \<le> k \<Longrightarrow> k < length d \<Longrightarrow> (xs @ x # drop (Suc (length xs)) d) ! k = d ! k"
  by (simp add: nth_append nth_Cons')

lemma lines_loop_searches:
  assumes "stdout_ok s" "search_ok str sx fname fx" "text_ok xs" "length (pre @ xs @ c # post) = 1025" "pre = [] \<or> xs \<noteq> []"
  shows "\<exists>data lst s'. lines_loop env str (of_nat (length sx)) fname cnt (pre @ xs @ c # post) (length pre + length xs) (length pre) s =
      Some (data, lst, s') \<and> length data = 1025 \<and> (data ! 1024 = 0x0A \<longrightarrow> (pre @ xs @ c # post) ! 1024 = 0x0A) \<and>
      cur_pcb s' = cur_pcb s \<and> searched sx fx cnt (pre = []) xs c (data, lst, s') s"
  using assms(1,3-5)
proof (induction xs arbitrary: pre s rule: length_induct)
  case (1 xs)
  let ?data = "pre @ xs @ c # post" and ?lst = "length pre + length xs"
  show ?case
  proof (cases xs rule: split_line)
    case (more lx rest)
    let ?d = "pre @ lx @ 0 # rest @ c # post"
    have fe: "find_line_end ?data (length pre) ?lst = Some (length pre + length lx)"
      using find_line_end_at [OF more(2), of ?lst pre "0x0A # rest @ c # post"] more(1) by simp
    have st: "aget ?data (length pre + length lx) = Some 0x0A" "aset ?data (length pre + length lx) 0 = Some ?d"
      using more(1) by (simp_all add: aget_def aset_def nth_append list_update_append)
    have tx: "text_ok lx" "text_ok rest" using 1(3) text_ok_parts unfolding more(1) by blast+
    have dl: "length ?d = 1025" using 1(4) more(1) by simp
    obtain s1 where s1: "search_line env str (of_nat (length sx)) fname ?d (length pre) (length pre) (length pre + length lx) s = Some s1"
        "cur_pcb s1 = cur_pcb s" "shown (report sx fx lx) s s1"
      using search_line_reports [OF 1(2) assms(2) tx(1), of pre "rest @ c # post" env] dl by auto
    show ?thesis
    proof (cases "rest = []")
      case True
      then have "lines_loop env str (of_nat (length sx)) fname cnt ?data ?lst (length pre) s = Some (?d, 0, s1)"
        using fe st s1(1) more(1) by (subst lines_loop.simps) simp
      moreover have "searched sx fx cnt (pre = []) xs c (?d, 0, s1) s"
        using s1(3) more True by (simp add: searched_def lines_of_line grep_text_Cons) (simp add: grep_text_def)
      moreover have "?d ! 1024 = 0x0A \<longrightarrow> ?data ! 1024 = 0x0A" using more(1) by (auto simp: nth_append nth_Cons')
      ultimately show ?thesis using s1(2) dl by auto
    next
      case False
      let ?pre = "pre @ lx @ [0]"
      have rl: "length rest < length xs" using more(1) by simp
      have rd: "length (?pre @ rest @ c # post) = 1025" using dl by simp
      obtain data lst s' where IH: "lines_loop env str (of_nat (length sx)) fname cnt (?pre @ rest @ c # post) (length ?pre + length rest) (length ?pre) s1 =
          Some (data, lst, s')" "length data = 1025" "data ! 1024 = 0x0A \<longrightarrow> (?pre @ rest @ c # post) ! 1024 = 0x0A"
          "cur_pcb s' = cur_pcb s1" "searched sx fx cnt (?pre = []) rest c (data, lst, s') s1"
        using 1(1) rl shown_stdout_ok [OF s1(3)] tx(2) rd False by blast
      have "lines_loop env str (of_nat (length sx)) fname cnt ?data ?lst (length pre) s = Some (data, lst, s')"
        using fe st s1(1) IH(1) False more(1) by (subst lines_loop.simps) (simp add: add.assoc)
      moreover have "searched sx fx cnt (pre = []) xs c (data, lst, s') s"
        using searched_line [OF _ s1(3) more(2) False] IH(5) more(1) by simp
      moreover have "?d ! 1024 = 0x0A \<longrightarrow> ?data ! 1024 = 0x0A" using more(1) by (auto simp: nth_append nth_Cons')
      ultimately show ?thesis using IH s1(2) by auto
    qed
  next
    case last
    let ?d = "pre @ xs @ 0 # post"
    have fe: "find_line_end ?data (length pre) ?lst = Some ?lst" using find_line_end_at [OF last, of ?lst pre "c # post"] by simp
    have st: "aget ?data ?lst = Some c" "aset ?data ?lst 0 = Some ?d"
      by (simp_all add: aget_def aset_def nth_append list_update_append)
    have d1024: "?d ! 1024 = 0x0A \<longrightarrow> ?data ! 1024 = 0x0A" by (auto simp: nth_append nth_Cons')
    show ?thesis
    proof (cases "0x0A \<noteq> c \<and> 0 \<noteq> cnt \<and> pre \<noteq> []")
      case True
      have "ece391_strcpy ?d 0 (length pre) = Some (xs @ 0 # drop (Suc (length xs)) ?d)"
        using ece391_strcpy_down [of 0 "length pre" ?d xs post] 1(3) by (simp add: text_ok_def)
      then have "lines_loop env str (of_nat (length sx)) fname cnt ?data ?lst (length pre) s = Some (xs @ 0 # drop (Suc (length xs)) ?d, length xs, s)"
        using fe st True by (subst lines_loop.simps) simp
      moreover have "searched sx fx cnt (pre = []) xs c (xs @ 0 # drop (Suc (length xs)) ?d, length xs, s) s"
        using True last 1(2,5) by (auto simp: searched_def grep_text_def shown_refl intro!: exI [of _ "[]"])
      moreover have "(xs @ 0 # drop (Suc (length xs)) ?d) ! 1024 = ?d ! 1024"
      proof -
        have "Suc (length xs) \<le> 1024" using True 1(4) by (cases pre) auto
        moreover have "length ?d = 1025" using 1(4) by simp
        ultimately show ?thesis by (intro nth_behind) simp_all
      qed
      ultimately show ?thesis using 1(4) d1024 by auto
    next
      case False
      have dl: "length ?d = 1025" using 1(4) by simp
      obtain s1 where s1: "search_line env str (of_nat (length sx)) fname ?d (length pre) (length pre) ?lst s = Some s1"
          "cur_pcb s1 = cur_pcb s" "shown (report sx fx xs) s s1"
        using search_line_reports [OF 1(2) assms(2) 1(3), of pre post env] dl by auto
      have "lines_loop env str (of_nat (length sx)) fname cnt ?data ?lst (length pre) s = Some (?d, 0, s1)"
        using fe st s1(1) False by (subst lines_loop.simps) auto
      moreover have "grep_text sx fx (lines_of xs) = report sx fx xs"
        using lines_of_last [OF last] by (cases "xs = []") (auto simp: grep_text_def report_def hit_def)
      then have "searched sx fx cnt (pre = []) xs c (?d, 0, s1) s" using s1(3) False last by (auto simp: searched_def)
      ultimately show ?thesis using s1(2) dl d1024 by auto
    qed
  qed
qed

section \<open>The file in chunks\<close>

lemma grep_text_append: "grep_text sx fx (ls @ ls') = grep_text sx fx ls @ grep_text sx fx ls'"
  by (simp add: grep_text_def)

text \<open>
  The state between two reads: the first \<open>length part\<close> bytes of the buffer hold the beginning \<open>part\<close> of a
  line, \<open>r\<close> is what is left of the file.
\<close>

definition between :: "nat \<Rightarrow> u32 \<Rightarrow> u8 list \<Rightarrow> u8 list \<Rightarrow> u8 list \<Rightarrow> kernel \<Rightarrow> bool" where
  "between fd inode data part r s \<longleftrightarrow> stdout_ok s \<and> off_screen s inode \<and> flags (fd_entry (cur_pcb s) fd) = IN_USE \<and>
     operations_pointer (fd_entry (cur_pcb s) fd) = file_table \<and> inode_index (fd_entry (cur_pcb s) fd) = inode \<and>
     file_rest fd s = r \<and> length data = 1025 \<and> data ! 1024 \<noteq> 0x0A \<and> take (length part) data = part \<and>
     0x0A \<notin> set part \<and> text_ok (part @ r) \<and> (\<forall>l \<in> set (lines_of (part @ r)). length l < 1024)"

lemma between_part: "between fd inode data part r s \<Longrightarrow> length part < 1024"
  using first_line_longer [of part r] by (cases "part = []") (fastforce simp: between_def)+

lemma chunk_lines:
  assumes "\<And>l. l \<in> set (lines_of (xs @ ys)) \<Longrightarrow> length l < 1024" "ys \<noteq> [] \<Longrightarrow> length xs = 1024"
    and "ys = [] \<or> last xs = 0x0A \<or> 0x0A \<notin> set xs"
  shows "lines_of (xs @ ys) = lines_of xs @ lines_of ys"
proof (cases "ys = []")
  case False
  then have "length xs = 1024" "xs \<noteq> []" using assms(2) by auto
  then have "0x0A \<in> set xs" using first_line_longer [of xs ys] assms(1) by fastforce
  then show ?thesis using assms(3) False by (intro lines_of_append) auto
qed simp

lemma between_next:
  assumes bt: "between fd inode data part r s"
    and split: "part @ r = full @ part2 @ r2" "lines_of (part @ r) = lines_of full @ lines_of (part2 @ r2)" "0x0A \<notin> set part2"
    and d: "length data2 = 1025" "data2 ! 1024 \<noteq> 0x0A" "take (length part2) data2 = part2"
    and s1: "shown [] s s1" "file_rest fd s1 = r2" "flags (fd_entry (cur_pcb s1) fd) = IN_USE"
        "operations_pointer (fd_entry (cur_pcb s1) fd) = file_table" "inode_index (fd_entry (cur_pcb s1) fd) = inode"
    and s2: "shown msg s1 s2" "cur_pcb s2 = cur_pcb s1"
  shows "between fd inode data2 part2 r2 s2"
proof -
  have b: "off_screen s inode" "text_ok (part @ r)" "\<forall>l \<in> set (lines_of (part @ r)). length l < 1024" using bt by (auto simp: between_def)
  have os1: "off_screen s1 inode" by (rule off_screen_shown(1) [OF b(1) s1(1)])
  have os2: "off_screen s2 inode" "file_bytes s2 inode = file_bytes s1 inode" by (rule off_screen_shown [OF os1 s2(1)])+
  have "file_rest fd s2 = r2" using s1(2,5) os2(2) by (simp add: file_rest_def s2(2) Let_def)
  moreover have "text_ok (part2 @ r2)" using b(2) text_ok_parts(1) unfolding split(1) by blast
  ultimately show ?thesis
    using s1(3-5) os2(1) s2(2) d split b(3) shown_stdout_ok [OF s2(1)] unfolding between_def by auto
qed

text \<open>One round, on a chunk that is not empty, searches complete lines and leaves a shorter file.\<close>

lemma file_round:
  assumes bt: "between fd inode data part r s" and so: "search_ok str sx fname fx" and fd: "2 \<le> fd" "fd < 8" and r: "r \<noteq> []"
  shows "\<exists>cnt data1 s1 data2 part2 s2. ece391_read env (int fd) data (length part) (1024 - of_nat (length part)) s = Some (cnt, data1, s1) \<and>
    0 < cnt \<and> lines_loop env str (of_nat (length sx)) fname cnt data1 (length part + nat cnt) 0 s1 = Some (data2, length part2, s2) \<and>
    (\<exists>full r2. part @ r = full @ part2 @ r2 \<and> length r2 < length r \<and> lines_of (part @ r) = lines_of full @ lines_of (part2 @ r2) \<and>
       shown (grep_text sx fx (lines_of full)) s s2 \<and> between fd inode data2 part2 r2 s2)"
proof -
  have lp: "length part < 1024" using between_part [OF bt] .
  have b: "stdout_ok s" "off_screen s inode" "flags (fd_entry (cur_pcb s) fd) = IN_USE"
      "operations_pointer (fd_entry (cur_pcb s) fd) = file_table" "inode_index (fd_entry (cur_pcb s) fd) = inode"
      "file_rest fd s = r" "length data = 1025" "data ! 1024 \<noteq> 0x0A" "take (length part) data = part" "0x0A \<notin> set part"
      "text_ok (part @ r)" "\<And>l. l \<in> set (lines_of (part @ r)) \<Longrightarrow> length l < 1024"
    using bt by (auto simp: between_def)
  define n where "n = 1024 - length part"
  have n: "unat (1024 - of_nat (length part) :: u32) = n" "0 < n"
    using lp by (simp_all add: n_def unat_sub word_le_nat_alt unat_of_nat_u32)
  let ?bs = "take n r" and ?r = "drop n r"
  have bs: "?bs \<noteq> []" "length ?r < length r" using n(2) r by auto
  have lb: "length part + length ?bs \<le> 1024" using lp by (simp add: n_def)
  define post where "post = drop (length part + length ?bs) data"
  obtain s1 where rd: "ece391_read env (int fd) data (length part) (1024 - of_nat (length part)) s =
        Some (int (length ?bs), part @ ?bs @ post, s1)"
      and s1: "shown [] s s1" "file_rest fd s1 = ?r" "flags (fd_entry (cur_pcb s1) fd) = IN_USE"
        "operations_pointer (fd_entry (cur_pcb s1) fd) = file_table" "inode_index (fd_entry (cur_pcb s1) fd) = inode"
    using read_open_file [OF b(1) fd _ b(3,4), of "length part" "1024 - of_nat (length part)" data env] b(5-7,9) n lp
    by (auto simp: post_def n_def)
  obtain c post' where post: "post = c # post'" using lb b(7) by (cases post) (auto simp: post_def)
  let ?xs = "part @ ?bs"
  have dl: "length ([] @ ?xs @ c # post') = 1025" using b(7) lb post by (simp add: post_def flip: post) 
  have c1024: "(?xs @ post) ! 1024 = data ! 1024" "?r \<noteq> [] \<Longrightarrow> (?xs @ post) ! 1024 = c"
  proof -
    show "(?xs @ post) ! 1024 = data ! 1024" using lb b(7) by (simp add: post_def nth_append n_def)
    show "(?xs @ post) ! 1024 = c" if "?r \<noteq> []"
    proof -
      have "length ?xs = 1024" using that lp by (simp add: n_def)
      then show ?thesis by (simp only: nth_append post) simp
    qed
  qed
  have tx: "text_ok ?xs" using b(11) text_ok_parts(1) [of ?xs ?r] by simp
  obtain data2 lst s2 where ll: "lines_loop env str (of_nat (length sx)) fname (int (length ?bs)) (part @ ?bs @ post) (length part + length ?bs) 0 s1 =
        Some (data2, lst, s2)" and l2: "length data2 = 1025" "data2 ! 1024 = 0x0A \<longrightarrow> (?xs @ post) ! 1024 = 0x0A" "cur_pcb s2 = cur_pcb s1"
      and se: "searched sx fx (int (length ?bs)) True ?xs c (data2, lst, s2) s1"
    using lines_loop_searches [OF shown_stdout_ok [OF s1(1)] so _ dl, of env "int (length ?bs)"] tx post by auto
  have d2: "data2 ! 1024 \<noteq> 0x0A" using l2(2) c1024 b(8) by auto
  consider (all) "lst = 0" "shown (grep_text sx fx (lines_of ?xs)) s1 s2" "last ?xs = 0x0A \<or> 0x0A \<notin> set ?xs \<or> c = 0x0A"
    | (part) full part2 where "?xs = full @ part2" "full = [] \<or> last full = 0x0A" "part2 \<noteq> []" "0x0A \<notin> set part2"
        "lst = length part2" "take lst data2 = part2" "shown (grep_text sx fx (lines_of full)) s1 s2"
  proof -
    have "int (length ?bs) \<noteq> 0" "?xs \<noteq> []" using bs(1) by (metis length_0_conv of_nat_eq_0_iff, metis append_is_Nil_conv)
    then show thesis using se all part unfolding searched_def prod.case by blast
  qed
  then have "\<exists>part2 full r2. lst = length part2 \<and> part @ r = full @ part2 @ r2 \<and> length r2 < length r \<and>
       lines_of (part @ r) = lines_of full @ lines_of (part2 @ r2) \<and>
       shown (grep_text sx fx (lines_of full)) s s2 \<and> between fd inode data2 part2 r2 s2"
  proof cases
    case all
    have "lines_of (part @ r) = lines_of ?xs @ lines_of ?r"
    proof -
      have "?r = [] \<or> last ?xs = 0x0A \<or> 0x0A \<notin> set ?xs" using all(3) c1024 b(8) by metis
      moreover have "length ?xs = 1024" if "?r \<noteq> []" using that lp by (simp add: n_def)
      ultimately show ?thesis using chunk_lines [of ?xs ?r] b(12) by simp
    qed
    moreover from this have "between fd inode data2 [] ?r s2"
      using between_next [OF bt _ _ _ l2(1) d2 _ s1 all(2) l2(3), of ?xs "[]"] by simp
    ultimately show ?thesis using all bs(2) shown_trans [OF s1(1) all(2)] by (intro exI [of _ "[]"] exI [of _ ?xs] exI [of _ ?r]) simp
  next
    case part
    have eq: "part @ r = full @ part2 @ ?r" using part(1) by (metis append.assoc append_take_drop_id)
    have ln: "lines_of (part @ r) = lines_of full @ lines_of (part2 @ ?r)" using lines_of_append [OF part(2)] eq by simp
    have "between fd inode data2 part2 ?r s2"
      using between_next [OF bt eq ln part(4) l2(1) d2 _ s1 part(7) l2(3)] part(5,6) by simp
    then show ?thesis
      using eq ln bs(2) part(5) shown_trans [OF s1(1) part(7)]
      by (intro exI [of _ part2] exI [of _ full] exI [of _ ?r]) simp
  qed
  then show ?thesis using rd ll bs(1) by fastforce
qed

text \<open>The last round: nothing is left to read, the line in the buffer is searched and the file closed.\<close>

lemma file_end:
  assumes bt: "between fd inode data part [] s" and so: "search_ok str sx fname fx" and fd: "2 \<le> fd" "fd < 8"
  shows "\<exists>s'. file_loop env str (of_nat (length sx)) fname (int fd) data (length part) s = Some (0, s') \<and>
    shown (grep_text sx fx (lines_of part)) s s' \<and> fd_entry (cur_pcb s') fd = free_entry"
proof -
  have lp: "length part < 1024" using between_part [OF bt] .
  have b: "stdout_ok s" "flags (fd_entry (cur_pcb s) fd) = IN_USE" "operations_pointer (fd_entry (cur_pcb s) fd) = file_table"
      "file_rest fd s = []" "length data = 1025" "take (length part) data = part" "text_ok part"
    using bt by (auto simp: between_def)
  have k: "length part + unat (1024 - of_nat (length part) :: u32) \<le> length data"
    using lp b(5) by (simp add: unat_sub word_le_nat_alt unat_of_nat_u32)
  define post where "post = drop (length part) data"
  obtain s1 where rd: "ece391_read env (int fd) data (length part) (1024 - of_nat (length part)) s = Some (0, part @ post, s1)"
      and s1: "shown [] s s1" "flags (fd_entry (cur_pcb s1) fd) = IN_USE"
    using read_open_file [OF b(1) fd k b(2,3), of env] b(4,6) by (auto simp: post_def)
  obtain c post' where post: "post = c # post'" using lp b(5) by (cases post) (auto simp: post_def)
  have "length post = 1025 - length part" using b(5) by (simp add: post_def)
  then have dl: "length ([] @ part @ c # post') = 1025" using lp by (simp add: post)
  obtain data2 lst s2 where ll: "lines_loop env str (of_nat (length sx)) fname 0 (part @ post) (length part) 0 s1 = Some (data2, lst, s2)"
      and l2: "cur_pcb s2 = cur_pcb s1" and se: "searched sx fx 0 True part c (data2, lst, s2) s1"
    using lines_loop_searches [OF shown_stdout_ok [OF s1(1)] so b(7) dl, of env 0] post by auto
  have sh: "shown (grep_text sx fx (lines_of part)) s1 s2" using se by (simp add: searched_def)
  then have ok2: "fds_ok (cur_pcb s2)" "stdout_ok s2" using shown_stdout_ok [OF sh] by (simp_all add: stdout_ok_def)
  have cl: "ece391_close (int fd) s2 = Some (0, set_fd fd free_entry s2)"
    using fd s1(2) by (simp add: ece391_close_def close_call_eq [OF ok2(1)] l2)
  have "shown [] s2 (set_fd fd free_entry s2)" by (rule shown_set_fd [OF ok2(2) entry_ok_free]) (use fd in simp_all)
  then have "shown (grep_text sx fx (lines_of part)) s (set_fd fd free_entry s2)"
    using shown_trans [OF s1(1) shown_trans [OF sh, of "[]"]] by simp
  then show ?thesis using rd ll cl by (subst file_loop.simps) simp
qed

lemma file_loop_greps:
  assumes "between fd inode data part r s" "search_ok str sx fname fx" "2 \<le> fd" "fd < 8"
  shows "\<exists>s'. file_loop env str (of_nat (length sx)) fname (int fd) data (length part) s = Some (0, s') \<and>
    shown (grep_text sx fx (lines_of (part @ r))) s s' \<and> fd_entry (cur_pcb s') fd = free_entry"
  using assms(1)
proof (induction "length r" arbitrary: r part data s rule: less_induct)
  case less
  show ?case
  proof (cases "r = []")
    case True
    then show ?thesis using file_end [OF less.prems [unfolded True] assms(2-4)] by simp
  next
    case False
    obtain cnt data1 s1 data2 part2 s2 full r2 where
        rd: "ece391_read env (int fd) data (length part) (1024 - of_nat (length part)) s = Some (cnt, data1, s1)" "0 < cnt"
      and ll: "lines_loop env str (of_nat (length sx)) fname cnt data1 (length part + nat cnt) 0 s1 = Some (data2, length part2, s2)"
      and nx: "length r2 < length r" "lines_of (part @ r) = lines_of full @ lines_of (part2 @ r2)"
        "shown (grep_text sx fx (lines_of full)) s s2" "between fd inode data2 part2 r2 s2"
      using file_round [OF less.prems assms(2-4) False, of env] by blast
    obtain s' where "file_loop env str (of_nat (length sx)) fname (int fd) data2 (length part2) s2 = Some (0, s')"
        "shown (grep_text sx fx (lines_of (part2 @ r2))) s2 s'" "fd_entry (cur_pcb s') fd = free_entry"
      using less.hyps [OF nx(1,4)] by blast
    then show ?thesis
      using rd ll shown_trans [OF nx(3)] by (subst file_loop.simps) (simp add: nx(2) grep_text_append)
  qed
qed

lemma do_one_file_greps:
  assumes ok: "stdout_ok s" and so: "search_ok str sx fname fx"
    and name: "take 5 fx \<noteq> cbytes ''stdin''" "take 6 fx \<noteq> cbytes ''stdout''"
    and found: "List.find (name_found fx) (dentry_list s) = Some d" "file_type d = 2"
    and fd: "find_fd (cur_pcb s) [2..<8] = Some fd" and img: "off_screen s (inode_number d)"
    and bytes: "text_ok (file_bytes s (inode_number d))" "\<forall>l \<in> set (lines_of (file_bytes s (inode_number d))). length l < 1024"
    and junk: "junk 1024 \<noteq> 0x0A"
  shows "\<exists>s'. do_one_file env junk str fname s = Some (0, s') \<and>
    shown (grep_text sx fx (lines_of (file_bytes s (inode_number d)))) s s' \<and> fd_entry (cur_pcb s') fd = free_entry"
proof -
  have c: "cstr str sx" "cstr fname fx" using so by (simp_all add: search_ok_def)
  have tbl: "table_of_type (file_type d) = Some file_table" "file_table \<noteq> rtc_table"
    using found(2) by (simp_all add: table_of_type_def table_defs)
  obtain s1 where op: "ece391_open env fname s = Some (int fd, s1)"
    and s1: "shown [] s s1" "fd_entry (cur_pcb s1) fd = opened d file_table" "2 \<le> fd" "fd < 8"
    using open_named [OF ok c(2) name found(1) fd tbl, of env] by auto
  note os = off_screen_shown [OF img s1(1)]
  have "between fd (inode_number d) (local_array 1025 junk) [] (file_bytes s (inode_number d)) s1"
    using shown_stdout_ok [OF s1(1)] os bytes junk by (simp add: between_def s1(2) opened_def file_rest_def local_array_def)
  from file_loop_greps [OF this so s1(3,4), of env]
  obtain s' where "file_loop env str (of_nat (length sx)) fname (int fd) (local_array 1025 junk) 0 s1 = Some (0, s')"
      "shown (grep_text sx fx (lines_of (file_bytes s (inode_number d)))) s1 s'" "fd_entry (cur_pcb s') fd = free_entry"
    by auto
  then show ?thesis
    using op ece391_strlen_cstr [OF c(1)] shown_trans [OF s1(1)] by (simp add: do_one_file_def)
qed

end
