(* ===== verification/Fish.thy ===== *)
theory Fish
  imports User_Lib
begin

text \<open>
  The animation program of \<^verbatim>\<open>fish/\<close>: the blink list of \<^verbatim>\<open>blink.S\<close>, whose nodes come from the static
  array \<^verbatim>\<open>blink_array\<close>, and \<^verbatim>\<open>fish.c\<close> itself. A pointer to a node is its index in the array, NULL is
  \<open>None\<close>; \<open>vmem\<close> is the video page as the program sees it, by offset. Copying or clearing a whole
  structure with \<^verbatim>\<open>ece391_memcpy\<close> or \<^verbatim>\<open>ece391_memset\<close> is an assignment. The lemmas show that the list
  operations implement a list of blinks as long as no blink is at location 0.
\<close>

section \<open>The blink list\<close>

record blink =
  location :: u16
  on_char :: u8
  off_char :: u8
  on_length :: u16
  off_length :: u16
  countdown :: u16
  status :: u16
  next_blink :: "nat option"

record fish =
  blink_array :: "blink list"
  mp1_list_head :: "nat option"
  vmem :: "u32 \<Rightarrow> u8"

definition zero_blink :: blink where
  "zero_blink = \<lparr>location = 0, on_char = 0, off_char = 0, on_length = 0, off_length = 0, countdown = 0, status = 0,
     next_blink = None\<rparr>"

definition mp1_malloc :: "fish \<Rightarrow> nat option" where
  "mp1_malloc f = List.find (\<lambda>i. location (blink_array f ! i) = 0) [0..<80 * 25]"

definition mp1_free :: "nat \<Rightarrow> fish \<Rightarrow> fish" where
  "mp1_free i f = f\<lparr>blink_array := (blink_array f)[i := zero_blink]\<rparr>"

definition mp1_poke :: "u8 \<Rightarrow> u32 \<Rightarrow> fish \<Rightarrow> fish" where
  "mp1_poke cl eax f = f\<lparr>vmem := (vmem f)(eax := cl)\<rparr>"

text \<open>One node of the loop of \<^verbatim>\<open>mp1_rtc_tasklet\<close>.\<close>

definition tasklet_node :: "nat \<Rightarrow> blink \<Rightarrow> fish \<Rightarrow> fish" where
  "tasklet_node i b f =
     (let b = b\<lparr>countdown := countdown b - 1\<rparr> in
      if sint (countdown b) > 0 then f\<lparr>blink_array := (blink_array f)[i := b]\<rparr>
      else let eax = push_bit 1 (ucast (location b));
               (cl, dx) = (if status b AND 1 \<noteq> 0 then (off_char b, off_length b) else (on_char b, on_length b));
               f = mp1_poke cl eax f;
               b = b\<lparr>countdown := dx, status := status b XOR 1\<rparr>
           in f\<lparr>blink_array := (blink_array f)[i := b]\<rparr>)"

partial_function (option) tasklet_loop :: "nat option \<Rightarrow> fish \<Rightarrow> fish option" where
  "tasklet_loop ebx f =
     (case ebx of None \<Rightarrow> Some f
      | Some i \<Rightarrow> do { b \<leftarrow> aget (blink_array f) i; tasklet_loop (next_blink b) (tasklet_node i b f) })"

definition mp1_rtc_tasklet :: "fish \<Rightarrow> fish option" where
  "mp1_rtc_tasklet f = tasklet_loop (mp1_list_head f) f"

partial_function (option) find_helper_loop :: "u16 \<Rightarrow> nat option \<Rightarrow> fish \<Rightarrow> nat option option" where
  "find_helper_loop ax ebx f =
     (case ebx of None \<Rightarrow> Some None
      | Some i \<Rightarrow> do { b \<leftarrow> aget (blink_array f) i;
                      if location b = ax then Some (Some i) else find_helper_loop ax (next_blink b) f })"

definition mp1_find_helper :: "u32 \<Rightarrow> fish \<Rightarrow> nat option option" where
  "mp1_find_helper loc f = find_helper_loop (ucast loc) (mp1_list_head f) f"

definition mp1_ioctl_add :: "blink \<Rightarrow> fish \<Rightarrow> int \<times> fish" where
  "mp1_ioctl_add arg f =
     (if location arg \<ge> 80 * 25 then (-1, f)
      else let tmp = arg\<lparr>status := 1, countdown := on_length arg\<rparr> in
           case mp1_malloc f of
             None \<Rightarrow> (-1, f)
           | Some edx \<Rightarrow>
               (let f = f\<lparr>blink_array := (blink_array f)[edx := tmp\<lparr>next_blink := mp1_list_head f\<rparr>],
                          mp1_list_head := Some edx\<rparr>
                in (0, mp1_poke (on_char tmp) (push_bit 1 (ucast (location tmp))) f)))"

text \<open>Where \<^verbatim>\<open>edx\<close> points in \<^verbatim>\<open>remove_find_prev\<close>: at the list head, or at the next field of a node.\<close>

datatype link = Head | Next nat

definition deref :: "link \<Rightarrow> fish \<Rightarrow> nat option option" where
  "deref edx f = (case edx of Head \<Rightarrow> Some (mp1_list_head f)
                  | Next i \<Rightarrow> map_option next_blink (aget (blink_array f) i))"

definition set_link :: "link \<Rightarrow> nat option \<Rightarrow> fish \<Rightarrow> fish" where
  "set_link edx p f = (case edx of Head \<Rightarrow> f\<lparr>mp1_list_head := p\<rparr>
                       | Next i \<Rightarrow> f\<lparr>blink_array := (blink_array f)[i := (blink_array f ! i)\<lparr>next_blink := p\<rparr>]\<rparr>)"

partial_function (option) remove_find_prev :: "nat \<Rightarrow> link \<Rightarrow> fish \<Rightarrow> link option" where
  "remove_find_prev eax edx f =
     do { p \<leftarrow> deref edx f;
          if p = Some eax then Some edx
          else case p of None \<Rightarrow> None | Some i \<Rightarrow> remove_find_prev eax (Next i) f }"

definition mp1_ioctl_remove :: "u32 \<Rightarrow> fish \<Rightarrow> (int \<times> fish) option" where
  "mp1_ioctl_remove arg f =
     do { r \<leftarrow> mp1_find_helper arg f;
          case r of None \<Rightarrow> Some (-1, f)
          | Some eax \<Rightarrow> do { edx \<leftarrow> remove_find_prev eax Head f;
                            b \<leftarrow> aget (blink_array f) eax;
                            Some (0, mp1_free eax (set_link edx (next_blink b) f)) } }"

text \<open>
  \<^verbatim>\<open>testb\<close> of one bit leaves sign and overflow clear, so the conditional move \<^verbatim>\<open>cmovl\<close> after it never
  happens and the off character is displayed whatever the status.
\<close>

definition mp1_ioctl_sync :: "u32 \<Rightarrow> fish \<Rightarrow> (int \<times> fish) option" where
  "mp1_ioctl_sync arg f =
     do { r \<leftarrow> mp1_find_helper (drop_bit 16 arg) f;
          case r of None \<Rightarrow> Some (-1, f)
          | Some esi \<Rightarrow>
              do { r \<leftarrow> mp1_find_helper (arg AND 0xFFFF) f;
                   case r of None \<Rightarrow> Some (-1, f)
                   | Some edi \<Rightarrow>
                       do { a \<leftarrow> aget (blink_array f) esi; b \<leftarrow> aget (blink_array f) edi;
                            let b = b\<lparr>on_length := on_length a, off_length := off_length a,
                                      countdown := countdown a, status := status a\<rparr>;
                            let f = f\<lparr>blink_array := (blink_array f)[edi := b]\<rparr>;
                            Some (0, mp1_poke (off_char b) (push_bit 1 (ucast (location b))) f) } } }"

text \<open>The structure \<open>arg\<close> points at is filled with what is found.\<close>

definition mp1_ioctl_find :: "blink \<Rightarrow> fish \<Rightarrow> (int \<times> blink \<times> fish) option" where
  "mp1_ioctl_find arg f =
     do { r \<leftarrow> mp1_find_helper (ucast (location arg)) f;
          case r of None \<Rightarrow> Some (-1, arg, f)
          | Some eax \<Rightarrow> do { b \<leftarrow> aget (blink_array f) eax; Some (0, b, f) } }"

section \<open>fish.c\<close>

definition next_char :: "environment \<Rightarrow> int \<Rightarrow> u8 \<Rightarrow> bool \<Rightarrow> kernel \<Rightarrow> (u8 \<times> bool \<times> kernel) option" where
  "next_char env fd c eof s =
     (if c \<noteq> 0x0A
      then do { (num_bytes, buf, s) \<leftarrow> ece391_read env fd [c] 0 1 s;
                c \<leftarrow> aget buf 0;
                Some (if num_bytes = 0 then (0x0A, True, s) else (c, eof, s)) }
      else Some (c, eof, s))"

definition frame_blink :: "blink \<Rightarrow> u8 \<Rightarrow> u8 \<Rightarrow> int \<Rightarrow> int \<Rightarrow> blink" where
  "frame_blink blink_struct c0 c1 row col =
     blink_struct\<lparr>on_char := (if c0 = 0x0A then 0x20 else c0), off_char := (if c1 = 0x0A then 0x20 else c1),
       location := word_of_int (row * 80 + col + 40)\<rparr>"

partial_function (option) row_loop ::
  "environment \<Rightarrow> int \<Rightarrow> int \<Rightarrow> blink \<Rightarrow> int \<Rightarrow> int \<Rightarrow> u8 \<times> bool \<Rightarrow> u8 \<times> bool \<Rightarrow> fish \<Rightarrow> kernel \<Rightarrow> (bool \<times> bool \<times> fish \<times> kernel) option" where
  "row_loop env fd0 fd1 blink_struct row col p0 p1 f s =
     do { (c0, eof0, s) \<leftarrow> next_char env fd0 (fst p0) (snd p0) s;
          (c1, eof1, s) \<leftarrow> next_char env fd1 (fst p1) (snd p1) s;
          if c0 = 0x0A \<and> c1 = 0x0A then Some (eof0, eof1, f, s)
          else let f = (if (c0 \<noteq> 0x20 \<and> c0 \<noteq> 0x0A) \<or> (c1 \<noteq> 0x20 \<and> c1 \<noteq> 0x0A)
                        then snd (mp1_ioctl_add (frame_blink blink_struct c0 c1 row col) f) else f)
               in row_loop env fd0 fd1 blink_struct row (col + 1) (c0, eof0) (c1, eof1) f s }"

definition row_end :: "int \<Rightarrow> bool \<Rightarrow> kernel \<Rightarrow> (u8 \<times> kernel) option" where
  "row_end fd eof s =
     (if eof then do { (ret, s) \<leftarrow> ece391_close fd s; Some (0x0A, s) } else Some (0x30, s))"

partial_function (option) frames_loop ::
  "environment \<Rightarrow> int \<Rightarrow> int \<Rightarrow> blink \<Rightarrow> int \<Rightarrow> u8 \<times> bool \<Rightarrow> u8 \<times> bool \<Rightarrow> fish \<Rightarrow> kernel \<Rightarrow> (fish \<times> kernel) option" where
  "frames_loop env fd0 fd1 blink_struct row p0 p1 f s =
     (if \<not> snd p0 \<or> \<not> snd p1
      then do { (eof0, eof1, f, s) \<leftarrow> row_loop env fd0 fd1 blink_struct row 0 p0 p1 f s;
                (c0, s) \<leftarrow> row_end fd0 eof0 s;
                (c1, s) \<leftarrow> row_end fd1 eof1 s;
                frames_loop env fd0 fd1 blink_struct (row + 1) (c0, eof0) (c1, eof1) f s }
      else Some (f, s))"

text \<open>A file that cannot be opened ends the program: \<open>Inl\<close> is how its \<^verbatim>\<open>halt\<close> ends.\<close>

definition add_frames ::
  "environment \<Rightarrow> stack_frame \<Rightarrow> blink \<Rightarrow> rptr \<Rightarrow> rptr \<Rightarrow> fish \<Rightarrow> kernel \<Rightarrow> ((outcome \<times> kernel) + (fish \<times> kernel)) option" where
  "add_frames env frame junk f0 f1 f s =
     do { let blink_struct = junk\<lparr>on_length := 15, off_length := 15\<rparr>;
          (fd0, s) \<leftarrow> ece391_open env f0 s;
          if fd0 < 0 then map_option Inl (halt frame (word_of_int (-1)) s)
          else do { (fd1, s) \<leftarrow> ece391_open env f1 s;
                    if fd1 < 0 then map_option Inl (halt frame (word_of_int (-1)) s)
                    else map_option Inr (frames_loop env fd0 fd1 blink_struct 0 (0x30, False) (0x30, False) f s) } }"

text \<open>\<^verbatim>\<open>vmem_base_addr\<close> is a global of the program, at address \<open>vmem_ptr\<close> of its page; NULL is \<open>None\<close>.\<close>

definition mp1_set_video_mode :: "u32 \<Rightarrow> kernel \<Rightarrow> (u32 option \<times> kernel) option" where
  "mp1_set_video_mode vmem_ptr s =
     do { (ret, s) \<leftarrow> ece391_vidmap vmem_ptr s;
          if ret = -1 then Some (None, s)
          else do { a \<leftarrow> load32_ptr (virt_ptr s vmem_ptr); Some (if a = 0 then None else Some a, s) } }"

fun wait_loop :: "(nat \<Rightarrow> environment) \<Rightarrow> int \<Rightarrow> nat list \<Rightarrow> fish \<Rightarrow> kernel \<Rightarrow> (fish \<times> kernel) option" where
  "wait_loop envs rtc_fd [] f s = Some (f, s)"
| "wait_loop envs rtc_fd (i # is) f s =
     do { (ret, garbage, s) \<leftarrow> ece391_read (envs i) rtc_fd [0, 0, 0, 0] 0 4 s;
          f \<leftarrow> mp1_rtc_tasklet f;
          wait_loop envs rtc_fd is f s }"

definition im_blink :: "blink \<Rightarrow> blink" where
  "im_blink junk = junk\<lparr>on_char := 0x49, off_char := 0x4D, on_length := 7, off_length := 6, location := 6 * 80 + 60\<rparr>"

definition fish_main ::
  "(nat \<Rightarrow> nat \<Rightarrow> environment) \<Rightarrow> stack_frame \<Rightarrow> u32 \<Rightarrow> blink \<Rightarrow> fish \<Rightarrow> kernel \<Rightarrow> ((outcome \<times> kernel) + (int \<times> fish \<times> kernel)) option" where
  "fish_main envs frame vmem_ptr junk f s =
     do { let env = envs 0 0;
          let f = f\<lparr>blink_array := replicate (80 * 25) zero_blink\<rparr>;
          (base, s) \<leftarrow> mp1_set_video_mode vmem_ptr s;
          if base = None then Some (Inr (-1, f, s))
          else do {
            (rtc_fd, s) \<leftarrow> ece391_open env (lit ''rtc'') s;
            r \<leftarrow> add_frames env frame junk (lit ''frame0.txt'') (lit ''frame1.txt'') f s;
            case r of Inl os \<Rightarrow> Some (Inl os)
            | Inr (f, s) \<Rightarrow>
                do { (ret_val, s) \<leftarrow> ece391_write env rtc_fd (arr_ptr [32, 0, 0, 0]) 4 s;
                     (f, s) \<leftarrow> wait_loop (envs 0) rtc_fd [0..<100] f s;
                     let (r, f) = mp1_ioctl_add (im_blink junk) f;
                     (f, s) \<leftarrow> wait_loop (envs 1) rtc_fd [0..<100] f s;
                     (r, f) \<leftarrow> mp1_ioctl_sync (push_bit 16 40 OR (6 * 80 + 60)) f;
                     (f, s) \<leftarrow> wait_loop (envs 2) rtc_fd [0..<100] f s;
                     (r, f) \<leftarrow> mp1_ioctl_remove (6 * 80 + 60) f;
                     (f, s) \<leftarrow> wait_loop (envs 3) rtc_fd [0..<100] f s;
                     (r, s) \<leftarrow> ece391_close rtc_fd s;
                     Some (Inr (0, f, s)) } } }"

section \<open>The list the nodes represent\<close>

text \<open>\<open>path a p ps\<close>: following the next fields from \<open>p\<close> visits the nodes \<open>ps\<close>.\<close>

fun path :: "blink list \<Rightarrow> nat option \<Rightarrow> nat list \<Rightarrow> bool" where
  "path a p [] \<longleftrightarrow> p = None"
| "path a p (i # is) \<longleftrightarrow> p = Some i \<and> i < length a \<and> path a (next_blink (a ! i)) is"

text \<open>
  The list is acyclic, and the nodes on it are exactly those with a location, so that \<^verbatim>\<open>mp1_malloc\<close> never
  hands out a node that is in use.
\<close>

definition blink_inv :: "fish \<Rightarrow> nat list \<Rightarrow> bool" where
  "blink_inv f ps \<longleftrightarrow> path (blink_array f) (mp1_list_head f) ps \<and> distinct ps \<and> length (blink_array f) = 2000 \<and>
     (\<forall>i < 2000. location (blink_array f ! i) \<noteq> 0 \<longleftrightarrow> i \<in> set ps)"

text \<open>The blinks on the list, without the links.\<close>

definition blinks :: "fish \<Rightarrow> nat list \<Rightarrow> blink list" where
  "blinks f ps = map (\<lambda>i. (blink_array f ! i)\<lparr>next_blink := None\<rparr>) ps"

lemma path_update: "i \<notin> set ps \<Longrightarrow> path (a[i := b]) p ps = path a p ps"
  by (induction ps arbitrary: p) auto

lemma path_bound: "path a p ps \<Longrightarrow> i \<in> set ps \<Longrightarrow> i < length a"
  by (induction ps arbitrary: p) auto

lemma path_cong:
  "(\<And>i. i \<in> set ps \<Longrightarrow> next_blink (a' ! i) = next_blink (a ! i)) \<Longrightarrow> length a' = length a \<Longrightarrow> path a' p ps = path a p ps"
  by (induction ps arbitrary: p) auto

lemma path_same_next:
  assumes "next_blink b = next_blink (a ! i)"
  shows "path (a[i := b]) p ps = path a p ps"
proof (rule path_cong)
  show "next_blink (a[i := b] ! k) = next_blink (a ! k)" for k
    using assms by (cases "k = i"; cases "i < length a") (simp_all add: list_update_beyond)
qed simp

subsection \<open>Adding\<close>

lemma find_upt:
  "List.find P [0..<n] = None \<longleftrightarrow> (\<forall>i < n. \<not> P i)" "List.find P [0..<n] = Some k \<Longrightarrow> k < n \<and> P k"
  by (auto simp: find_None_iff find_Some_iff)

lemma mp1_malloc_slot:
  "mp1_malloc f = None \<longleftrightarrow> (\<forall>i < 2000. location (blink_array f ! i) \<noteq> 0)"
  "mp1_malloc f = Some k \<Longrightarrow> k < 2000 \<and> location (blink_array f ! k) = 0"
  using find_upt [where P = "\<lambda>i. location (blink_array f ! i) = 0" and n = "80 * 25"]
  unfolding mp1_malloc_def [symmetric] by simp_all

lemma mp1_malloc_free:
  assumes "blink_inv f ps" "length ps < 2000"
  obtains k where "mp1_malloc f = Some k" "k < 2000" "k \<notin> set ps"
proof (cases "mp1_malloc f")
  case None
  then have "{0..<2000} \<subseteq> set ps" using assms(1) by (auto simp: blink_inv_def mp1_malloc_slot)
  then have "card {0..<2000::nat} \<le> card (set ps)" by (intro card_mono) simp_all
  also have "\<dots> \<le> length ps" by (rule card_length)
  finally show ?thesis using assms(2) by simp
next
  case (Some k)
  then show ?thesis using that mp1_malloc_slot(2) assms(1) by (auto simp: blink_inv_def)
qed

lemma mp1_malloc_full:
  assumes "blink_inv f ps" "length ps = 2000"
  shows "mp1_malloc f = None"
proof -
  have sub: "set ps \<subseteq> {0..<2000}" using assms(1) path_bound by (fastforce simp: blink_inv_def)
  have "card (set ps) = 2000" using assms by (simp add: blink_inv_def distinct_card)
  then have "set ps = {0..<2000}" using card_subset_eq [OF _ sub] by simp
  then show ?thesis using assms(1) by (simp add: blink_inv_def mp1_malloc_slot)
qed

definition lit_blink :: "blink \<Rightarrow> blink" where
  "lit_blink b = b\<lparr>status := 1, countdown := on_length b, next_blink := None\<rparr>"

lemma add_blink:
  assumes inv: "blink_inv f ps" "length ps < 2000" and loc: "location b \<noteq> 0" "location b < 2000"
  shows "\<exists>k f'. mp1_ioctl_add b f = (0, f') \<and> blink_inv f' (k # ps) \<and> blinks f' (k # ps) = lit_blink b # blinks f ps \<and>
    vmem f' = (vmem f)(push_bit 1 (ucast (location b)) := on_char b)"
proof -
  obtain k where k: "mp1_malloc f = Some k" "k < 2000" "k \<notin> set ps" using mp1_malloc_free [OF inv] .
  let ?b = "b\<lparr>status := 1, countdown := on_length b, next_blink := mp1_list_head f\<rparr>"
  let ?f = "f\<lparr>blink_array := (blink_array f)[k := ?b], mp1_list_head := Some k\<rparr>"
  have "mp1_ioctl_add b f = (0, mp1_poke (on_char b) (push_bit 1 (ucast (location b))) ?f)"
    using k(1) loc(2) by (simp add: mp1_ioctl_add_def not_le [symmetric] Let_def)
  moreover have "blink_inv (mp1_poke c a ?f) (k # ps)" for c a
    using inv(1) k loc(1) by (auto simp: blink_inv_def mp1_poke_def path_update nth_list_update)
  moreover have "blinks (mp1_poke c a ?f) (k # ps) = lit_blink b # blinks f ps" for c a
    using inv(1) k by (auto simp: blinks_def mp1_poke_def lit_blink_def blink_inv_def nth_list_update)
  ultimately show ?thesis by (fastforce simp: mp1_poke_def)
qed

lemma add_refused:
  "2000 \<le> location b \<or> blink_inv f ps \<and> length ps = 2000 \<Longrightarrow> mp1_ioctl_add b f = (-1, f)"
  using mp1_malloc_full by (auto simp: mp1_ioctl_add_def Let_def)

subsection \<open>The clock tick\<close>

text \<open>What a tick does to a blink and what it displays.\<close>

definition expired :: "blink \<Rightarrow> bool" where
  "expired b \<longleftrightarrow> \<not> sint (countdown b - 1) > 0"

definition ticked :: "blink \<Rightarrow> blink" where
  "ticked b = (if expired b
     then b\<lparr>countdown := (if status b AND 1 \<noteq> 0 then off_length b else on_length b), status := status b XOR 1\<rparr>
     else b\<lparr>countdown := countdown b - 1\<rparr>)"

definition display :: "blink \<Rightarrow> (u32 \<Rightarrow> u8) \<Rightarrow> u32 \<Rightarrow> u8" where
  "display b v = (if expired b
     then v(push_bit 1 (ucast (location b)) := (if status b AND 1 \<noteq> 0 then off_char b else on_char b)) else v)"

lemma tasklet_node_eq:
  "tasklet_node i b f = f\<lparr>blink_array := (blink_array f)[i := ticked b], vmem := display b (vmem f)\<rparr>"
  by (simp add: tasklet_node_def ticked_def display_def expired_def mp1_poke_def Let_def)

lemma ticked_next [simp]: "next_blink (ticked b) = next_blink b" "location (ticked b) = location b"
  by (simp_all add: ticked_def)

lemma tasklet_loop_path:
  assumes "path (blink_array f) p ps" "distinct ps"
  shows "\<exists>f'. tasklet_loop p f = Some f' \<and> mp1_list_head f' = mp1_list_head f \<and> length (blink_array f') = length (blink_array f) \<and>
    (\<forall>i < length (blink_array f). blink_array f' ! i = (if i \<in> set ps then ticked (blink_array f ! i) else blink_array f ! i)) \<and>
    vmem f' = fold display (map ((!) (blink_array f)) ps) (vmem f)"
  using assms
proof (induction ps arbitrary: p f)
  case Nil
  then show ?case by (subst tasklet_loop.simps) simp
next
  case (Cons j ps)
  let ?b = "blink_array f ! j"
  let ?f = "tasklet_node j ?b f"
  have j: "p = Some j" "j < length (blink_array f)" "j \<notin> set ps" "distinct ps" using Cons.prems by auto
  have "path (blink_array ?f) (next_blink ?b) ps"
    using Cons.prems(1) j by (simp add: tasklet_node_eq path_update)
  from Cons.IH [OF this j(4)] obtain f' where f': "tasklet_loop (next_blink ?b) ?f = Some f'"
      "mp1_list_head f' = mp1_list_head f" "length (blink_array f') = length (blink_array f)"
      "\<forall>i < length (blink_array f). blink_array f' ! i = (if i \<in> set ps then ticked (blink_array ?f ! i) else blink_array ?f ! i)"
      "vmem f' = fold display (map ((!) (blink_array ?f)) ps) (vmem ?f)"
    by (auto simp: tasklet_node_eq)
  have m: "map ((!) (blink_array ?f)) ps = map ((!) (blink_array f)) ps"
    using j(3) by (auto simp: tasklet_node_eq) (metis nth_list_update_neq)
  have "tasklet_loop p f = Some f'" using f'(1) j by (subst tasklet_loop.simps) simp
  moreover have "vmem f' = fold display (map ((!) (blink_array f)) (j # ps)) (vmem f)"
    using f'(5) unfolding m by (simp add: tasklet_node_eq)
  moreover have "\<forall>i < length (blink_array f). blink_array f' ! i =
      (if i \<in> set (j # ps) then ticked (blink_array f ! i) else blink_array f ! i)"
    using f'(4) j(2,3) by (auto simp: tasklet_node_eq nth_list_update)
  ultimately show ?case using f'(2,3) by auto
qed

lemma tick_blinks:
  assumes "blink_inv f ps"
  shows "\<exists>f'. mp1_rtc_tasklet f = Some f' \<and> blink_inv f' ps \<and> blinks f' ps = map ticked (blinks f ps) \<and>
    vmem f' = fold display (blinks f ps) (vmem f)"
proof -
  have i: "path (blink_array f) (mp1_list_head f) ps" "distinct ps" "length (blink_array f) = 2000"
    using assms by (simp_all add: blink_inv_def)
  obtain f' where f': "tasklet_loop (mp1_list_head f) f = Some f'" "mp1_list_head f' = mp1_list_head f" "length (blink_array f') = 2000"
      "\<forall>i < 2000. blink_array f' ! i = (if i \<in> set ps then ticked (blink_array f ! i) else blink_array f ! i)"
      "vmem f' = fold display (map ((!) (blink_array f)) ps) (vmem f)"
    using tasklet_loop_path [OF i(1,2)] i(3) by auto
  have b: "\<And>i. i \<in> set ps \<Longrightarrow> i < 2000" using path_bound [OF i(1)] i(3) by simp
  have "path (blink_array f') (mp1_list_head f') ps"
    using i(1) path_cong [of ps "blink_array f'" "blink_array f"] f'(2-4) i(3) b by simp
  then have "blink_inv f' ps" using assms f'(3,4) by (auto simp: blink_inv_def)
  moreover have "(ticked x)\<lparr>next_blink := None\<rparr> = ticked (x\<lparr>next_blink := None\<rparr>)" for x by (simp add: ticked_def expired_def)
  then have "blinks f' ps = map ticked (blinks f ps)" using f'(4) b by (simp add: blinks_def)
  moreover have "display (x\<lparr>next_blink := None\<rparr>) = display x" for x by (simp add: display_def expired_def fun_eq_iff)
  then have "fold display (blinks f ps) = fold display (map ((!) (blink_array f)) ps)"
    by (simp add: blinks_def fold_map comp_def)
  ultimately show ?thesis using f'(1,5) by (simp add: mp1_rtc_tasklet_def)
qed

subsection \<open>Searching and removing\<close>

lemma find_helper_path:
  "path (blink_array f) p ps \<Longrightarrow> find_helper_loop ax p f = Some (List.find (\<lambda>i. location (blink_array f ! i) = ax) ps)"
proof (induction ps arbitrary: p)
  case Nil
  then show ?case by (subst find_helper_loop.simps) simp
next
  case (Cons i ps)
  then show ?case by (subst find_helper_loop.simps) simp
qed

lemma find_helper_inv:
  "blink_inv f ps \<Longrightarrow> mp1_find_helper loc f = Some (List.find (\<lambda>i. location (blink_array f ! i) = ucast loc) ps)"
  by (simp add: mp1_find_helper_def blink_inv_def find_helper_path)

lemma remove_find_prev_path:
  assumes "deref edx f = Some p" "path (blink_array f) p (qs @ i # rs)" "i \<notin> set qs"
  shows "remove_find_prev i edx f = Some (if qs = [] then edx else Next (last qs))"
  using assms
proof (induction qs arbitrary: edx p)
  case Nil
  then show ?case by (subst remove_find_prev.simps) simp
next
  case (Cons j qs)
  have "deref (Next j) f = Some (next_blink (blink_array f ! j))" using Cons.prems(2) by (simp add: deref_def)
  then have "remove_find_prev i (Next j) f = Some (if qs = [] then Next j else Next (last qs))"
    using Cons.IH [of "Next j"] Cons.prems by simp
  then show ?case using Cons.prems by (subst remove_find_prev.simps) simp
qed

lemma path_unlink:
  "path a p (qs @ j # i # rs) \<Longrightarrow> distinct (qs @ j # i # rs) \<Longrightarrow>
   path (a[j := (a ! j)\<lparr>next_blink := next_blink (a ! i)\<rparr>]) p (qs @ j # rs)"
proof (induction qs arbitrary: p)
  case Nil
  then show ?case by (simp add: path_update)
next
  case (Cons k qs)
  then show ?case by auto
qed

lemma unlink_node:
  assumes inv: "blink_inv f (qs @ i # rs)"
  defines "l \<equiv> (if qs = [] then Head else Next (last qs))"
  defines "f' \<equiv> mp1_free i (set_link l (next_blink (blink_array f ! i)) f)"
  shows "blink_inv f' (qs @ rs)" and "blinks f' (qs @ rs) = blinks f qs @ blinks f rs" and "vmem f' = vmem f"
proof -
  let ?a = "blink_array f"
  have d: "distinct (qs @ i # rs)" and p: "path ?a (mp1_list_head f) (qs @ i # rs)" and len: "length ?a = 2000"
    and loc: "\<And>k. k < 2000 \<Longrightarrow> location (?a ! k) \<noteq> 0 \<longleftrightarrow> k \<in> set (qs @ i # rs)" using inv by (auto simp: blink_inv_def)
  have i: "i < 2000" using path_bound [OF p] len by simp
  have other: "blink_array f' ! k = (if k = i then zero_blink else if qs \<noteq> [] \<and> k = last qs
      then (?a ! k)\<lparr>next_blink := next_blink (?a ! i)\<rparr> else ?a ! k)" if "k < 2000" for k
    using that i len d by (auto simp: f'_def l_def mp1_free_def set_link_def nth_list_update)
  have len': "length (blink_array f') = 2000" using len by (simp add: f'_def l_def mp1_free_def set_link_def)
  have "path (blink_array f') (mp1_list_head f') (qs @ rs)"
  proof (cases qs rule: rev_cases)
    case Nil
    then have "path ?a (next_blink (?a ! i)) rs" using p by simp
    then show ?thesis using Nil d by (simp add: f'_def l_def mp1_free_def set_link_def path_update)
  next
    case (snoc ys j)
    then have "path (?a[j := (?a ! j)\<lparr>next_blink := next_blink (?a ! i)\<rparr>]) (mp1_list_head f) (ys @ j # rs)"
      using path_unlink [of ?a "mp1_list_head f" ys j i rs] p d by simp
    then show ?thesis using snoc d by (simp add: f'_def l_def mp1_free_def set_link_def path_update)
  qed
  moreover have "location (blink_array f' ! k) \<noteq> 0 \<longleftrightarrow> k \<in> set (qs @ rs)" if "k < 2000" for k
    using loc [OF that] d by (auto simp: other [OF that] zero_blink_def)
  ultimately show "blink_inv f' (qs @ rs)" using d len' by (auto simp: blink_inv_def)
  have "(blink_array f' ! k)\<lparr>next_blink := None\<rparr> = (?a ! k)\<lparr>next_blink := None\<rparr>" if "k \<in> set (qs @ rs)" for k
  proof -
    have "k \<in> set (qs @ i # rs)" "k \<noteq> i" using that d by auto
    moreover from this have "k < 2000" using path_bound [OF p] len by simp
    ultimately show ?thesis using other [of k] by simp
  qed
  then show "blinks f' (qs @ rs) = blinks f qs @ blinks f rs" by (simp add: blinks_def)
  show "vmem f' = vmem f" by (simp add: f'_def l_def mp1_free_def set_link_def)
qed

text \<open>The first blink at a location, taken out of the list.\<close>

fun drop_blink :: "u16 \<Rightarrow> blink list \<Rightarrow> blink list" where
  "drop_blink loc [] = []"
| "drop_blink loc (b # bs) = (if location b = loc then bs else b # drop_blink loc bs)"

lemma drop_blink_append:
  "\<forall>b \<in> set bs. location b \<noteq> loc \<Longrightarrow> location c = loc \<Longrightarrow> drop_blink loc (bs @ c # cs) = bs @ cs"
  by (induction bs) auto

lemma remove_blink:
  assumes inv: "blink_inv f ps"
  shows "\<exists>b \<in> set (blinks f ps). location b = ucast arg \<Longrightarrow>
      \<exists>f' ps'. mp1_ioctl_remove arg f = Some (0, f') \<and> blink_inv f' ps' \<and> vmem f' = vmem f \<and>
        blinks f' ps' = drop_blink (ucast arg) (blinks f ps)"
    and "\<not> (\<exists>b \<in> set (blinks f ps). location b = ucast arg) \<Longrightarrow> mp1_ioctl_remove arg f = Some (-1, f)"
proof -
  let ?loc = "\<lambda>i. location (blink_array f ! i)"
  show "mp1_ioctl_remove arg f = Some (-1, f)" if "\<not> (\<exists>b \<in> set (blinks f ps). location b = ucast arg)"
  proof -
    have "List.find (\<lambda>i. ?loc i = ucast arg) ps = None" using that by (auto simp: blinks_def find_None_iff)
    then show ?thesis by (simp add: mp1_ioctl_remove_def find_helper_inv [OF inv])
  qed
  assume "\<exists>b \<in> set (blinks f ps). location b = ucast arg"
  then have "\<exists>i \<in> set ps. ?loc i = ucast arg" by (auto simp: blinks_def)
  then obtain qs i rs where ps: "ps = qs @ i # rs" "?loc i = ucast arg" "\<forall>j \<in> set qs. ?loc j \<noteq> ucast arg"
    using split_list_first_prop [of ps "\<lambda>i. ?loc i = ucast arg"] by blast
  have "List.find (\<lambda>i. ?loc i = ucast arg) qs = None" using ps(3) by (simp add: find_None_iff)
  then have found: "List.find (\<lambda>i. ?loc i = ucast arg) ps = Some i"
    using ps(2) unfolding ps(1) by (induction qs) (auto split: if_splits)
  have d: "i \<notin> set qs" and p: "path (blink_array f) (mp1_list_head f) (qs @ i # rs)" "length (blink_array f) = 2000"
    using inv ps(1) by (auto simp: blink_inv_def)
  have i: "i < length (blink_array f)" using path_bound [OF p(1)] by simp
  have "remove_find_prev i Head f = Some (if qs = [] then Head else Next (last qs))"
    using remove_find_prev_path [OF _ p(1) d, of Head] by (simp add: deref_def)
  then have "mp1_ioctl_remove arg f = Some (0, mp1_free i (set_link (if qs = [] then Head else Next (last qs)) (next_blink (blink_array f ! i)) f))"
    using i found by (simp add: mp1_ioctl_remove_def find_helper_inv [OF inv])
  moreover have "drop_blink (ucast arg) (blinks f ps) = blinks f qs @ blinks f rs"
    using drop_blink_append [of "blinks f qs" "ucast arg" "(blink_array f ! i)\<lparr>next_blink := None\<rparr>" "blinks f rs"] ps
    by (simp add: blinks_def)
  ultimately show "\<exists>f' ps'. mp1_ioctl_remove arg f = Some (0, f') \<and> blink_inv f' ps' \<and> vmem f' = vmem f \<and>
      blinks f' ps' = drop_blink (ucast arg) (blinks f ps)"
    using unlink_node [OF inv [unfolded ps(1)]] by (intro exI conjI) simp_all
qed

section \<open>Any sequence of operations\<close>

text \<open>The client's view: a list of blinks and a screen.\<close>

datatype blink_op = Add blink | Remove u32 | Tick

fun blink_step :: "blink_op \<Rightarrow> fish \<Rightarrow> fish option" where
  "blink_step (Add b) f = Some (snd (mp1_ioctl_add b f))"
| "blink_step (Remove arg) f = map_option snd (mp1_ioctl_remove arg f)"
| "blink_step Tick f = mp1_rtc_tasklet f"

fun blink_run :: "blink_op list \<Rightarrow> fish \<Rightarrow> fish option" where
  "blink_run [] f = Some f"
| "blink_run (x # xs) f = do { f \<leftarrow> blink_step x f; blink_run xs f }"

fun blink_spec :: "blink_op \<Rightarrow> blink list \<times> (u32 \<Rightarrow> u8) \<Rightarrow> blink list \<times> (u32 \<Rightarrow> u8)" where
  "blink_spec (Add b) (bs, v) =
     (if location b < 2000 \<and> length bs < 2000
      then (lit_blink b # bs, v(push_bit 1 (ucast (location b)) := on_char b)) else (bs, v))"
| "blink_spec (Remove arg) (bs, v) = (drop_blink (ucast arg) bs, v)"
| "blink_spec Tick (bs, v) = (map ticked bs, fold display bs v)"

definition op_ok :: "blink_op \<Rightarrow> bool" where
  "op_ok x = (case x of Add b \<Rightarrow> location b \<noteq> 0 | _ \<Rightarrow> True)"

lemma drop_blink_absent: "\<not> (\<exists>b \<in> set bs. location b = loc) \<Longrightarrow> drop_blink loc bs = bs"
  by (induction bs) auto

lemma blink_inv_length: "blink_inv f ps \<Longrightarrow> length ps \<le> 2000"
proof -
  assume inv: "blink_inv f ps"
  then have "set ps \<subseteq> {0..<2000}" using path_bound by (fastforce simp: blink_inv_def)
  then have "card (set ps) \<le> 2000" using card_mono [of "{0..<2000}" "set ps"] by simp
  then show ?thesis using inv by (simp add: blink_inv_def distinct_card)
qed

lemma blink_step_spec:
  assumes inv: "blink_inv f ps" and ok: "op_ok x"
  shows "\<exists>f' ps'. blink_step x f = Some f' \<and> blink_inv f' ps' \<and> (blinks f' ps', vmem f') = blink_spec x (blinks f ps, vmem f)"
proof (cases x)
  case (Add b)
  have len: "length (blinks f ps) = length ps" by (simp add: blinks_def)
  show ?thesis
  proof (cases "location b < 2000 \<and> length ps < 2000")
    case True
    then show ?thesis
      using add_blink [OF inv _ _, of b] ok len by (fastforce simp: Add op_ok_def)
  next
    case False
    then have "2000 \<le> location b \<or> blink_inv f ps \<and> length ps = 2000" using inv blink_inv_length [OF inv] by auto
    then show ?thesis using add_refused [of b f ps] inv False len by (auto simp: Add)
  qed
next
  case (Remove arg)
  then show ?thesis
    using remove_blink [OF inv, of arg] inv drop_blink_absent [of "blinks f ps" "ucast arg"]
    by (cases "\<exists>b \<in> set (blinks f ps). location b = ucast arg") fastforce+
next
  case Tick
  then show ?thesis using tick_blinks [OF inv] by auto
qed

lemma blink_run_spec:
  "blink_inv f ps \<Longrightarrow> list_all op_ok xs \<Longrightarrow> \<exists>f' ps'. blink_run xs f = Some f' \<and> blink_inv f' ps' \<and>
     (blinks f' ps', vmem f') = fold blink_spec xs (blinks f ps, vmem f)"
proof (induction xs arbitrary: f ps)
  case Nil
  then show ?case by auto
next
  case (Cons x xs)
  obtain f1 ps1 where 1: "blink_step x f = Some f1" "blink_inv f1 ps1" "(blinks f1 ps1, vmem f1) = blink_spec x (blinks f ps, vmem f)"
    using blink_step_spec [OF Cons.prems(1), of x] Cons.prems(2) by auto
  then show ?case using Cons.IH [OF 1(2)] Cons.prems(2) by (simp add: 1(3) [symmetric])
qed

text \<open>The program starts with an empty list.\<close>

definition fish0 :: "(u32 \<Rightarrow> u8) \<Rightarrow> fish" where
  "fish0 v = \<lparr>blink_array = replicate (80 * 25) zero_blink, mp1_list_head = None, vmem = v\<rparr>"

lemma fish0_inv: "blink_inv (fish0 v) []" "blinks (fish0 v) [] = []"
  by (simp_all add: blink_inv_def fish0_def blinks_def zero_blink_def)

section \<open>A blink at location 0\<close>

text \<open>
  A node with location 0 counts as free: the next blink reuses it, its next field then points at
  itself, and the following tick never ends.
\<close>

lemma self_loop:
  assumes "next_blink (blink_array f ! i) = Some i"
  shows "tasklet_loop (Some i) f = None"
proof -
  have "p = Some i \<longrightarrow> next_blink (blink_array f ! i) \<noteq> Some i" if "tasklet_loop p f = Some f'" for p f f'
  proof (rule tasklet_loop.raw_induct [where P = "\<lambda>p f f'. p = Some i \<longrightarrow> next_blink (blink_array f ! i) \<noteq> Some i", OF _ that])
    fix loop and p :: "nat option" and f f' :: fish
    let ?f = "tasklet_node i (blink_array f ! i) f"
    assume IH: "\<And>p f f'. loop p f = Some f' \<Longrightarrow> p = Some i \<longrightarrow> next_blink (blink_array f ! i) \<noteq> Some i"
      and step: "(case p of None \<Rightarrow> Some f
        | Some i \<Rightarrow> do { b \<leftarrow> aget (blink_array f) i; loop (next_blink b) (tasklet_node i b f) }) = Some f'"
    show "p = Some i \<longrightarrow> next_blink (blink_array f ! i) \<noteq> Some i"
    proof (intro impI notI)
      assume p: "p = Some i" "next_blink (blink_array f ! i) = Some i"
      then have i: "i < length (blink_array f)" using step by (auto simp: aget_def split: if_splits)
      have "loop (Some i) ?f = Some f'" using step p i by simp
      moreover have "next_blink (blink_array ?f ! i) = Some i" using p i by (simp add: tasklet_node_eq)
      ultimately show False using IH [of "Some i" ?f f'] by simp
    qed
  qed
  then show ?thesis using assms by (metis option.exhaust)
qed

lemma blink_at_origin_hangs:
  assumes "location a = 0" "0 < location b" "location b < 2000"
  shows "blink_run [Add a, Add b, Tick] (fish0 v) = None"
proof -
  have "[0..<80 * 25] = 0 # [Suc 0..<80 * 25]" by (rule upt_conv_Cons) simp
  then have find0: "List.find P [0..<80 * 25] = Some 0" if "P 0" for P using that by (simp only: find.simps if_True)
  let ?f1 = "snd (mp1_ioctl_add a (fish0 v))"
  have "mp1_malloc (fish0 v) = Some 0" unfolding mp1_malloc_def by (rule find0) (simp add: fish0_def zero_blink_def)
  then have f1: "mp1_list_head ?f1 = Some 0" "location (blink_array ?f1 ! 0) = 0" "length (blink_array ?f1) = 2000"
    using assms(1) by (simp_all add: mp1_ioctl_add_def mp1_poke_def fish0_def Let_def)
  let ?f2 = "snd (mp1_ioctl_add b ?f1)"
  have "mp1_malloc ?f1 = Some 0" unfolding mp1_malloc_def by (rule find0) (rule f1(2))
  then have f2: "mp1_list_head ?f2 = Some 0" "next_blink (blink_array ?f2 ! 0) = Some 0"
    using assms(3) f1(1,3) by (simp_all add: mp1_ioctl_add_def mp1_poke_def not_le [symmetric] Let_def)
  then have "mp1_rtc_tasklet ?f2 = None" by (simp add: mp1_rtc_tasklet_def self_loop)
  then show ?thesis by simp
qed

section \<open>Synchronising two blinks\<close>

text \<open>
  \<^verbatim>\<open>mp1_ioctl_sync\<close> copies the timing of the first blink to the second, keeps the list, and displays the
  second blink's off character even when its new status is on.
\<close>

lemma sync_displays_off:
  assumes inv: "blink_inv f ps" and loc: "location (blink_array f ! esi) = ucast (drop_bit 16 arg)" "location (blink_array f ! edi) = ucast (arg AND 0xFFFF)"
    and found: "List.find (\<lambda>i. location (blink_array f ! i) = ucast (drop_bit 16 arg)) ps = Some esi"
      "List.find (\<lambda>i. location (blink_array f ! i) = ucast (arg AND 0xFFFF)) ps = Some edi"
  shows "\<exists>f'. mp1_ioctl_sync arg f = Some (0, f') \<and> blink_inv f' ps \<and>
    status (blink_array f' ! edi) = status (blink_array f ! esi) \<and> countdown (blink_array f' ! edi) = countdown (blink_array f ! esi) \<and>
    vmem f' = (vmem f)(push_bit 1 (ucast (location (blink_array f ! edi))) := off_char (blink_array f ! edi))"
proof -
  let ?a = "blink_array f"
  have "esi \<in> set ps" "edi \<in> set ps" using found by (auto simp: find_Some_iff)
  moreover have p: "path ?a (mp1_list_head f) ps" "length ?a = 2000" using inv by (simp_all add: blink_inv_def)
  ultimately have b: "esi < length ?a" "edi < length ?a" using path_bound by blast+
  define b' where "b' = (?a ! edi)\<lparr>on_length := on_length (?a ! esi), off_length := off_length (?a ! esi),
    countdown := countdown (?a ! esi), status := status (?a ! esi)\<rparr>"
  let ?f = "mp1_poke (off_char (?a ! edi)) (push_bit 1 (ucast (location (?a ! edi)))) (f\<lparr>blink_array := ?a[edi := b']\<rparr>)"
  have "mp1_ioctl_sync arg f = Some (0, ?f)"
    using b by (simp add: mp1_ioctl_sync_def find_helper_inv [OF inv] found b'_def Let_def)
  moreover have "path (?a[edi := b']) (mp1_list_head f) ps" using p(1) by (simp add: path_same_next b'_def)
  then have "blink_inv ?f ps" using inv b by (auto simp: blink_inv_def mp1_poke_def nth_list_update b'_def)
  ultimately show ?thesis using b by (simp add: mp1_poke_def b'_def)
qed

end
