(* ===== verification/User_Machine.thy ===== *)
theory User_Machine
  imports Machines User_Run User_Tests Grep Fish
begin

text \<open>
  A concrete machine for the user programs: a file system with the directory, the programs \<open>cat\<close> and
  \<open>ls\<close> and a text file, and a shell as process 0 on the displayed terminal.
\<close>

definition disk4 :: mem where
  "disk4 = (\<lambda>_. 0)(0x410000 := 4, 0x410004 := 2, 0x410008 := 2,
     0x410040 := 0x2E, 0x410060 := 1,
     0x410080 := 0x63, 0x410081 := 0x61, 0x410082 := 0x74, 0x4100A0 := 2,
     0x4100C0 := 0x6C, 0x4100C1 := 0x73, 0x4100E0 := 2,
     0x410100 := 0x61, 0x410120 := 2, 0x410124 := 1,
     0x411000 := 28, 0x412000 := 3, 0x412004 := 1,
     0x413000 := 0x7F, 0x413001 := 0x45, 0x413002 := 0x4C, 0x413003 := 0x46,
     0x413018 := 0x54, 0x413019 := 0x80, 0x41301A := 0x04, 0x41301B := 0x08,
     0x414000 := 0x48, 0x414001 := 0x69, 0x414002 := 0x0A)"

definition machine4 :: kernel where
  "machine4 = (boot_kernel disk4 0x401000 0x402000 0x403000)\<lparr>fs_start := 0x410000,
     PT1 := (\<lambda>t. if t = 0 then USER_VID_MEM_ENTRY else VID_MEM_BACKUP t),
     pid_flags := (\<lambda>_. 0)(0 := 1), pcbs := (\<lambda>_. zero_pcb)(0 := pcb0)\<rparr>"

definition file4 :: dentry_t where
  "file4 = \<lparr>file_name = cbytes ''a'' @ replicate 31 0, file_type = 2, inode_number = 1\<rparr>"

lemma machine4_fields [simp]:
  "mem machine4 = disk4" "fs_start machine4 = 0x410000" "pid_flags machine4 = (\<lambda>_. 0)(0 := 1)"
  "pcbs machine4 = (\<lambda>_. zero_pcb)(0 := pcb0)" "current_pid machine4 = 0" "terminal_num machine4 = 0"
  "video_mem machine4 = (\<lambda>t. [VIDEO, 0xBA000, 0xBB000] ! t)" "screen_x machine4 = (\<lambda>_. 0)" "screen_y machine4 = (\<lambda>_. 0)"
  by (simp_all add: machine4_def boot_kernel_def)

lemma disk4_directory:
  assumes m: "\<And>a. drop_bit 22 a = (1 :: u32) \<Longrightarrow> m a = disk4 a"
  shows "dentry_list (machine4\<lparr>mem := m\<rparr>) = [entry_of ''.'' 1, entry_of ''cat'' 2, entry_of ''ls'' 2, file4]"
proof -
  have count: "load32 m 0x410000 = 4" by (simp add: load32_def m) (simp add: disk4_def)
  have e: "copy_dentry m 0x410040 = entry_of ''.'' 1" "copy_dentry m 0x410080 = entry_of ''cat'' 2"
      "copy_dentry m 0x4100C0 = entry_of ''ls'' 2" "copy_dentry m 0x410100 = file4"
    by (simp_all add: copy_dentry_def load32_def m upt_rec entry_of_def file4_def cbytes_def, simp_all add: disk4_def, simp_all add: numeral_eq_Suc)
  show ?thesis by (simp add: dentry_list_def count upt_rec e)
qed

lemma disk4_files:
  assumes m: "\<And>a. drop_bit 22 a = (1 :: u32) \<Longrightarrow> m a = disk4 a"
  shows "file_bytes (machine4\<lparr>mem := m\<rparr>) 0 = program" and "file_bytes (machine4\<lparr>mem := m\<rparr>) 1 = cbytes ''Hi'' @ [0x0A]"
proof -
  let ?s = "machine4\<lparr>mem := m\<rparr>"
  have l: "load32 m 0x411000 = 28" "load32 m 0x412000 = 3" "load32 m 0x410004 = 2" "load32 m 0x411004 = 0" "load32 m 0x412004 = 1"
    by (simp_all add: load32_def m, simp_all add: disk4_def)
  have b: "data_block_address ?s 0 0 = 0x413000" "data_block_address ?s 1 0 = 0x414000"
    by (simp_all add: data_block_address_def l inode_ptr_def)
  have len: "inode_length ?s 0 = 28" "inode_length ?s 1 = 3" by (simp_all add: inode_length_def inode_ptr_def l)
  show "file_bytes ?s 0 = program"
    using len b by (simp add: file_bytes_def file_byte_def upt_rec m program_def, simp add: disk4_def, simp add: numeral_eq_Suc)
  show "file_bytes ?s 1 = cbytes ''Hi'' @ [0x0A]"
    using len b by (simp add: file_bytes_def file_byte_def upt_rec m cbytes_def, simp add: disk4_def)
qed

lemma machine4_files:
  "dentry_list machine4 = [entry_of ''.'' 1, entry_of ''cat'' 2, entry_of ''ls'' 2, file4]"
  "file_bytes machine4 0 = program" "file_bytes machine4 1 = cbytes ''Hi'' @ [0x0A]"
  using disk4_directory [of disk4] disk4_files [of disk4] machine4_fields(1) by (metis kernel.surjective kernel.update_convs(1))+

lemma machine4_in_kernel_page: "in_kernel_page machine4 0" "in_kernel_page machine4 1"
  using disk4_directory disk4_files by (simp_all add: in_kernel_page_def machine4_files)

lemma machine4_shell_ready: "shell_ready machine4 0 1"
proof -
  have "video_ok machine4" by (simp add: video_ok_def less_3 backup_mem_addr_def) (simp add: machine4_def)
  then show ?thesis by (simp add: shell_ready_def upt_rec cursor_ok_def zero_pcb_def)
qed

lemma machine4_installed:
  "installed machine4 (cbytes ''cat'') (entry_of ''cat'' 2)" "installed machine4 (cbytes ''ls'') (entry_of ''ls'' 2)"
proof -
  have p: "length program = 28" "take 4 program = magic_number" by (simp_all add: program_def magic_number_def)
  have f: "List.find (name_found (cbytes ''cat'')) (dentry_list machine4) = Some (entry_of ''cat'' 2)"
      "List.find (name_found (cbytes ''ls'')) (dentry_list machine4) = Some (entry_of ''ls'' 2)"
    unfolding machine4_files by (simp_all add: entry_of_def file4_def name_found_def entry_name_def cbytes_def)
  have i: "inode_number (entry_of x t) = 0" for x t by (simp add: entry_of_def)
  show "installed machine4 (cbytes ''cat'') (entry_of ''cat'' 2)" "installed machine4 (cbytes ''ls'') (entry_of ''ls'' 2)"
    using f p machine4_in_kernel_page(1) by (simp_all add: installed_def i machine4_files)
qed

lemma machine4_test_state: "test_state 0 machine4"
proof -
  have cur: "cur_pcb machine4 = pcb0" by (simp add: cur_pcb_def)
  have v: "video_ok machine4" using machine4_shell_ready by (simp add: shell_ready_def)
  have tty: "get_tty machine4 = 0" by (simp add: get_tty_def cur pcb0_def zero_pcb_def)
  have "fds_ok pcb0" by (rule new_fds_ok [of _ zero_pcb]) (simp add: pcb0_def)
  then have "stdout_ok machine4" using v video_ok_pages [OF v] by (simp add: stdout_ok_def cur tty cursor_ok_def)
  moreover have "vacant machine4" by (auto simp: vacant_def cur pcb0_def new_fds_def free_entry_def)
  ultimately show ?thesis
    using in_kernel_page_off_screen [OF machine4_in_kernel_page(1) v] tty by (simp add: test_state_def)
qed

end
