(* ===== verification/Kernel_Boot.thy ===== *)
theory Kernel_Boot
  imports Kernel_Run User_Machine
begin

text \<open>
  From boot to the running system: the initialisation of \<^verbatim>\<open>kernel.c\<close> prepares the state in which the first ticks of the
  timer start the three shells, which establishes the invariant of the kernel. Concrete machines at these stages.
\<close>

section \<open>The first ticks\<close>

text \<open>
  The state in which \<open>k\<close> shells run, the last of them as the current process. \<^verbatim>\<open>task_switch\<close> moves \<^verbatim>\<open>terminal_num\<close> along without
  switching the display, which stays on the first terminal.
\<close>

definition booting :: "dentry_t \<Rightarrow> nat \<Rightarrow> kernel \<Rightarrow> bool" where
  "booting d k s \<longleftrightarrow> screens_ok (s\<lparr>terminal_num := 0\<rparr>) \<and> paged (s\<lparr>PDT := (PDT s)(32 := prog_entry (current_pid s))\<rparr>) \<and>
     installed s (cbytes ''shell'') d \<and> (\<forall>t < k. chain s t [int t] \<and> execute_pid s t = int t) \<and>
     (\<forall>p < 6. pid_flags s p \<noteq> 0 \<longleftrightarrow> p < k) \<and> pit_terminal_num s = 0 \<and> terminals_initialized s = (if k = 3 then 1 else 0) \<and>
     (\<forall>p. length (args (pcbs s p)) = 128) \<and>
     (0 < k \<longrightarrow> current_pid s = int (k - 1) \<and> PDT s 32 = prog_entry (int (k - 1)) \<and> tss_esp0 s = kstack (int (k - 1)) \<and>
        (\<forall>t < k - 1. sched_esp0 (pcbs s (int t)) = kstack (int t)))"

lemma bootingD:
  assumes "booting d k s"
  shows "screens_ok (s\<lparr>terminal_num := 0\<rparr>)" "paged (s\<lparr>PDT := (PDT s)(32 := prog_entry (current_pid s))\<rparr>)"
    "installed s (cbytes ''shell'') d" "t < k \<Longrightarrow> chain s t [int t]" "t < k \<Longrightarrow> execute_pid s t = int t"
    "p < 6 \<Longrightarrow> pid_flags s p \<noteq> 0 \<longleftrightarrow> p < k" "pit_terminal_num s = 0" "terminals_initialized s = (if k = 3 then 1 else 0)"
    "length (args (pcbs s q)) = 128" "0 < k \<Longrightarrow> current_pid s = int (k - 1)" "0 < k \<Longrightarrow> PDT s 32 = prog_entry (int (k - 1))"
    "0 < k \<Longrightarrow> tss_esp0 s = kstack (int (k - 1))" "0 < k \<Longrightarrow> t < k - 1 \<Longrightarrow> sched_esp0 (pcbs s (int t)) = kstack (int t)"
  using assms unfolding booting_def by blast+

lemma in_kernel_page_stable: "in_kernel_page s inode \<Longrightarrow> fs_stable s inode"
proof -
  have "\<not> in_program_frames a" if "drop_bit 22 a = (1 :: u32)" for a
    using that by (simp add: in_program_frames_def word_le_nat_alt)
  then show "in_kernel_page s inode \<Longrightarrow> fs_stable s inode" by (simp add: in_kernel_page_def fs_stable_def same_outside_def)
qed

lemma installed_shell_file: "installed s (cbytes ''shell'') d \<Longrightarrow> shell_file s d"
  using in_kernel_page_stable by (simp add: installed_def shell_file_def)

lemma save_context_more [simp]:
  "PDT (save_context s) = PDT s" "PT0 (save_context s) = PT0 s" "PT1 (save_context s) = PT1 s"
  "PT0_addr (save_context s) = PT0_addr s" "PT1_addr (save_context s) = PT1_addr s"
  by (simp_all add: save_context_def set_cur_pcb_def set_pcb_def)

text \<open>Each tick starts the next shell.\<close>

lemma boot_tick:
  assumes b: "booting d k s" and k: "k < 3" and frame: "frame_ok (frames k)"
  shows "\<exists>eip s'. P_handler_wrapper frames s = Some (Shell_entered eip 0x083FFFFF, s') \<and> booting d (Suc k) s'"
proof -
  define u where "u = send_eoi 0 (s\<lparr>iflag := False\<rparr>)"
  have u: "pid_flags u = pid_flags s" "mem u = mem s" "fs_start u = fs_start s" "pcbs u = pcbs s"
    by (simp_all add: u_def send_eoi_def outb_def)
  have u0: "current_pid u = current_pid s" "tss_esp0 u = tss_esp0 s" by (simp_all add: u_def send_eoi_def outb_def)
  have inst: "installed u (cbytes ''shell'') d" using installed_cong [OF bootingD(3) [OF b], of u "{}"] u by (simp add: only_frames_def)
  have "pid_flags s k = 0" using bootingD(6) [OF b, of k] k by simp
  moreover have "\<forall>j < k. pid_flags s j \<noteq> 0" using bootingD(6) [OF b] k by simp
  ultimately have free: "pid_flags s k = 0" "\<forall>j < k. pid_flags s j \<noteq> 0" by blast+
  obtain eip m where t: "task_switch frames u =
        Some (Shell_entered eip 0x083FFFFF, started (cli (shell_call k (save_context u))) k (args (pcbs s (int k))) m)"
      and m: "\<forall>a. drop_bit 22 a \<noteq> word_of_int (2 + int k) \<longrightarrow> m a = mem s a"
    using tick_enters_shell [of k u d frames] installed_shell_file [OF inst] k frame free bootingD(9) [OF b] by (auto simp: u)
  define s' where "s' = started (cli (shell_call k (save_context u))) k (args (pcbs s (int k))) m"
  have run: "P_handler_wrapper frames s = Some (Shell_entered eip 0x083FFFFF, s')"
    using t by (simp add: P_handler_wrapper_def PIT_handler_def u_def s'_def)
  have f: "current_pid s' = int k" "pid_flags s' = (pid_flags s)(k := 1)" "mem s' = m" "fs_start s' = fs_start s"
      "pcbs s' = (pcbs (save_context u))(int k := started_pcb (cli (shell_call k (save_context u))) k (args (pcbs s (int k))))"
      "execute_pid s' = (execute_pid s)(k := int k)" "pit_terminal_num s' = pit_terminal_num s"
      "terminals_initialized s' = (if k = 2 then 1 else terminals_initialized s)"
    by (simp_all add: s'_def u) (simp_all add: u_def send_eoi_def outb_def)
  have "only_frames {frame_of (int k)} s s'" using m by (simp add: only_frames_def frame_of_def f)
  then have 1: "installed s' (cbytes ''shell'') d"
    using installed_cong [OF bootingD(3) [OF b] f(4)] frame_of_neq(2) [of "int k"] k by simp
  have 2: "screens_ok (s'\<lparr>terminal_num := 0\<rparr>)"
    by (rule screens_ok_cong [OF bootingD(1) [OF b]]) (simp_all add: s'_def u_def started_def shell_call_def Let_def)
  have 3: "paged (s'\<lparr>PDT := (PDT s')(32 := prog_entry (current_pid s'))\<rparr>)"
    by (rule paged_current [OF bootingD(2) [OF b]])
       (simp_all add: s'_def u_def started_def shell_call_def Let_def sti_def cli_def send_eoi_def outb_def)
  have 4: "chain s' x [int x]" if "x < Suc k" for x
    using bootingD(4) [OF b, of x] that k by (cases "x = k") (auto simp: f u)
  have "sched_esp0 (pcbs (save_context u) (int x)) = kstack (int x)" if "x < k" for x
    using bootingD(10,12) [OF b] bootingD(13) [OF b, of x] that by (cases "x = k - 1") (auto simp: u u0)
  moreover have "PDT s' 32 = prog_entry (int k)" "tss_esp0 s' = kstack (int k)" by (simp_all add: s'_def)
  ultimately show ?thesis using run 1 2 3 4 bootingD(5-9) [OF b] k by (auto simp: booting_def f u)
qed

text \<open>The tick after the third one brings the display back and reaches the running system.\<close>

lemma boot_done:
  assumes b: "booting d 3 s"
  shows "\<exists>s'. P_handler_wrapper frames s = Some (Resumed, s') \<and> kernel_ok d (\<lambda>t. [int t]) s' \<and> terminal_num s' = 0"
proof -
  define u where "u = send_eoi 0 (s\<lparr>iflag := False\<rparr>)"
  define s' where "s' = (switched u)\<lparr>iflag := True\<rparr>"
  have u: "pid_flags u = pid_flags s" "pit_terminal_num u = 0" "execute_pid u = execute_pid s" "mem u = mem s" "pcbs u = pcbs s"
      "terminals_initialized u = 1" "PDT u = PDT s" "device_state u = device_state s"
    using bootingD(7,8) [OF b] by (simp_all add: u_def send_eoi_def outb_def)
  have u0: "current_pid u = current_pid s" "tss_esp0 u = tss_esp0 s" by (simp_all add: u_def send_eoi_def outb_def)
  have run: "shells_running u" using bootingD(6) [OF b] by (simp add: shells_running_def u)
  then have "P_handler_wrapper frames s = Some (Resumed, s')"
    using task_switch_running by (simp add: P_handler_wrapper_def PIT_handler_def u_def [symmetric] s'_def)
  note d = s'_def switched_def next_task_def Let_def map_program_page_def flush_tlb_def update_cursor_def outb_def sti_def
    save_context_def set_cur_pcb_def set_pcb_def u_def send_eoi_def
  have tn: "terminal_num s' = 0" "terminals_initialized s' = 0" "fs_start s' = fs_start s"
    using u(6) by (simp_all add: d)
  have 1: "screens_ok s'" by (rule screens_ok_cong [OF bootingD(1) [OF b]]) (simp_all add: tn, simp add: s'_def u_def)
  have 2: "paged s'" by (rule paged_current [OF bootingD(2) [OF b]]) (simp_all add: s'_def switched_def next_task_PDT u)
  have 3: "installed s' (cbytes ''shell'') d"
    using installed_cong [OF bootingD(3) [OF b] tn(3), of "{}"] u(4) by (simp add: only_frames_def s'_def)
  have pcbs: "pcbs s' = pcbs (save_context u)" "pid_flags s' = pid_flags s" by (simp_all add: s'_def switched_def u)
  have "chain s' t [int t]" if "t < 3" for t
    by (rule chain_cong [OF bootingD(4) [OF b that]]) (simp add: pcbs u same_task_def)
  moreover have "execute_pid s' t = int t" if "t < 3" for t using bootingD(5) [OF b that] by (simp add: s'_def u)
  moreover have "int p \<in> set (all_tasks (\<lambda>t. [int t]))" if "p < 6" "pid_flags s' p \<noteq> 0" for p
    using that bootingD(6) [OF b, of p] by (auto simp: all_tasks_def s'_def u less_3)
  moreover have "current_pid s' = execute_pid s' (pit_terminal_num s')" "pit_terminal_num s' = 1"
    by (simp_all add: s'_def switched_current(1) u)
  moreover have top: "sched_esp0 (pcbs s' (int t)) = kstack (int t)" if "t < 3" for t
    using bootingD(10,12) [OF b] bootingD(13) [OF b, of t] that by (cases "t = 2") (auto simp: pcbs u u0)
  moreover have "tss_esp0 s' = kstack (current_pid s')"
  proof -
    have "tss_esp0 s' = sched_esp0 (pcbs s' (current_pid s'))"
      using switched_current(2) [of u] by (simp add: context_of_def saved_context_def s'_def)
    moreover have "current_pid s' = int 1" using bootingD(5) [OF b, of 1] by (simp add: s'_def switched_current(1) u)
    ultimately show ?thesis using top [of 1] by simp
  qed
  ultimately have "tasks (\<lambda>t. [int t]) s'"
    unfolding tasks_def using bootingD(9) [OF b] tn(2) by (simp add: pcbs u all_tasks_def)
  then show ?thesis using \<open>P_handler_wrapper frames s = Some (Resumed, s')\<close> 1 2 3 tn(1) unfolding kernel_ok_def by blast
qed

text \<open>
  Between the ticks: ticks of the clock, and, once a shell runs, its stores, its writes and the start of its waits. Keys are left
  out: while \<^verbatim>\<open>terminal_num\<close> and the display disagree, Alt with a function key saves the wrong screen.
\<close>

fun boot_event :: "nat \<Rightarrow> event \<Rightarrow> bool" where
  "boot_event k Clock = True"
| "boot_event k (Call env frame eax ebx ecx edx) = (0 < k \<and> eax = 4)"
| "boot_event k Wait_line = (0 < k)"
| "boot_event k Wait_clock = (0 < k)"
| "boot_event k (Store v b) = (0 < k)"
| "boot_event k (Registers x y) = (0 < k)"
| "boot_event k _ = False"

lemma booting_cong:
  assumes b: "booting d k s" and kt: "keeps_tasks s s'" and sc: "screens_ok (s'\<lparr>terminal_num := 0\<rparr>)" and fr: "only_frames F s s'" "1 \<notin> F"
  shows "booting d k s'"
proof -
  note k = keeps_tasksD [OF kt]
  have "keeps_tasks (s\<lparr>PDT := (PDT s)(32 := prog_entry (current_pid s))\<rparr>) (s'\<lparr>PDT := (PDT s')(32 := prog_entry (current_pid s'))\<rparr>)"
    using kt by (simp add: keeps_tasks_def)
  then have 1: "paged (s'\<lparr>PDT := (PDT s')(32 := prog_entry (current_pid s'))\<rparr>)" by (rule paged_cong [OF bootingD(2) [OF b]])
  have 2: "installed s' (cbytes ''shell'') d" using installed_cong [OF bootingD(3) [OF b] k(6) fr] .
  have 3: "chain s' t [int t]" if "t < k" for t
    by (rule chain_cong [OF bootingD(4) [OF b that]]) (use k in \<open>simp add: same_task_def\<close>)
  show ?thesis using sc 1 2 3 bootingD(5-13) [OF b] k unfolding booting_def by simp
qed

text \<open>These events do not depend on \<^verbatim>\<open>terminal_num\<close>, apart from the position of the cursor they send to the display.\<close>

lemma get_tty_terminal [simp]: "get_tty (s\<lparr>terminal_num := t\<rparr>) = get_tty s" "get_tty (cli s) = get_tty s"
  by (simp_all add: get_tty_def cur_pcb_def cli_def)

lemma write_call_terminal:
  assumes "write_call env fd buf n s = Some (r, s')"
  shows "\<exists>u out. write_call env fd buf n (s\<lparr>terminal_num := t\<rparr>) = Some (r, u) \<and> s'\<lparr>terminal_num := t\<rparr> = u\<lparr>outs := out\<rparr>"
proof (cases "buf = None \<or> fd \<ge> 8 \<or> fd < 0 \<or> fd = 0 \<or> flags (fd_entry (cur_pcb s) (nat fd)) = FREE")
  case True
  then have "write_call env fd buf n (s\<lparr>terminal_num := t\<rparr>) = Some (-1, s\<lparr>terminal_num := t\<rparr>)" "write_call env fd buf n s = Some (-1, s)"
    by (auto simp: write_call_def cur_pcb_def Let_def)
  moreover have "s\<lparr>terminal_num := t\<rparr> = s\<lparr>terminal_num := t, outs := outs s\<rparr>" by simp
  ultimately show ?thesis using assms by (metis option.inject prod.inject)
next
  case False
  have cli: "(cli (s\<lparr>terminal_num := t\<rparr>))\<lparr>terminal_num := get_tty s\<rparr> = (cli s)\<lparr>terminal_num := get_tty s\<rparr>"
      "terminal_num (cli (s\<lparr>terminal_num := t\<rparr>)) = t" "cur_pcb (s\<lparr>terminal_num := t\<rparr>) = cur_pcb s"
    by (simp_all add: cli_def cur_pcb_def)
  obtain f v where f: "operation WRITE (fd_entry (cur_pcb s) (nat fd)) = Some f"
      "call_write env f (nat fd) buf n ((cli s)\<lparr>terminal_num := get_tty s\<rparr>) = Some (r, v)"
      and s': "s' = sti (update_cursor (screen_x v (terminal_num s)) (screen_y v (terminal_num s)) (v\<lparr>terminal_num := terminal_num s\<rparr>))"
    using assms False by (auto simp: write_call_def Let_def split: Option.bind_splits)
  let ?u = "sti (update_cursor (screen_x v t) (screen_y v t) (v\<lparr>terminal_num := t\<rparr>))"
  have "write_call env fd buf n (s\<lparr>terminal_num := t\<rparr>) = Some (r, ?u)"
    using False f by (auto simp: write_call_def Let_def cli)
  moreover have "s'\<lparr>terminal_num := t\<rparr> = ?u\<lparr>outs := outs s'\<rparr>"
    unfolding s' by (simp add: update_cursor_def outb_def sti_def Let_def)
  ultimately show ?thesis by blast
qed

lemma user_ptr_terminal: "user_ptr (s\<lparr>terminal_num := t\<rparr>) = user_ptr s" "virt_ptr (s\<lparr>terminal_num := t\<rparr>) = virt_ptr s"
    "mmu (s\<lparr>terminal_num := t\<rparr>) = mmu s"
proof -
  show m: "mmu (s\<lparr>terminal_num := t\<rparr>) = mmu s" by (rule mmu_tables) simp_all
  show v: "virt_ptr (s\<lparr>terminal_num := t\<rparr>) = virt_ptr s" by (intro ext) (simp add: virt_ptr_def m)
  show "user_ptr (s\<lparr>terminal_num := t\<rparr>) = user_ptr s" by (intro ext) (simp add: user_ptr_def v)
qed

lemma boot_event_serves:
  assumes ok: "screens_ok (s\<lparr>terminal_num := 0\<rparr>)" "paged s" "0 \<le> current_pid s" "current_pid s < 6" "fds_ok (cur_pcb s)" "get_tty s < 3"
    and e: "boot_event k e" "event_ok e s" and st: "step e s = Some s'"
  shows "serves (s\<lparr>terminal_num := 0\<rparr>) (s'\<lparr>terminal_num := 0\<rparr>)"
proof -
  let ?s = "s\<lparr>terminal_num := 0\<rparr>"
  have s0: "paged ?s" "cur_pcb ?s = cur_pcb s" using ok(2) by (simp_all add: paged_def tables_aligned_def cur_pcb_def)
  show ?thesis
  proof (cases e)
    case Clock
    have "s'\<lparr>terminal_num := 0\<rparr> = R_handler_wrapper ?s"
      using st Clock by (auto simp: R_handler_wrapper_def RTC_handler_def send_eoi_def outb_def Let_def)
    then show ?thesis using clock_serves [OF ok(1)] by simp
  next
    case (Call env frame eax ebx ecx edx)
    obtain r where "eax = 4" "write_call env (sint ebx) (user_ptr s ecx) edx s = Some (r, s')"
      using st e(1) Call by (auto simp: sys_handler_def split: Option.bind_splits)
    moreover from write_call_terminal [OF this(2), of 0] obtain u out where
        u: "write_call env (sint ebx) (user_ptr ?s ecx) edx ?s = Some (r, u)" "s'\<lparr>terminal_num := 0\<rparr> = u\<lparr>outs := out\<rparr>"
      by (auto simp: user_ptr_terminal)
    ultimately have w: "serves ?s u"
      using e(2) Call by (intro write_serves [OF ok(1) _ _ u(1), of frame]) (simp_all add: s0 ok(5,6) user_ptr_terminal)
    then have "serves u (u\<lparr>outs := out\<rparr>)"
      using serves_ports [of u, where x = out and i = "iflag u"] by (simp add: serves_def)
    then show ?thesis using serves_trans [OF w] u(2) by simp
  next
    case Wait_line
    then have "s'\<lparr>terminal_num := 0\<rparr> = read_begin ?s" using st by (auto simp: read_begin_def)
    then show ?thesis using wait_serves(1) [OF ok(1)] by simp
  next
    case Wait_clock
    then have "s'\<lparr>terminal_num := 0\<rparr> = rtc_begin ?s" using st by (auto simp: rtc_begin_def)
    then show ?thesis using wait_serves(2) [OF ok(1)] by simp
  next
    case (Store v b)
    then obtain a where a: "mmu s True v = Some a" "s' = s\<lparr>mem := (mem s)(a := b)\<rparr>" using st by auto
    then have "s'\<lparr>terminal_num := 0\<rparr> = ?s\<lparr>mem := (mem ?s)(a := b)\<rparr>" by simp
    then show ?thesis using store_serves [OF ok(1) s0(1)] ok(3,4) a(1) by (simp add: user_ptr_terminal)
  next
    case (Registers x y)
    then have "s'\<lparr>terminal_num := 0\<rparr> = ?s\<lparr>esp := x, ebp := y\<rparr>" using st by auto
    then show ?thesis using wait_serves(3) [OF ok(1)] by simp
  qed (use e in simp_all)
qed

lemma boot_event_keeps:
  assumes b: "booting d k s" and k: "k \<le> 3" and e: "boot_event k e" "event_ok e s" and st: "step e s = Some s'"
  shows "booting d k s'"
proof (cases "k = 0")
  case True
  then have s': "s' = R_handler_wrapper s" using e(1) st by (cases e) auto
  have "serves (s\<lparr>terminal_num := 0\<rparr>) (R_handler_wrapper (s\<lparr>terminal_num := 0\<rparr>))" by (rule clock_serves [OF bootingD(1) [OF b]])
  moreover have "R_handler_wrapper (s\<lparr>terminal_num := 0\<rparr>) = s'\<lparr>terminal_num := 0\<rparr>"
    by (simp add: s' R_handler_wrapper_def RTC_handler_def send_eoi_def outb_def Let_def)
  ultimately have "keeps_tasks s s'" "screens_ok (s'\<lparr>terminal_num := 0\<rparr>)" by (simp_all add: serves_def keeps_tasks_def)
  moreover have "only_frames {} s s'" by (simp add: s' R_handler_wrapper_def only_frames_def frame_simps)
  ultimately show ?thesis using booting_cong [OF b] by blast
next
  case False
  then have k0: "0 < k" by simp
  have c: "current_pid s = int (k - 1)" "chain s (k - 1) [int (k - 1)]"
    using bootingD(10) [OF b k0] bootingD(4) [OF b, of "k - 1"] k0 by (blast, simp del: chain.simps)
  then have f: "0 \<le> current_pid s" "current_pid s < 6" "fds_ok (cur_pcb s)" "tty (cur_pcb s) = of_nat (k - 1)" by (auto simp: cur_pcb_def)
  have "k - 1 < 3" using k k0 by simp
  then have tty: "get_tty s < 3" using f(4) by (auto simp: get_tty_def less_3)
  have "s\<lparr>PDT := (PDT s)(32 := prog_entry (current_pid s))\<rparr> = s" using bootingD(11) [OF b k0] c(1) by (simp add: fun_upd_idem)
  then have pg: "paged s" using bootingD(2) [OF b] by simp
  have sv: "serves (s\<lparr>terminal_num := 0\<rparr>) (s'\<lparr>terminal_num := 0\<rparr>)" by (rule boot_event_serves [OF bootingD(1) [OF b] pg f(1-3) tty e st])
  then have "keeps_tasks s s'" "screens_ok (s'\<lparr>terminal_num := 0\<rparr>)" "only_frames {0, frame_of (current_pid s)} s s'"
    by (simp_all add: serves_def keeps_tasks_def only_frames_def)
  then show ?thesis using booting_cong [OF b] frame_of_neq(2) [OF f(1,2)] by fastforce
qed

interpretation boot_run: stepwise step "\<lambda>e s. k \<le> 3 \<and> boot_event k e \<and> event_ok e s" "booting d k" for d k
  by unfold_locales (blast intro: boot_event_keeps)

text \<open>The part of the boot between two ticks.\<close>

lemma boot_phase:
  assumes b: "booting d k s" "k \<le> 3" and es: "list_all (boot_event k) es" "admissible event_ok step (es @ Timer frames # fs) s"
    and r: "run step (es @ Timer frames # fs) s = Some s'" and frames: "\<forall>i. frame_ok (frames i)"
  shows "\<exists>u. (if k < 3 then booting d (Suc k) u else kernel_ok d (\<lambda>t. [int t]) u \<and> terminal_num u = 0) \<and>
    admissible event_ok step fs u \<and> run step fs u = Some s'"
proof -
  obtain v where v: "run step es s = Some v" "run step (Timer frames # fs) v = Some s'"
    using r by (auto simp: run_append split: Option.bind_splits)
  have ad: "admissible event_ok step es s" "admissible event_ok step (Timer frames # fs) v" using es(2) v(1) by (simp_all add: admissible_append)
  have "admissible (\<lambda>e s. k \<le> 3 \<and> boot_event k e \<and> event_ok e s) step es s"
    using ad(1) es(1) b(2) by (induction es arbitrary: s) (auto split: option.splits)
  then have bv: "booting d k v" using boot_run.run_inv [OF b(1)] v(1) by blast
  obtain u where u: "step (Timer frames) v = Some u" "run step fs u = Some s'" using v(2) by (auto split: Option.bind_splits)
  have "if k < 3 then booting d (Suc k) u else kernel_ok d (\<lambda>t. [int t]) u \<and> terminal_num u = 0"
  proof (cases "k < 3")
    case True
    then obtain w where "step (Timer frames) v = Some w" "booting d (Suc k) w" using boot_tick [OF bv True, of frames] frames by auto
    then show ?thesis using True u(1) by (simp del: step.simps)
  next
    case False
    then have "k = 3" using b(2) by simp
    then have "booting d 3 v" using bv by blast
    then obtain w where "step (Timer frames) v = Some w" "kernel_ok d (\<lambda>t. [int t]) w" "terminal_num w = 0"
      using boot_done [of d v frames] by auto
    then show ?thesis using False u(1) by (simp del: step.simps)
  qed
  moreover have "admissible event_ok step fs u" using ad(2) u(1) by (simp del: step.simps)
  ultimately show ?thesis using u(2) by blast
qed

lemma boot_phases:
  assumes b: "booting d 0 s" and frames: "\<forall>i. frame_ok (frames i)"
    and es: "list_all (boot_event 0) es0" "list_all (boot_event 1) es1" "list_all (boot_event 2) es2" "list_all (boot_event 3) es3"
    and r: "admissible event_ok step (es0 @ Timer frames # es1 @ Timer frames # es2 @ Timer frames # es3 @ [Timer frames]) s"
      "run step (es0 @ Timer frames # es1 @ Timer frames # es2 @ Timer frames # es3 @ [Timer frames]) s = Some s'"
  shows "kernel_ok d (\<lambda>t. [int t]) s' \<and> terminal_num s' = 0"
proof -
  obtain s1 where 1: "booting d 1 s1" "admissible event_ok step (es1 @ Timer frames # es2 @ Timer frames # es3 @ [Timer frames]) s1"
      "run step (es1 @ Timer frames # es2 @ Timer frames # es3 @ [Timer frames]) s1 = Some s'"
    using boot_phase [OF b _ es(1) r frames] by auto
  obtain s2 where 2: "booting d 2 s2" "admissible event_ok step (es2 @ Timer frames # es3 @ [Timer frames]) s2"
      "run step (es2 @ Timer frames # es3 @ [Timer frames]) s2 = Some s'"
    using boot_phase [OF 1(1) _ es(2) 1(2,3) frames] by (auto simp: numeral_2_eq_2)
  obtain s3 where 3: "booting d 3 s3" "admissible event_ok step (es3 @ [Timer frames]) s3" "run step (es3 @ [Timer frames]) s3 = Some s'"
    using boot_phase [OF 2(1) _ es(3) 2(2,3) frames] by (auto simp: numeral_3_eq_3)
  show ?thesis using boot_phase [OF 3(1) _ es(4) 3(2,3) frames] by auto
qed

text \<open>The four ticks alone always have a result.\<close>

lemma boot_ticks_defined:
  assumes b: "booting d 0 s" and frames: "\<forall>i. frame_ok (frames i)"
  shows "\<exists>s'. run step [Timer frames, Timer frames, Timer frames, Timer frames] s = Some s'"
proof -
  have tick: "\<exists>s'. step (Timer frames) u = Some s' \<and> booting d (Suc k) s'" if "booting d k u" "k < 3" for u k
    using boot_tick [OF that, of frames] frames by auto
  obtain s1 where 1: "step (Timer frames) s = Some s1" "booting d 1 s1" using tick [OF b] by auto
  obtain s2 where 2: "step (Timer frames) s1 = Some s2" "booting d 2 s2" using tick [OF 1(2)] by (auto simp: numeral_2_eq_2)
  obtain s3 where 3: "step (Timer frames) s2 = Some s3" "booting d 3 s3" using tick [OF 2(2)] by (auto simp: numeral_3_eq_3)
  obtain s4 where 4: "step (Timer frames) s3 = Some s4" using boot_done [OF 3(2), of frames] by auto
  show ?thesis using 1(1) 2(1) 3(1) 4 by (simp del: step.simps)
qed

section \<open>Initialisation\<close>

text \<open>The decimal number in a message.\<close>

definition decimal :: "u32 \<Rightarrow> u8 list" where
  "decimal v = (if sint v < 0 then 0x2D # number_text 10 (- v) else number_text 10 v)"

lemma number_text_line: "length (number_text 10 v) \<le> 10" "c \<in> set (number_text 10 v) \<Longrightarrow> 0x30 \<le> c \<and> c \<le> 0x39"
proof -
  show "length (number_text 10 v) \<le> 10" using digits_u32_length [of 10 10 v] by (simp add: number_text_def)
  have "0x30 \<le> dig d \<and> dig d \<le> 0x39" if "d < 10" for d
  proof -
    have "d \<in> {0, 1, 2, 3, 4, 5, 6, 7, 8, 9}" using that by auto
    then show ?thesis by (auto simp: dig_def lookup_def cbytes_def)
  qed
  then show "c \<in> set (number_text 10 v) \<Longrightarrow> 0x30 \<le> c \<and> c \<le> 0x39"
    using digits_less [of 10 "unat v"] by (auto simp: number_text_def)
qed

lemma decimal_line: "length (decimal v) \<le> 11" "c \<in> set (decimal v) \<Longrightarrow> c \<notin> {0, 0x25, 0x0A, 0x0D}"
proof -
  show "length (decimal v) \<le> 11" using number_text_line(1) [of v] number_text_line(1) [of "- v"] by (simp add: decimal_def)
  assume "c \<in> set (decimal v)"
  then have "c = 0x2D \<or> 0x30 \<le> c \<and> c \<le> 0x39" using number_text_line(2) [of c v] number_text_line(2) [of c "- v"] by (auto simp: decimal_def split: if_splits)
  then show "c \<notin> {0, 0x25, 0x0A, 0x0D}" by (auto simp: word_le_nat_alt)
qed

lemma boot_messages:
  "render (cbytes ''Initializing devices...'' @ [0x0A]) [] = Some (cbytes ''Initializing devices...'' @ [0x0A])"
  "render (cbytes ''Initializing Paging... '' @ [0x0A]) [] = Some (cbytes ''Initializing Paging... '' @ [0x0A])"
  "render (cbytes ''Enabling Interrupts'' @ [0x0A]) [] = Some (cbytes ''Enabling Interrupts'' @ [0x0A])"
  "render (cbytes ''Dentry Count: %d '' @ [0x0A]) [v] = Some ((cbytes ''Dentry Count: '' @ decimal v @ [0x20]) @ [0x0A])"
  "render (cbytes ''Inode Count: %d '' @ [0x0A]) [v] = Some ((cbytes ''Inode Count: '' @ decimal v @ [0x20]) @ [0x0A])"
  by (simp_all add: cbytes_def conv_text_def decimal_def)

lemma text_line_decimal:
  assumes "text_line pre" "length pre \<le> 20"
  shows "text_line (pre @ decimal v @ [0x20])"
  using assms decimal_line(1) [of v] decimal_line(2) [of 0 v] decimal_line(2) [of "0x25" v] decimal_line(2) [of "0x0A" v] decimal_line(2) [of "0x0D" v]
  by (auto simp: text_line_def)

lemma boot_lines:
  "text_line (cbytes ''Initializing devices...'')" "text_line (cbytes ''Initializing Paging... '')" "text_line (cbytes ''Enabling Interrupts'')"
  "text_line (cbytes ''Dentry Count: '' @ decimal v @ [0x20])" "text_line (cbytes ''Inode Count: '' @ decimal v @ [0x20])"
proof -
  show "text_line (cbytes ''Dentry Count: '' @ decimal v @ [0x20])" "text_line (cbytes ''Inode Count: '' @ decimal v @ [0x20])"
    by (rule text_line_decimal; simp add: text_line_def cbytes_def)+
qed (simp_all add: text_line_def cbytes_def)

text \<open>What every stage of the initialisation does to the terminals, the keyboard and memory: it prints lines on the first screen.\<close>

definition input_state :: "kernel \<Rightarrow> _" where
  "input_state s = (char_buf s, command_buf s, buf_index s, shift_flag s, ctrl_flag s, alt_flag s, capslock_flag s, release_caps s,
     isAdd s, enter_flag s, terminal_num s, video_mem s)"

definition prepares :: "u32 \<Rightarrow> kernel \<Rightarrow> kernel \<Rightarrow> bool" where
  "prepares a s s' \<longleftrightarrow> input_state s' = input_state s \<and> fs_start s' = a \<and>
     confined (video_mem s (terminal_num s)) (mem s) (mem s') \<and> cursor_ok s' (terminal_num s) \<and> screen_x s' (terminal_num s) = 0 \<and>
     (\<forall>u. u \<noteq> terminal_num s \<longrightarrow> screen_x s' u = screen_x s u \<and> screen_y s' u = screen_y s u)"

lemma prepares_trans:
  assumes "prepares a s s'" "prepares b s' s''"
  shows "prepares b s s''"
proof -
  have "terminal_num s' = terminal_num s" "video_mem s' = video_mem s"
    using assms(1) by (simp_all add: prepares_def input_state_def)
  then show ?thesis using assms confined_trans unfolding prepares_def by metis
qed

lemma prepares_quiet:
  assumes "prepares a s u" "input_state v = input_state u" "mem v = mem u" "screen_x v = screen_x u" "screen_y v = screen_y u"
  shows "prepares (fs_start v) s v"
  using assms by (simp add: prepares_def cursor_ok_def)

lemma prepares_kprintf:
  assumes p: "prepares a s u" and fmt: "0 \<notin> set fmt" "length fmt < 4294967296" and out: "render fmt vs = Some (out @ [0x0A])" "text_line out"
  shows "\<exists>v. kprintf fmt vs u = Some v \<and> prepares a s v \<and> screen_only u v"
proof -
  have t: "terminal_num u = terminal_num s" "cursor_ok u (terminal_num u)" "message_room u" "fs_start u = a"
    using p by (simp_all add: prepares_def input_state_def message_room_def)
  obtain v where v: "kprintf fmt vs u = Some v" "screen_written u v" "screen_x v (terminal_num u) = 0"
    using kprintf_line [OF t(2,3) fmt out] by blast
  have so: "screen_only u v" using v(2) by (simp add: screen_written_def)
  then have "fs_start v = fs_start u" "input_state v = input_state u" by (auto simp: screen_only_def input_state_def)
  then have "prepares a u v" using v(2,3) t(4) by (simp add: prepares_def screen_written_def)
  then show ?thesis using v(1) so prepares_trans [OF p] by blast
qed

lemma prepares_clear: "prepares (fs_start s) s (reset_screen (clear s))"
proof -
  have "mem (reset_screen (clear s)) = mem (clear s)" by (simp add: reset_screen_def Let_def)
  then show ?thesis
    using clear_confined [of s] by (simp add: prepares_def)
      (simp add: reset_screen_def clear_def input_state_def cursor_ok_def Let_def update_cursor_def outb_def)
qed

lemma set_fs_start_prepares:
  assumes "prepares a s u"
  shows "\<exists>v. set_fs_start b u = Some v \<and> prepares b s v"
proof -
  let ?u = "u\<lparr>fs_start := b\<rparr>"
  have "prepares b s ?u" using prepares_quiet [OF assms, of ?u] by (simp add: input_state_def)
  then obtain v where v: "kprintf (cbytes ''Dentry Count: %d '' @ [0x0A]) [load32 (mem u) b] ?u = Some v" "prepares b s v" "screen_only ?u v"
    using prepares_kprintf [OF _ _ _ boot_messages(4) boot_lines(4)] by (fastforce simp: cbytes_def)
  obtain w where w: "kprintf (cbytes ''Inode Count: %d '' @ [0x0A]) [load32 (mem u) (b + 4)] v = Some w" "prepares b s w"
    using prepares_kprintf [OF v(2) _ _ boot_messages(5) boot_lines(5)] by (fastforce simp: cbytes_def)
  have "fs_start w = b" using w(2) by (simp add: prepares_def)
  then have "prepares b s (w\<lparr>dentry_table_flags := f\<rparr>)" for f
    using prepares_quiet [OF w(2), of "w\<lparr>dentry_table_flags := f\<rparr>"] by (simp add: input_state_def)
  then show ?thesis using v(1) w(1) by (simp add: set_fs_start_def Let_def clear_dentry_flags)
qed

lemma init_paging_prepares:
  assumes "prepares a s u"
  shows "\<exists>v. init_paging u = Some v \<and> prepares a s v"
proof -
  obtain v where v: "kprintf (cbytes ''Initializing Paging... '' @ [0x0A]) [] u = Some v" "prepares a s v"
    using prepares_kprintf [OF assms _ _ boot_messages(2) boot_lines(2)] by (fastforce simp: cbytes_def)
  define w where "w = (flush_tlb (paging_tables v))\<lparr>cr4 := cr4 v OR 0x10, cr0 := cr0 v OR 0x80000001\<rparr>"
  have "init_paging u = Some w" using v(1) by (simp add: init_paging_def w_def Let_def flush_tlb_def paging_tables_eq)
  moreover have "prepares (fs_start w) s w"
    by (rule prepares_quiet [OF v(2)]) (simp_all add: w_def flush_tlb_def paging_tables_eq input_state_def)
  moreover have "fs_start w = a" using v(2) by (simp add: w_def flush_tlb_def paging_tables_eq prepares_def)
  ultimately show ?thesis by auto
qed

text \<open>The address of the first module does not change while the screen is written.\<close>

definition module_at :: "u32 \<Rightarrow> u32 \<Rightarrow> kernel \<Rightarrow> bool" where
  "module_at mbi a s \<longleftrightarrow> (\<forall>m. confined VIDEO (mem s) m \<longrightarrow> load32 m (load32 m (mbi + 24)) = a)"

lemma init_kernel_prepares:
  assumes ack: "0xFA \<in> set (kbd_port env)" and md: "module_at mbi a s" and disp: "terminal_num s = 0" "video_mem s 0 = VIDEO"
  shows "\<exists>s'. init_kernel env mbi s = Some s' \<and> prepares a s s'"
proof -
  let ?f = "fs_start s"
  obtain s2 where s2: "kprintf (cbytes ''Initializing devices...'' @ [0x0A]) [] (reset_screen (clear s)) = Some s2" "prepares ?f s s2"
    using prepares_kprintf [OF prepares_clear _ _ boot_messages(1) boot_lines(1)] by (fastforce simp: cbytes_def)
  define s3 where "s3 = i8259_init s2"
  have s3: "mem s3 = mem s2" "fs_start s3 = fs_start s2" by (simp_all add: s3_def i8259_init_def outb_def Let_def)
  have p3: "prepares (fs_start s3) s s3"
    by (rule prepares_quiet [OF s2(2)]) (simp_all add: s3_def i8259_init_def outb_def Let_def input_state_def)
  have a: "load32 (mem s3) (load32 (mem s3) (mbi + 24)) = a"
    using md p3 disp by (simp add: module_at_def prepares_def)
  obtain s4 where s4: "set_fs_start a s3 = Some s4" "prepares a s s4" using set_fs_start_prepares [OF p3] by blast
  obtain out where ak: "ack_loop (kbd_port env) (outb 0xF6 0x60 s4) = Some ((outb 0xF6 0x60 s4)\<lparr>outs := out\<rparr>)"
    using ack_loop_acked [OF ack] by blast
  define s6 where "s6 = intitalize_PIT (initialize_RTC (rtc_regB env) (enable_irq 1 ((outb 0xF6 0x60 s4)\<lparr>outs := out\<rparr>)))"
  have "fs_start s6 = fs_start s4"
    by (simp add: s6_def intitalize_PIT_def initialize_RTC_def enable_irq_def outb_def Let_def)
  moreover have "prepares (fs_start s6) s s6"
    by (rule prepares_quiet [OF s4(2)])
       (simp_all add: s6_def intitalize_PIT_def initialize_RTC_def enable_irq_def outb_def Let_def input_state_def)
  ultimately have p6: "prepares a s s6" using s4(2) by (simp add: prepares_def)
  obtain s8 where s8: "init_paging s6 = Some s8" "prepares a s s8" using init_paging_prepares [OF p6] by blast
  obtain s9 where s9: "kprintf (cbytes ''Enabling Interrupts'' @ [0x0A]) [] s8 = Some s9" "prepares a s s9"
    using prepares_kprintf [OF s8(2) _ _ boot_messages(3) boot_lines(3)] by (fastforce simp: cbytes_def)
  define m where "m = fold (\<lambda>i m. m(cell (video_mem s9 0) (2 * int i + 1) := SCREEN_COLOR 0)) [0..<2000] (mem s9)"
  have "confined (video_mem s9 0) (mem s9) m" unfolding m_def by (intro confined_fold confined_upd) auto
  then have "prepares a s (sti (s9\<lparr>mem := m\<rparr>))"
    using s9(2) disp confined_trans by (simp add: prepares_def input_state_def sti_def cursor_ok_def) blast
  moreover have "init_kernel env mbi s = Some (sti (s9\<lparr>mem := m\<rparr>))"
    unfolding init_kernel_def initialize_keyboard_def Let_def
    using s2(1) s4(1) ak s8(1) s9(1) a by (simp add: s3_def [symmetric] s6_def m_def)
  ultimately show ?thesis by blast
qed

text \<open>
  The state in which the boot loader's information has been printed and the initialisation starts: the globals have their static values,
  and the first module is a file system image with a program \<open>shell\<close>.
\<close>

definition at_init :: "dentry_t \<Rightarrow> u32 \<Rightarrow> u32 \<Rightarrow> kernel \<Rightarrow> bool" where
  "at_init d mbi a s \<longleftrightarrow> kbd_inv s \<and> terminal_num s = 0 \<and> video_mem s 0 = VIDEO \<and>
     (\<forall>t < 3. t \<noteq> 0 \<longrightarrow> video_mem s t = backup_mem_addr t \<and> cursor_ok s t) \<and> tables_aligned s \<and>
     (\<forall>p < 6. pid_flags s p = 0) \<and> pit_terminal_num s = 0 \<and> terminals_initialized s = 0 \<and> (\<forall>p. length (args (pcbs s p)) = 128) \<and>
     master_mask s = 0xFF \<and> slave_mask s = 0xFF \<and> module_at mbi a s \<and> installed (s\<lparr>fs_start := a\<rparr>) (cbytes ''shell'') d"

lemma init_kernel_boots:
  assumes ack: "0xFA \<in> set (kbd_port env)" and s: "at_init d mbi a s"
  shows "\<exists>s'. init_kernel env mbi s = Some s' \<and> booting d 0 s'"
proof -
  have i: "kbd_inv s" "terminal_num s = 0" "video_mem s 0 = VIDEO" "tables_aligned s" "master_mask s = 0xFF" "slave_mask s = 0xFF"
      "module_at mbi a s" "installed (s\<lparr>fs_start := a\<rparr>) (cbytes ''shell'') d"
    using s by (simp_all add: at_init_def)
  obtain s' where run: "init_kernel env mbi s = Some s'" and p: "prepares a s s'"
    using init_kernel_prepares [OF ack i(7,2,3)] by blast
  have st: "process_state s' = process_state s" "PDT s' = PDT (paging_tables s)" "PT0 s' = PT0 (paging_tables s)" "PT1 s' = PT1 (paging_tables s)"
    using init_kernel_state [OF ack i(5,6), of mbi] run by auto
  have inp: "input_state s' = input_state s" "fs_start s' = a" "cursor_ok s' 0" "confined VIDEO (mem s) (mem s')"
      "t \<noteq> 0 \<Longrightarrow> screen_x s' t = screen_x s t \<and> screen_y s' t = screen_y s t" for t
    using p i(2,3) by (simp_all add: prepares_def)
  have f: "terminal_num s' = 0" "video_mem s' = video_mem s" "pcbs s' = pcbs s" "pid_flags s' = pid_flags s" "current_pid s' = current_pid s"
      "pit_terminal_num s' = pit_terminal_num s" "terminals_initialized s' = terminals_initialized s"
      "PT0_addr s' = PT0_addr s" "PT1_addr s' = PT1_addr s" "PDT_addr s' = PDT_addr s"
    using inp(1) st(1) i(2) by (simp_all add: input_state_def process_state_def)
  have "kbd_inv s'" using i(1) inp(1) by (simp add: kbd_inv_def input_state_def)
  moreover have "video_ok s'"
    using s by (auto simp: video_ok_def f st(4) less_3 paging_tables_eq at_init_def VID_MEM_BACKUP_def)
  moreover have "cursor_ok s' t" if "t < 3" for t
    using that inp(3,5) s by (cases "t = 0") (auto simp: at_init_def cursor_ok_def)
  ultimately have 1: "screens_ok s'" by (simp add: screens_ok_def display_ok_def)
  have 2: "paged (s'\<lparr>PDT := (PDT s')(32 := prog_entry (current_pid s'))\<rparr>)"
    using i(4) by (simp add: paged_def tables_aligned_def st(2-4) f paging_tables_eq)
  have "only_frames {0} (s\<lparr>fs_start := a\<rparr>) s'"
    using inp(4) page_low [of VIDEO] by (fastforce simp: only_frames_def confined_def not_le [symmetric])
  then have 3: "installed s' (cbytes ''shell'') d" using installed_cong [OF i(8), of s' "{0}"] inp(2) by simp
  show ?thesis using run 1 2 3 s f by (auto simp: booting_def at_init_def intro: screens_ok_cong)
qed

section \<open>Concrete machines\<close>

text \<open>The machine of \<open>machine1\<close> with its page tables, before the first tick, and with the three shells running.\<close>

definition machine5 :: kernel where
  "machine5 = paging_tables machine1"

definition machine6 :: kernel where
  "machine6 = machine5\<lparr>PDT := (PDT machine5)(32 := prog_entry 0), pid_flags := (\<lambda>_. 0)(0 := 1, 1 := 1, 2 := 1), execute_pid := int,
     tss_esp0 := kstack 0,
     pcbs := (\<lambda>p. if 0 \<le> p \<and> p < 3 then pcb0\<lparr>tty := word_of_int p, parent_id := word_of_int p, sched_esp0 := kstack p\<rparr>
       else zero_pcb)\<rparr>"

lemma machine5_fields [simp]:
  "mem machine5 = disk" "fs_start machine5 = 0x410000" "pid_flags machine5 = (\<lambda>_. 0)" "pcbs machine5 = (\<lambda>_. zero_pcb)"
  "pit_terminal_num machine5 = 0" "terminals_initialized machine5 = 0" "terminal_num machine5 = 0" "current_pid machine5 = 0"
  by (simp_all add: machine5_def paging_tables_eq machine1_def boot_kernel_def)

lemma machine5_devices: "device_state machine6 = device_state machine5" "terminal_num machine6 = terminal_num machine5"
  by (simp_all add: machine6_def)

lemma machine5_screens: "screens_ok machine5"
proof -
  have "kbd_inv machine5" by (simp add: machine5_def paging_tables_eq machine1_def boot_kernel_def kbd_inv_def)
  moreover have "video_ok machine5" "cursor_ok machine5 t" for t
    by (simp_all add: video_ok_def less_3 backup_mem_addr_def VID_MEM_BACKUP_def cursor_ok_def)
       (simp_all add: machine5_def paging_tables_eq machine1_def boot_kernel_def)
  ultimately show ?thesis by (simp add: screens_ok_def display_ok_def)
qed

lemma machine5_paged: "paged (machine5\<lparr>PDT := (PDT machine5)(32 := prog_entry (current_pid machine5))\<rparr>)"
  by (simp add: paged_def) (simp add: machine5_def paging_tables_eq machine1_def boot_kernel_def tables_aligned_def)

lemma machine5_installed: "installed machine5 (cbytes ''shell'') (entry_of ''shell'' 2)"
proof -
  have "in_kernel_page machine1 0"
    using disk_directory disk_program by (simp add: in_kernel_page_def machine1_mem machine1_dentries machine1_program)
  then have "installed machine1 (cbytes ''shell'') (entry_of ''shell'' 2)"
    using machine1_shell by (simp add: shell_file_def installed_def entry_of_def)
  then show ?thesis using installed_cong [of machine1 _ _ machine5 "{}"] by (simp add: machine1_mem only_frames_def)
qed

lemma machine5_booting: "booting (entry_of ''shell'' 2) 0 machine5"
  using machine5_screens machine5_paged machine5_installed by (simp add: booting_def zero_pcb_def screens_ok_cong)

lemma machine6_kernel_ok: "kernel_ok (entry_of ''shell'' 2) (\<lambda>t. [int t]) machine6"
proof -
  have f: "pid_flags machine6 = (\<lambda>_. 0)(0 := 1, 1 := 1, 2 := 1)" "execute_pid machine6 = int" "current_pid machine6 = 0"
      "pit_terminal_num machine6 = 0" "terminals_initialized machine6 = 0" "mem machine6 = disk" "fs_start machine6 = 0x410000"
      "pcbs machine6 = (\<lambda>p. if 0 \<le> p \<and> p < 3 then pcb0\<lparr>tty := word_of_int p, parent_id := word_of_int p, sched_esp0 := kstack p\<rparr>
        else zero_pcb)" "tss_esp0 machine6 = kstack 0"
    by (simp_all add: machine6_def)
  have "fds_ok (pcb0\<lparr>tty := v, parent_id := w, sched_esp0 := x\<rparr>)" for v w x by (rule new_fds_ok [of _ zero_pcb]) (simp add: pcb0_def)
  then have "chain machine6 t [int t]" if "t < 3" for t using that by (auto simp: f less_3)
  moreover have "int p \<in> set (all_tasks (\<lambda>t. [int t]))" if "pid_flags machine6 p \<noteq> 0" for p
    using that by (auto simp: f all_tasks_def split: if_splits)
  ultimately have "tasks (\<lambda>t. [int t]) machine6"
    unfolding tasks_def by (simp add: f all_tasks_def) (simp add: pcb0_def zero_pcb_def)
  moreover have "paged machine6"
    by (rule paged_current [OF machine5_paged]) (simp_all add: machine6_def)
  moreover have "installed machine6 (cbytes ''shell'') (entry_of ''shell'' 2)"
    using installed_cong [OF machine5_installed, of machine6 "{}"] by (simp add: f only_frames_def)
  ultimately show ?thesis using screens_ok_cong [OF machine5_screens] machine5_devices by (simp add: kernel_ok_def)
qed

text \<open>The machine at the start of the initialisation, with the multiboot information at \<open>0x9000\<close>.\<close>

definition disk7 :: mem where
  "disk7 = disk(0x9018 := 0x00, 0x9019 := 0x91, 0x9100 := 0x00, 0x9102 := 0x41)"

definition machine7 :: kernel where
  "machine7 = boot_kernel disk7 0x401000 0x402000 0x403000"

lemma machine7_at_init: "at_init (entry_of ''shell'' 2) 0x9000 0x410000 machine7"
proof -
  have "module_at 0x9000 0x410000 machine7"
    unfolding module_at_def
  proof (intro allI impI)
    fix m assume "confined VIDEO (mem machine7) m"
    then have low: "m x = disk7 x" if "4096 \<le> uint (x - VIDEO)" for x
      using that by (simp add: confined_def machine7_def boot_kernel_def)
    have "load32 m 0x9018 = 0x9100" "load32 m 0x9100 = 0x410000"
      by (simp_all add: load32_def low) (simp_all add: disk7_def disk_def)
    then show "load32 m (load32 m (0x9000 + 24)) = 0x410000" by simp
  qed
  moreover have "installed (machine7\<lparr>fs_start := 0x410000\<rparr>) (cbytes ''shell'') (entry_of ''shell'' 2)"
  proof (rule installed_cong [OF machine5_installed, where F = "{0}"])
    have "drop_bit 22 x \<noteq> (0 :: u32) \<Longrightarrow> disk7 x = disk x" for x by (auto simp: disk7_def)
    then show "only_frames {0} machine5 (machine7\<lparr>fs_start := 0x410000\<rparr>)"
      by (simp add: only_frames_def machine7_def boot_kernel_def)
  qed simp_all
  ultimately show ?thesis
    by (auto simp: at_init_def)
       (auto simp: machine7_def boot_kernel_def kbd_inv_def backup_mem_addr_def less_3 cursor_ok_def tables_aligned_def zero_pcb_def)
qed

end
