(* ===== verification/Spec2Isabelle.thy ===== *)
theory Spec2Isabelle
  imports Kernel_Boot
begin

text \<open>
  limeOS, a small 32-bit x86 kernel with three terminals and its user programs, in Isabelle/HOL. Paths are
  relative to \<^verbatim>\<open>src/\<close>.

  \<^bold>\<open>The system.\<close> The kernel of \<^verbatim>\<open>student-distrib/\<close> is entered from the boot loader (\<^verbatim>\<open>kernel.c\<close>), sets up
  descriptors, interrupts, paging and devices, and idles. The timer (\<^verbatim>\<open>pit.c\<close>) drives a round-robin scheduler
  (\<^verbatim>\<open>sched.c\<close>) that starts a shell on each terminal. A shell reads a line (\<^verbatim>\<open>terminal.c\<close>) that the keyboard
  interrupt edits (\<^verbatim>\<open>keyboard.c\<close>), and executes the program it names (\<^verbatim>\<open>system_call.c\<close>): the file is found in
  the read-only file system (\<^verbatim>\<open>filesystem.c\<close>), loaded into a 4 MB page of the new process (\<^verbatim>\<open>paging.c\<close>) and
  entered; its system calls reach the drivers through a jump table per descriptor, until \<^verbatim>\<open>halt\<close> or an
  exception (\<^verbatim>\<open>idt.c\<close>) resumes the shell. The programs of \<^verbatim>\<open>syscalls/\<close> and \<^verbatim>\<open>fish/\<close> run on it.

  \<^bold>\<open>The theories.\<close>
  \<^item> \<open>Prelude\<close>: C integers as words, arrays and pointers with failing access, shared lemmas and collections.
  \<^item> \<open>Kernel_State\<close>: the structures of \<^verbatim>\<open>lib.h\<close> and one record \<open>kernel\<close> with every global variable of the kernel,
    the physical memory \<open>mem\<close>, the control registers and the ports written; \<open>pcbs\<close> holds the PCB at the
    bottom of each 8 KB kernel stack.
  \<^item> \<open>Cstring\<close>, \<open>Cmem\<close>, \<open>Console\<close>, \<open>Printf\<close>: \<^verbatim>\<open>lib.c\<close>. The string routines agree with list functions, \<^verbatim>\<open>itoa\<close> reads
    back, the word-wise block operations (inline assembly, direction flag included) equal block copy and
    fill, the console implements an abstract screen (\<open>abs_screen\<close>, \<open>emit\<close>), \<^verbatim>\<open>printf\<close> a reference formatter.
  \<^item> \<open>I8259\<close>, \<open>Paging\<close>, \<open>Rtc\<close>: \<^verbatim>\<open>i8259.c\<close>, \<^verbatim>\<open>paging.c\<close> with the walk the processor makes, \<^verbatim>\<open>rtc.c\<close>. User code is confined
    to its own frame and the video pages; a clock read returns at the next interrupt.
  \<^item> \<open>Filesystem\<close>: \<^verbatim>\<open>filesystem.c\<close>; lookup is a search in the directory, \<^verbatim>\<open>read_data\<close> a slice of the file's bytes, and
    repeated reads yield the file.
  \<^item> \<open>Terminal\<close>, \<open>Keyboard\<close>: \<^verbatim>\<open>terminal.c\<close>, \<^verbatim>\<open>keyboard.c\<close>; the driver implements an abstract line editor, never leaves
    its buffers, and switching terminals keeps every screen.
  \<^item> \<open>Descriptors\<close>, \<open>Process\<close>, \<open>Syscall\<close>: \<^verbatim>\<open>system_call.c\<close> and \<^verbatim>\<open>system_wrapper.S\<close>; well-formed descriptor tables, open and
    close, command parsing, loading, entering and halting programs, \<^verbatim>\<open>getargs\<close>, \<^verbatim>\<open>vidmap\<close> and the dispatcher.
  \<^item> \<open>Sched\<close>: \<^verbatim>\<open>sched.c\<close> and \<^verbatim>\<open>pit.c\<close>; the first ticks start the shells, a process switched out gets its context back.
  \<^item> \<open>Idt\<close>, \<open>Kernel_Entry\<close>: \<^verbatim>\<open>idt.c\<close>, \<^verbatim>\<open>x86_desc.h\<close>, \<^verbatim>\<open>kernel.c\<close>; gates and descriptors bit by bit, the whole
    initialisation up to the idle loop.
  \<^item> \<open>User_Lib\<close>: the call stubs and library of the programs (\<^verbatim>\<open>ece391syscall.S\<close>, \<^verbatim>\<open>ece391support.c\<close>). \<open>shown xs s s'\<close> says that
    \<open>xs\<close> has been printed on the caller's terminal and nothing else but its descriptors and arguments has changed.
  \<^item> \<open>User_Programs\<close>, \<open>Grep\<close>: \<^verbatim>\<open>cat\<close>, \<^verbatim>\<open>ls\<close>, \<^verbatim>\<open>grep\<close>, \<^verbatim>\<open>hello\<close>, \<^verbatim>\<open>counter\<close>, \<^verbatim>\<open>testprint\<close>, \<^verbatim>\<open>shell\<close> and \<^verbatim>\<open>pingpong\<close>; what \<^verbatim>\<open>cat\<close>, \<^verbatim>\<open>ls\<close> and \<^verbatim>\<open>grep\<close>
    print, which they do in finitely many steps.
  \<^item> \<open>User_Run\<close>: a program from \<^verbatim>\<open>execute\<close> in the shell to \<^verbatim>\<open>halt\<close>, once for every program that only prints.
  \<^item> \<open>User_Tests\<close>: the error tests of \<^verbatim>\<open>ece391syserr.c\<close>, all of which the kernel passes.
  \<^item> \<open>Fish\<close>: \<^verbatim>\<open>fish.c\<close> and \<^verbatim>\<open>blink.S\<close>; the linked list in a static array implements a list of blinks.
  \<^item> \<open>Kernel_Inv\<close>, \<open>Kernel_Tasks\<close>: the invariant \<open>kernel_ok\<close> of the running kernel over all components, what every operation keeps of
    it and which 4 MB frames of memory it writes, and the kernel stack each process enters the kernel on. The processes are one stack per terminal, abstracted to the
    relation \<open>task_step\<close>: \<^verbatim>\<open>execute\<close> pushes, \<^verbatim>\<open>halt\<close> and exceptions pop or restart the shell, a tick passes the turn.
  \<^item> \<open>Kernel_Memory\<close>: the memory the operations may change in any state with the invariant, also where they break it.
  \<^item> \<open>Kernel_Run\<close>: the running system as a function \<open>step\<close> on events: keys, clock, timer, system calls, exceptions, user
    stores, and the two halves of a blocking read. \<open>run\<close> takes a list of them, in any order; \<open>event_ok\<close> and \<open>plain_text\<close> are the conditions the
    theorems put on the events, visible in their statements through \<open>admissible\<close>. Runs of admissible events keep the invariant.
  \<^item> \<open>Kernel_Boot\<close>: the initialisation and the first ticks of the timer lead from the static state to such a state, also with the
    shells running in between. What \<^verbatim>\<open>entry\<close> prints
    of the boot loader's information before the initialisation is not part of it.
  \<^item> \<open>Machines\<close>, \<open>User_Machine\<close>: concrete states, with small file systems, on which the theorems are applied.

  \<^bold>\<open>Interfaces.\<close> Locales state what one part relies on: \<open>irq_mask\<close> (mask and unmask of interrupt lines), \<open>byte_source\<close>
  (a read that consumes what is left), \<open>driver\<close> (what read and write of a jump table keep), \<open>round_robin\<close> (a
  rotation that saves and restores contexts), \<open>printing_program\<close> (a program that prints a text and returns), \<open>stepwise\<close> and \<open>refinement\<close>
  (what holds of every step holds of runs). Each is interpreted on the definitions of the kernel and the programs.

  \<^bold>\<open>Conventions.\<close> Operations pass the state explicitly. \<open>None\<close> is an access outside an object, a page fault in the
  kernel, a wait that no interrupt has ended, or a loop that does not end; a theorem that gives \<open>Some\<close> excludes all of
  them. Blocking calls take the interrupts that arrive while they wait as a list of handlers (\<open>environment\<close>). Buffers
  of user programs are byte lists, results of read calls the bytes stored. Uninitialised local arrays are
  parameters (\<open>stack_frame\<close>, \<open>junk\<close>), and so are bytes read from ports. \<^verbatim>\<open>execute\<close> gives the entry point
  of the program (\<open>Entered\<close>), \<^verbatim>\<open>halt\<close> the value the parent's \<^verbatim>\<open>execute\<close> returns (\<open>Returned\<close>); what the entered program
  does is a parameter of the caller's stub. Loops that may not end are partial functions; there is
  no fuel, except that the endless loop of \<^verbatim>\<open>pingpong\<close> is its first \<open>n\<close> rounds and that \<open>drain\<close>, which reads a file to
  its end in chunks, has a bound on the rounds, shown to be enough when above the length of the file.
  Theorems on running programs assume that the file system image lies in the kernel's page, where the boot
  loader puts it (\<open>in_kernel_page\<close>), so that neither printing nor loading overwrites it. Binary images of the
  programs are not decoded: that the file \<open>cat\<close> holds the code of \<^verbatim>\<open>ece391cat.c\<close> is the choice of the parameter.

  \<^bold>\<open>Conditions on events.\<close> \<open>step\<close> itself excludes nothing. The condition \<open>event_ok\<close> of the theorems on runs leaves out the inputs on which the
  code breaks its own invariant, each reported
  as a finding: a program started, or a shell that ends, on a terminal that is not displayed (\<^verbatim>\<open>setup_PCB\<close> takes
  the displayed terminal for the caller's), a message of the kernel that may not fit the row of the cursor (\<^verbatim>\<open>printf\<close> scrolls only at its
  start), a buffer of \<^verbatim>\<open>read\<close> or \<^verbatim>\<open>getargs\<close> outside the program page (the addresses are not checked), and a carriage
  return in text for the terminal (\<^verbatim>\<open>terminal_write\<close> does not scroll for it). The last section of \<open>Kernel_Run\<close> shows for each of them what goes wrong. A run
  ends where an event has no result, as with a command word of 32 characters or a call that waits (its wait is the events \<open>Wait_line\<close>, \<open>Line\<close> and
  \<open>Wait_clock\<close>). Isolation (C3) needs only the absence of carriage returns.

  \<^bold>\<open>Limits of the state.\<close> The counters \<^verbatim>\<open>screen_x\<close>, \<^verbatim>\<open>screen_y\<close> and \<^verbatim>\<open>current_pid\<close> are unbounded integers where the source has \<^verbatim>\<open>int\<close>; the invariant keeps them
  small. Global variables, PCBs, page tables and kernel stacks are fields of the record and not bytes of \<open>mem\<close>, so that statements on the
  kernel's page concern the bytes of the kernel image and the file system in it, and a stack that grows into a PCB cannot be
  expressed; \<open>pcb_addr\<close> and \<open>kstack\<close> give the addresses the code computes for them. The call stubs of user programs call the kernel
  function directly; call numbers and registers appear in \<open>sys_handler\<close> and \<open>call_sys\<close> only.

  \<^bold>\<open>The properties\<close> below follow the order: the running system (C1 to C3), input and programs (C4 to C8), boot (C9), page tables and kernel
  stacks (C10, C11), keyboard, terminals and programs on them (C12 to C19), files and descriptors (C20 to C27), parts of
  \<^verbatim>\<open>execute\<close> and exceptions (C28 to C30), initialisation and devices (C31 to C34), fish (C35) and the library (C36 to C39);
  C40 is a gap in the isolation.

  \<^bold>\<open>Not modelled.\<close> Processor set-up before the C entry point (\<^verbatim>\<open>boot.S\<close>, \<^verbatim>\<open>x86_desc.S\<close>); the saving of general registers by the
  interrupt wrappers, which are not part of the state; interrupts inside kernel code other than its waits; \<^verbatim>\<open>tests.c\<close>, whose
  calls are all commented out, and the debug macros; \<^verbatim>\<open>ece391sigtest.c\<close>, which tests signals the kernel does not have; the Linux
  emulation of the system calls (\<^verbatim>\<open>ece391emulate.c\<close>); binary tools and build files.
\<close>

section \<open>Concrete arguments\<close>

definition frame0 :: stack_frame where
  "frame0 = \<lparr>name0 = replicate 32 0, larg0 = replicate 128 0, buffer0 = replicate 4 0, entry0 = replicate 4 0\<rparr>"

definition env0 :: environment where
  "env0 = \<lparr>regA = 0x26, handlers = [RTC_handler]\<rparr>"

definition boot0 :: boot_env where
  "boot0 = \<lparr>ldt_at = 0x404000, ldt_size = 31, tss_at = 0x405000, tss_size = 103,
     desc0 = \<lparr>seg_lim_15_00 = 0, base_15_00 = 0, base_23_16 = 0, seg_type = 0, seg_sys = 0, seg_dpl = 0, seg_present = 0,
       seg_lim_19_16 = 0, avail = 0, seg_reserved = 0, opsize = 0, granularity = 0, base_31_24 = 0\<rparr>,
     kbd_port = [0xFE, 0xFA], rtc_regB = 0\<rparr>"

definition gate0 :: idt_desc_t where
  "gate0 = \<lparr>offset_15_00 = 0, seg_selector = 0, reserved4 = 0, reserved3 = 0, reserved2 = 0, reserved1 = 0, size = 0,
     reserved0 = 0, dpl = 0, present = 0, offset_31_16 = 0\<rparr>"

lemma frame0_ok: "frame_ok frame0"
  by (simp add: frame_ok_def frame0_def)

lemma shell_name: "cstr (arr_ptr (cbytes ''shell'' @ [0])) (cbytes ''shell'')"
  using cstr_arr_ptr [of "cbytes ''shell''" "[]"] by (simp add: cbytes_def)

lemma not_std_shell: "take 5 (cbytes ''shell'') \<noteq> cbytes ''stdin''" "take 6 (cbytes ''shell'') \<noteq> cbytes ''stdout''"
  by (simp_all add: cbytes_def)

lemma find_shell_machine2:
  "List.find (name_found (cbytes ''shell'')) (dentry_list machine2) = Some (entry_of ''shell'' 2)"
  using machine1_shell machine1_dentries by (simp add: shell_file_def machine2_files)

lemma open_shell_machine2:
  "open_call env0 (Some (arr_ptr (cbytes ''shell'' @ [0]))) machine2 =
     Some (2, set_fd 2 (opened (entry_of ''shell'' 2) file_table) machine2)"
proof -
  have "find_fd (cur_pcb machine2) [2..<8] = Some 2"
    by (simp add: machine2_fds_ok pcb0_def new_fds_def free_entry_def upt_rec)
  moreover have "table_of_type (file_type (entry_of ''shell'' 2)) = Some file_table" "file_table \<noteq> rtc_table"
    by (simp_all add: table_of_type_def entry_of_def file_table_def rtc_table_def)
  ultimately show ?thesis
    using open_call_eq [OF shell_name not_std_shell, of env0 machine2] find_shell_machine2 by simp
qed

section \<open>Processes\<close>

text \<open>
  C4. A process that reads from its terminal gets the edited line: whatever keys are typed (no
  Enter, no terminal switch) and then Enter, \<^verbatim>\<open>terminal_read\<close> returns, its result is the length of
  the line the editor holds plus one, and the buffer receives that line and a newline. The count includes the newline, unlike
  what \<^verbatim>\<open>terminal_read_Test\<close> of \<^verbatim>\<open>tests.c\<close> (not called) expects, the index of the newline.
\<close>

theorem terminal_read_returns_line:
  assumes "kbd_inv s" "plain_keys cs (abs_editor s)" "0x0A \<notin> set (line (abs_editor s))"
    and "get_tty s = terminal_num s" "buf \<noteq> 0"
  shows "\<exists>s'. terminal_read (map kbd_interrupt (cs @ [0x1C])) fd buf n s =
    Some (int (length (line (fold type_key cs (abs_editor s)))) + 1,
          line (fold type_key cs (abs_editor s)) @ [0x0A], s')"
  using assms by (rule terminal_read_line)

theorem terminal_read_returns_line_witness:
  "\<exists>s'. terminal_read (map kbd_interrupt ([0x26, 0x1E, 0x0E, 0x1F] @ [0x1C])) 0 0x08000000 128 machine0 =
     Some (3, cbytes ''ls'' @ [0x0A], s')"
proof -
  let ?ks = "[0x26, 0x1E, 0x0E, 0x1F] :: u8 list"
  have "plain_keys ?ks (abs_editor machine0)"
    by (simp add: machine0_editor type_key_def key_char_def scancodeTable_def cbytes_def switch_key_def)
  moreover have "fold type_key ?ks (abs_editor machine0) =
      \<lparr>line = cbytes ''ls'', eshift = False, ectrl = False, ealt = False, ecaps = False, erel = True\<rparr>"
    by (simp add: machine0_editor type_key_def key_char_def scancodeTable_def cbytes_def)
  moreover have "get_tty machine0 = terminal_num machine0"
    by (simp add: machine0_def boot_kernel_def get_tty_def cur_pcb_def zero_pcb_def)
  ultimately show ?thesis
    using terminal_read_returns_line [OF machine0_kbd_inv, of ?ks "0x08000000" 0 128]
    by (simp add: machine0_editor cbytes_def)
qed

text \<open>
  C6. \<^verbatim>\<open>execute\<close> of a command whose first word names an executable file, with a process id free,
  enters the program at the address in bytes 24 to 27 of the file, with the file loaded at
  \<open>0x08048000\<close> of the new process's own 4 MB page, no other memory changed, and the arguments in its PCB.
\<close>

theorem execute_enters_program:
  assumes "cstr cmd (word @ replicate sp 0x20 @ ar)" "command_ok word sp ar" "frame_ok frame"
    and "List.find (name_found word) (dentry_list s) = Some d"
    and "take 4 (file_bytes s (inode_number d)) = magic_number"
    and "find_pid s [0..<6] = Some i" "image_outside (int i) (inode_number d) s"
    and "28 \<le> unat (inode_length s (inode_number d))" "unat (inode_length s (inode_number d)) \<le> 0x3B8000"
    and "length (args (pcbs s (int i))) = 128"
  shows "\<exists>m eip new_args.
    execute frame (Some cmd) s = Some (Entered eip 0x083FFFFF, started (cli s) i new_args m) \<and>
    load32_ptr (arr_ptr (take 4 (drop 24 (file_bytes s (inode_number d))))) = Some eip \<and>
    (\<forall>k < unat (inode_length s (inode_number d)).
       m (prog_addr (int i) (0x08048000 + of_nat k)) = file_bytes s (inode_number d) ! k) \<and>
    (\<forall>a. drop_bit 22 a \<noteq> word_of_int (2 + int i) \<longrightarrow> m a = mem s a) \<and>
    (if ar = [] then new_args = args (pcbs s (int i)) else cstr (arr_ptr new_args) ar)"
  using assms by (rule execute_starts)

theorem execute_enters_program_witness:
  "\<exists>m new_args. execute frame0 (Some (arr_ptr (cbytes ''shell -x'' @ [0]))) machine2 =
     Some (Entered 0x08048054 0x083FFFFF, started (cli machine2) 1 new_args m) \<and>
     m (prog_addr 1 0x08048000) = 0x7F \<and> cstr (arr_ptr new_args) (cbytes ''-x'')"
proof -
  have cmd: "cstr (arr_ptr (cbytes ''shell -x'' @ [0])) (cbytes ''shell'' @ replicate 1 0x20 @ cbytes ''-x'')"
    using cstr_arr_ptr [of "cbytes ''shell -x''" "[]"] by (simp add: cbytes_def)
  have ok: "command_ok (cbytes ''shell'') 1 (cbytes ''-x'')" by (simp add: command_ok_def cbytes_def)
  have found: "List.find (name_found (cbytes ''shell'')) (dentry_list machine2) = Some (entry_of ''shell'' 2)"
    using machine1_shell machine1_dentries by (simp add: shell_file_def machine2_files)
  have i: "inode_number (entry_of ''shell'' 2) = 0" by (simp add: entry_of_def)
  have pid: "find_pid machine2 [0..<6] = Some 1" by (simp add: upt_rec)
  have img: "image_outside (int 1) 0 machine2"
    using fs_stable_image [OF machine1_stable, of 1] machine2_files(4) [of 1] by simp
  have len: "length (args (pcbs machine2 (int 1))) = 128" by (simp add: zero_pcb_def)
  have eip: "load32_ptr (arr_ptr (take 4 (drop 24 program))) = Some 0x08048054"
    by (simp add: program_def load32_ptr_def arr_ptr_def aget_def)
  have p0: "program ! 0 = 0x7F" "cbytes ''-x'' \<noteq> []" by (simp_all add: program_def cbytes_def)
  show ?thesis
    using execute_enters_program [OF cmd ok frame0_ok found, of 1, unfolded i machine2_files(2,3)] pid img len eip p0
    by (fastforce simp: program_def magic_number_def)
qed

text \<open>
  C7. A program started by process \<open>q\<close> and halted with status \<open>st\<close> gives control back to \<open>q\<close>: its
  \<^verbatim>\<open>execute\<close> returns \<open>st\<close>, with the stack registers, the kernel stack of the TSS, the program page and
  the process table \<open>q\<close> had before, and the PCBs of all other processes as they were.
\<close>

theorem execute_then_halt:
  assumes "current_pid s = q" "0 \<le> q" "q < 6" "pid_flags s (nat q) \<noteq> 0" "find_pid s [0..<6] = Some i"
  shows "\<exists>s'. halt frame st (started s i new_args m) = Some (Returned (uint st), s') \<and>
    current_pid s' = q \<and> pid_flags s' = pid_flags s \<and> esp s' = esp s \<and> ebp s' = ebp s \<and> tss_esp0 s' = tss_esp0 s \<and>
    PDT s' 32 = prog_entry q \<and> pcbs s' q = (pcbs s q)\<lparr>return_value := ucast st\<rparr> \<and>
    (\<forall>pid. pid \<noteq> int i \<and> pid \<noteq> q \<longrightarrow> pcbs s' pid = pcbs s pid)"
  using execute_halt [OF assms] unfolding Let_def by blast

theorem execute_then_halt_witness:
  "\<exists>s'. halt frame0 7 (started machine2 1 [] disk) = Some (Returned 7, s') \<and> current_pid s' = 0 \<and>
     pid_flags s' = pid_flags machine2"
proof -
  have "find_pid machine2 [0..<6] = Some 1" by (simp add: upt_rec)
  then show ?thesis using execute_then_halt [of machine2 0 1 frame0 7 "[]" disk] by fastforce
qed

text \<open>
  C8. A process that the timer switches out continues where it stopped: if, while it is away, the
  others leave its terminal's slot and its saved context alone, two further ticks bring it
  back with its stack registers, its kernel stack in the TSS and its program page.
\<close>

theorem switched_out_process_resumes:
  assumes "shells_running s" "current_pid s = p" "pit_terminal_num s = t" "execute_pid s t = p"
  shows "\<exists>s1. task_switch frames s = Some (Resumed, s1) \<and>
    (\<forall>s1'. undisturbed p t s1 s1' \<longrightarrow> (\<exists>s2. task_switch frames s1' = Some (Resumed, s2) \<and>
      (\<forall>s2'. undisturbed p t s2 s2' \<longrightarrow> (\<exists>s3. task_switch frames s2' = Some (Resumed, s3) \<and>
         current_pid s3 = p \<and> context_of s3 = context_of s \<and> PDT s3 32 = prog_entry p))))"
  using assms by (rule process_resumes)

theorem switched_out_process_resumes_witness:
  "\<exists>s1 s2 s3. task_switch (\<lambda>_. frame0) machine3 = Some (Resumed, s1) \<and> task_switch (\<lambda>_. frame0) s1 = Some (Resumed, s2) \<and>
     task_switch (\<lambda>_. frame0) s2 = Some (Resumed, s3) \<and> current_pid s3 = 0 \<and> context_of s3 = (0x7FF000, 0x7FF010, 0x7FFFFC)"
proof -
  let ?sw = "switched machine3"
  have run: "shells_running machine3" "shells_running ?sw" by (simp_all add: shells_running_def)
  have "undisturbed 0 0 ?sw ?sw"
    by (simp add: undisturbed_def run(2) switched_current(1))
  moreover have "undisturbed 0 0 (switched ?sw) (switched ?sw)"
    by (simp add: undisturbed_def shells_running_def switched_current(1))
  moreover have "context_of machine3 = (0x7FF000, 0x7FF010, 0x7FFFFC)" by (simp add: context_of_def)
  ultimately show ?thesis
    using switched_out_process_resumes [OF run(1), of 0 0 "\<lambda>_. frame0"] task_switch_running [OF run(1)] task_switch_running [OF run(2)]
    by fastforce
qed

section \<open>Memory protection\<close>

text \<open>
  C10. With the tables of \<^verbatim>\<open>init_paging\<close> and the program page of process \<open>pid\<close>, the only physical memory
  user code reaches is the 4 MB frame of that process and the three video pages.
\<close>

theorem user_code_is_confined:
  assumes "tables_aligned s" "0 \<le> pid" "pid < 6"
    and "mmu (map_program_page pid (paging_tables s)) True v = Some p"
  shows "drop_bit 22 p = word_of_int (2 + pid) \<or> drop_bit 12 p \<in> {0xB8, 0xBA, 0xBB}"
  using assms by (rule user_reach)

theorem user_code_is_confined_witness:
  "mmu (map_program_page 1 (paging_tables machine0)) True 0x08048000 = Some 0xC48000 \<and>
   (drop_bit 22 (0xC48000 :: u32) = word_of_int (2 + 1) \<or> drop_bit 12 (0xC48000 :: u32) \<in> {0xB8, 0xBA, 0xBB})"
proof -
  have "mmu (map_program_page 1 (paging_tables machine0)) True 0x08048000 = Some 0xC48000"
    using mmu_program_page [of 1 "0x08048000"] by simp
  then show ?thesis using user_code_is_confined [OF machine0_tables, of 1] by simp
qed

section \<open>Keyboard and terminals\<close>

text \<open>
  C12. No sequence of scancodes makes the keyboard driver leave its buffers: in a state with the
  driver's invariant, the handler completes for every scancode and the invariant holds again.
\<close>

theorem keyboard_handler_safe:
  assumes "kbd_inv s"
  shows "\<exists>s'. keyboard_handler c s = Some s' \<and> kbd_inv s'"
  using assms by (rule keyboard_handler_total)

theorem keyboard_handler_safe_witness: "\<exists>s'. keyboard_handler 0x1E machine0 = Some s' \<and> kbd_inv s'"
  using keyboard_handler_safe [OF machine0_kbd_inv] .

text \<open>
  C13. The keyboard driver refines a line editor: every key other than Enter and a terminal
  switch acts on the line and the modifier keys as \<open>type_key\<close> says (append up to 127 characters,
  backspace, Ctrl-L, shift, caps lock), and no process or finished line is touched.
\<close>

theorem keyboard_refines_editor:
  assumes "kbd_inv s" "c \<noteq> 0x1C" "\<not> switch_key c (abs_editor s)"
  shows "\<exists>s'. keyboard_handler c s = Some s' \<and> kbd_inv s' \<and> terminal_num s' = terminal_num s \<and>
    pcbs s' = pcbs s \<and> current_pid s' = current_pid s \<and>
    command_buf s' = command_buf s \<and> t_enter_flag s' = t_enter_flag s \<and>
    abs_editor s' = type_key c (abs_editor s)"
  using assms by (rule editor_step)

theorem keyboard_refines_editor_witness:
  "\<exists>s'. keyboard_handler 0x1E machine0 = Some s' \<and> line (abs_editor s') = cbytes ''a''"
  using keyboard_refines_editor [OF machine0_kbd_inv, of "0x1E"]
  by (auto simp: machine0_editor switch_key_def type_key_def key_char_def scancodeTable_def cbytes_def)

text \<open>
  C14. \<^verbatim>\<open>write\<close> to descriptor 1 prints on the caller's terminal: the text goes to that terminal's
  screen as the abstract screen prescribes (wrapping and scrolling), the call returns its length,
  and the screens of the other terminals do not change, whichever terminal is displayed.
\<close>

theorem write_prints_on_own_terminal:
  assumes "fds_ok (cur_pcb s)" "get_tty s < 3" "cursor_ok s (get_tty s)" "pages_ok s"
    and "\<forall>k < length xs. p (of_nat k) = Some (xs ! k)" "length xs < 2147483648" "0x0D \<notin> set xs"
  shows "\<exists>s'. write_call env 1 (Some p) (of_nat (length xs)) s = Some (int (length xs), s') \<and>
    terminal_num s' = terminal_num s \<and> pcbs s' = pcbs s \<and> current_pid s' = current_pid s \<and>
    cursor_ok s' (get_tty s) \<and> abs_screen s' (get_tty s) = fold emit xs (abs_screen s (get_tty s)) \<and>
    (\<forall>u < 3. u \<noteq> get_tty s \<longrightarrow> abs_screen s' u = abs_screen s u)"
proof -
  have "stdout_ok s" using assms(1-4) by (simp add: stdout_ok_def)
  then obtain s' where "write_call env 1 (Some p) (of_nat (length xs)) s = Some (int (length xs), s')" "printed (get_tty s) xs s s'"
    using write_stdout [of s xs p env] assms(5-7) by blast
  then show ?thesis by (auto simp: printed_def screen_onlyD)
qed

theorem write_prints_on_own_terminal_witness:
  "\<exists>s'. write_call env0 1 (Some (arr_ptr (cbytes ''hi''))) 2 machine2 = Some (2, s') \<and>
     abs_screen s' 0 = fold emit (cbytes ''hi'') (abs_screen machine2 0)"
proof -
  have t: "get_tty machine2 = 0" by (simp add: get_tty_def machine2_fds_ok pcb0_def zero_pcb_def)
  have c: "cursor_ok machine2 0" "pages_ok machine2"
    by (auto simp: cursor_ok_def pages_ok_def less_3 page_base_def machine2_def machine1_def boot_kernel_def)
  have p: "\<forall>k < length (cbytes ''hi''). arr_ptr (cbytes ''hi'') (of_nat k) = Some (cbytes ''hi'' ! k)"
    by (auto simp: arr_ptr_def cbytes_def less_Suc_eq)
  have l: "length (cbytes ''hi'') = 2" "0x0D \<notin> set (cbytes ''hi'')" by (simp_all add: cbytes_def)
  show ?thesis
    using write_prints_on_own_terminal [OF machine2_fds_ok(1), of "cbytes ''hi''" _ env0, OF _ _ _ p] t c l by auto
qed

text \<open>
  C18. Switching the displayed terminal keeps every terminal's screen: all three have the same
  characters and cursors after the switch, and the new one is mapped to the video memory.
\<close>

theorem terminal_switch_keeps_screens:
  assumes "video_ok s" "n < 3" "t < 3"
  shows "abs_screen (terminal_switch n s) t = abs_screen s t \<and> video_ok (terminal_switch n s) \<and>
    video_mem (terminal_switch n s) n = VIDEO"
  using terminal_switch_screens [OF assms] terminal_switch_video_ok [OF assms(1,2)] by simp

theorem terminal_switch_keeps_screens_witness:
  "abs_screen (terminal_switch 1 (paging_tables machine0)) 0 = abs_screen (paging_tables machine0) 0"
proof -
  have "video_ok (paging_tables machine0)"
    by (auto simp: video_ok_def less_3 paging_tables_eq machine0_def boot_kernel_def backup_mem_addr_def VID_MEM_BACKUP_def)
  then show ?thesis using terminal_switch_keeps_screens [of "paging_tables machine0" 1 0] by simp
qed

text \<open>
  C19. The video page \<^verbatim>\<open>vidmap\<close> hands to programs follows the terminal. From the page tables of \<^verbatim>\<open>init_paging\<close> and the static video pointers, after
  any sequence of terminal switches and with the page of process \<open>p\<close> mapped: user accesses to the video page of terminal \<open>t\<close> go to
  the physical screen if \<open>t\<close> is the terminal switched to last and to the terminal's backup page otherwise; and \<^verbatim>\<open>vidmap\<close> with a pointer
  into the program page succeeds and leaves there the address of the video page of the terminal that is displayed.
\<close>

theorem vidmap_page_follows_terminal:
  assumes "tables_aligned s" "terminal_num s = 0" "video_mem s 0 = VIDEO" "video_mem s 1 = backup_mem_addr 1" "video_mem s 2 = backup_mem_addr 2"
    and "set ns \<subseteq> {0, 1, 2}" "t < 3" "k < 0x1000" "0 \<le> p" "p < 6" "0x08000000 \<le> unat v" "unat v + 3 < 0x08400000"
    and "u = map_program_page p (fold terminal_switch ns (paging_tables s))"
  shows "mmu u user (user_vid_mem_addr t + k) = Some ((if t = last (0 # ns) then VIDEO else backup_mem_addr t) OR k) \<and>
    (\<exists>u'. vidmap v u = Some (0, u') \<and> load32_ptr (virt_ptr u' v) = Some (user_vid_mem_addr (last (0 # ns))))"
  using video_pages_follow [OF assms] by blast

theorem vidmap_page_follows_terminal_witness:
  "mmu (map_program_page 0 (fold terminal_switch [1, 2] (paging_tables machine0))) True (user_vid_mem_addr 1 + 6) = Some 0xBA006"
proof -
  have "tables_aligned machine0" "terminal_num machine0 = 0" "video_mem machine0 0 = VIDEO" "video_mem machine0 1 = backup_mem_addr 1"
      "video_mem machine0 2 = backup_mem_addr 2"
    by (simp_all add: machine0_def boot_kernel_def tables_aligned_def backup_mem_addr_def)
  from vidmap_page_follows_terminal [OF this, of "[1, 2]" 1 6 0 "0x08048000" _ True] show ?thesis
    by (simp add: backup_mem_addr_def)
qed

section \<open>Files and descriptors\<close>

text \<open>
  C20. \<^verbatim>\<open>read_data\<close>, which walks the 4 KB blocks of the inode with 32-bit arithmetic, returns exactly
  the requested slice of the file: the bytes from \<open>offset\<close> on, at most \<open>len\<close> and not past the end.
\<close>

theorem read_data_is_slice:
  "read_data inode offset len s = take (unat len) (drop (unat offset) (file_bytes s inode))"
  by (rule read_data_slice)

text \<open>
  C21. \<^verbatim>\<open>read_dentry_by_name\<close> is a search in the list of directory entries: it returns the first entry
  whose name equals the first 32 characters of the argument, if these are 7-bit characters.
\<close>

theorem lookup_is_find:
  assumes "cstr fname xs"
  shows "read_dentry_by_name fname s = Some (List.find (name_found xs) (dentry_list s))"
  using assms by (rule read_dentry_by_name_find)

theorem lookup_is_find_witness:
  "read_dentry_by_name (arr_ptr (cbytes ''rtc'' @ [0])) machine2 = Some (Some (entry_of ''rtc'' 0))"
proof -
  have "cstr (arr_ptr (cbytes ''rtc'' @ [0])) (cbytes ''rtc'')"
    using cstr_arr_ptr [of "cbytes ''rtc''" "[]"] by (simp add: cbytes_def)
  from lookup_is_find [OF this, of machine2] show ?thesis
    by (simp add: machine2_files, simp add: entry_of_def name_found_def entry_name_def cbytes_def)
qed

text \<open>
  C22. A program that reads a descriptor in chunks of any size \<open>n > 0\<close> until a read returns nothing gets
  the whole rest of the file in order, after at most one read more than there are bytes.
\<close>

theorem chunked_reads_get_the_file:
  assumes "0 < n" "length (file_rest fd s) < fuel"
  shows "\<exists>s'. drain (\<lambda>s. snd (read_file fd buf n s)) fuel s = Some (file_rest fd s, s') \<and> file_rest fd s' = []"
  using assms by (rule file_source.drain_all)

theorem chunked_reads_get_the_file_witness:
  "\<exists>s'. drain (\<lambda>s. snd (read_file 2 0x08000000 10 s)) 100 (set_fd 2 (opened (entry_of ''shell'' 2) file_table) machine2) =
     Some (program, s')"
proof -
  let ?s = "set_fd 2 (opened (entry_of ''shell'' 2) file_table) machine2"
  have "file_bytes ?s 0 = program" using file_bytes_cong [of ?s machine2] machine2_files(2) by simp
  then have "file_rest 2 ?s = program" by (simp add: file_rest_def opened_def entry_of_def)
  moreover have "length program < 100" by (simp add: program_def)
  ultimately show ?thesis using chunked_reads_get_the_file [of 10 2 ?s 100 "0x08000000"] by auto
qed

text \<open>
  C23. Reading a directory enumerates it: with the position at \<open>i\<close>, a read returns the name of the
  \<open>i\<close>-th entry and moves on to the next.
\<close>

theorem directory_read_enumerates:
  assumes "sint (file_position (fd_entry (cur_pcb s) fd)) = int i" "i < length (dentry_list s)"
  shows "read_directory fd buf n s =
    (int (length (entry_name (dentry_list s ! i))), entry_name (dentry_list s ! i),
     set_fd fd ((fd_entry (cur_pcb s) fd)\<lparr>file_position := of_nat (Suc i)\<rparr>) s)"
  using assms by (rule read_directory_entry)

theorem directory_read_enumerates_witness:
  "fst (snd (read_directory 2 0x08000000 32 (set_fd 2 (opened (entry_of ''.'' 1) directory_table) machine2))) = cbytes ''.''"
proof -
  let ?s = "set_fd 2 (opened (entry_of ''.'' 1) directory_table) machine2"
  have "dentry_list ?s = dentry_list machine2" by (rule dentry_list_cong) simp_all
  then show ?thesis
    using directory_read_enumerates [of ?s 2 0 "0x08000000" 32]
    by (simp add: machine2_files opened_def) (simp add: entry_name_def entry_of_def cbytes_def)
qed

text \<open>
  C24. The system calls other than \<^verbatim>\<open>halt\<close> and \<^verbatim>\<open>execute\<close> keep the caller's descriptor table well-formed:
  entries in use always hold a complete jump table of one of the drivers, so no later call goes through
  a null or foreign function pointer.
\<close>

theorem system_calls_keep_descriptors:
  assumes "fds_ok (cur_pcb s)" "sys_handler env frame eax ebx ecx edx s = Some (Returned v, s')"
    and "eax \<noteq> 1" "eax \<noteq> 2" "handlers env = map irq_effect qs"
    and "eax = 5 \<Longrightarrow> \<exists>xs. cstr (virt_ptr s ebx) xs"
  shows "fds_ok (cur_pcb s')"
  using assms by (rule sys_handler_fds_ok)

theorem system_calls_keep_descriptors_witness:
  "\<exists>s'. sys_handler env0 frame0 6 2 0 0 (set_fd 2 (opened (entry_of ''shell'' 2) file_table) machine2) = Some (Returned 0, s') \<and>
     fds_ok (cur_pcb s')"
proof -
  let ?s = "set_fd 2 (opened (entry_of ''shell'' 2) file_table) machine2"
  have ok: "fds_ok (cur_pcb ?s)"
    by (rule fds_ok_set_fd [OF machine2_fds_ok(1)]) (simp add: entry_ok_def opened_def)
  have call: "sys_handler env0 frame0 6 2 0 0 ?s = Some (Returned 0, set_fd 2 free_entry ?s)"
    using close_call_eq [OF ok, of 2] by (simp add: sys_handler_def opened_def)
  have irqs: "handlers env0 = map irq_effect [Rtc_irq]" by (simp add: env0_def irq_effect_def)
  have "fds_ok (cur_pcb (set_fd 2 free_entry ?s))"
    by (rule system_calls_keep_descriptors [OF ok call _ _ irqs]) simp_all
  then show ?thesis using call by blast
qed

text \<open>
  C25. Opening a file and closing it again restores the descriptor table, and no other process's PCB
  is touched.
\<close>

theorem open_then_close:
  assumes "fds_ok (cur_pcb s)" "cstr fname xs" "take 5 xs \<noteq> cbytes ''stdin''" "take 6 xs \<noteq> cbytes ''stdout''"
    and "open_call env (Some fname) s = Some (fd, s')" "fd \<noteq> -1"
  shows "\<exists>s''. close_call fd s' = Some (0, s'') \<and> flags (fd_entry (cur_pcb s'') (nat fd)) = 0 \<and>
    flags (fd_entry (cur_pcb s) (nat fd)) = 0 \<and>
    (\<forall>k. k \<noteq> nat fd \<longrightarrow> fd_entry (cur_pcb s'') k = fd_entry (cur_pcb s) k) \<and>
    (\<forall>pid. pid \<noteq> current_pid s \<longrightarrow> pcbs s'' pid = pcbs s pid)"
  using assms by (rule open_close)

theorem open_then_close_witness:
  "\<exists>s' s''. open_call env0 (Some (arr_ptr (cbytes ''shell'' @ [0]))) machine2 = Some (2, s') \<and> close_call 2 s' = Some (0, s'')"
proof -
  obtain s'' where "close_call 2 (set_fd 2 (opened (entry_of ''shell'' 2) file_table) machine2) = Some (0, s'')"
    using open_then_close [OF machine2_fds_ok(1) shell_name not_std_shell open_shell_machine2] by auto
  then show ?thesis using open_shell_machine2 by blast
qed

text \<open>
  C26. A successful \<^verbatim>\<open>open\<close> returns the lowest vacant descriptor between 2 and 7 and points it at the start
  of the file the name denotes, with the jump table of the file's type.
\<close>

theorem open_takes_lowest_descriptor:
  assumes "cstr fname xs" "take 5 xs \<noteq> cbytes ''stdin''" "take 6 xs \<noteq> cbytes ''stdout''"
    and "open_call env (Some fname) s = Some (fd, s')" "fd \<noteq> -1"
  shows "2 \<le> fd \<and> fd < 8 \<and> flags (fd_entry (cur_pcb s) (nat fd)) = 0 \<and>
    (\<forall>j. 2 \<le> j \<and> j < nat fd \<longrightarrow> flags (fd_entry (cur_pcb s) j) \<noteq> 0) \<and>
    (\<exists>d tbl. List.find (name_found xs) (dentry_list s) = Some d \<and> table_of_type (file_type d) = Some tbl \<and>
       fd_entry (cur_pcb s') (nat fd) = opened d tbl)"
  using assms by (rule open_call_lowest)

theorem open_takes_lowest_descriptor_witness:
  "\<exists>s' d. open_call env0 (Some (arr_ptr (cbytes ''shell'' @ [0]))) machine2 = Some (2, s') \<and>
     fd_entry (cur_pcb s') 2 = opened d file_table"
proof -
  have "table_of_type (file_type (entry_of ''shell'' 2)) = Some file_table" by (simp add: table_of_type_def entry_of_def)
  then show ?thesis
    using open_takes_lowest_descriptor [OF shell_name not_std_shell open_shell_machine2] open_shell_machine2 find_shell_machine2 by auto
qed

text \<open>
  C27. \<^verbatim>\<open>read\<close>, \<^verbatim>\<open>write\<close> and \<^verbatim>\<open>close\<close> of a descriptor that is out of range or vacant return -1, store nothing
  and change nothing.
\<close>

theorem bad_descriptors_are_refused:
  assumes "fd < 0 \<or> 8 \<le> fd \<or> flags (fd_entry (cur_pcb s) (nat fd)) = 0"
  shows "read_call env fd buf n s = Some (-1, [], s) \<and> write_call env fd p n s = Some (-1, s) \<and> close_call fd s = Some (-1, s)"
  using bad_descriptor [OF assms] by simp

theorem bad_descriptors_are_refused_witness:
  "read_call env0 9 0x08000000 4 machine2 = Some (-1, [], machine2)"
  using bad_descriptors_are_refused [of 9 machine2 env0 "0x08000000" 4] by simp

section \<open>Starting programs\<close>

text \<open>
  C28. The parser of \<^verbatim>\<open>execute\<close> splits a command into its first word and the rest after the spaces, both
  NUL-terminated, and reports whether there are arguments.
\<close>

theorem parser_splits_command:
  assumes "cstr cmd (word @ replicate sp 0x20 @ ar)" "0x20 \<notin> set word" "length word < length n0"
    and "sp = 0 \<Longrightarrow> ar = []" "ar = [] \<or> hd ar \<noteq> 0x20" "length ar < length l0" "length word < length l0"
    and "length word + sp + length ar < 2147483648" "length n0 < 4294967296" "length l0 < 4294967296"
  shows "parse_command cmd n0 l0 = Some (word @ 0 # drop (Suc (length word)) n0,
    if sp = 0 then l0[length word := 0] else ar @ 0 # drop (Suc (length ar)) l0, ar \<noteq> [])"
  using assms by (rule parse_command_spec)

theorem parser_splits_command_witness:
  "parse_command (arr_ptr (cbytes ''cat  a b'' @ [0])) (replicate 4 0) (replicate 5 0) =
     Some (cbytes ''cat'' @ [0], cbytes ''a b'' @ [0, 0], True)"
proof -
  have rep: "replicate 2 x = [x, x]" "drop 4 (replicate 5 x) = [x]" for x :: u8 by (simp_all add: numeral_eq_Suc)
  have "cstr (arr_ptr (cbytes ''cat  a b'' @ [0])) (cbytes ''cat'' @ replicate 2 0x20 @ cbytes ''a b'')"
    using cstr_arr_ptr [of "cbytes ''cat  a b''" "[]"] by (simp add: cbytes_def rep)
  from parser_splits_command [OF this, of "replicate 4 0" "replicate 5 0"] show ?thesis
    by (simp add: cbytes_def rep)
qed

text \<open>
  C29. A command whose first word has as many characters as the array \<^verbatim>\<open>file_name\<close> (32 in \<^verbatim>\<open>execute\<close>) or
  more makes the parser write outside it: the model's parser has no result.
\<close>

theorem parser_overflows_file_name:
  assumes "cstr cmd xs" "length n0 \<le> length xs" "0x20 \<notin> set (take (length n0) xs)" "length n0 < 4294967296"
  shows "parse_command cmd n0 l0 = None"
  using assms by (rule parse_command_overflow)

theorem parser_overflows_file_name_witness:
  "parse_command (arr_ptr (replicate 32 0x61 @ [0])) (replicate 32 0) (replicate 128 0) = None"
  using parser_overflows_file_name [OF cstr_arr_ptr [of "replicate 32 0x61" "[]"], of "replicate 32 0" "replicate 128 0"] by simp

section \<open>Interrupts and boot\<close>

text \<open>
  C30. A processor exception in a program started by another process ends that program only: after the
  message, the parent's \<^verbatim>\<open>execute\<close> returns 256.
\<close>

theorem exceptions_end_the_program:
  assumes "n < 20" "current_pid s = p" "0 \<le> p" "p < 6" "parent_id (pcbs s p) = word_of_int q" "0 \<le> q" "q < 6" "q \<noteq> p"
    and "fds_ok (pcbs s p)"
  shows "\<exists>s'. screen_only s s' \<and> (exception_handlers ! n) frame s = Some (Returned 256, halted s' p q 256)"
  using assms by (rule exception_ends_program)

theorem exceptions_end_the_program_witness:
  "\<exists>s'. (exception_handlers ! 14) frame0 (machine2\<lparr>current_pid := 1, pcbs := (pcbs machine2)(1 := pcb0)\<rparr>) =
     Some (Returned 256, s')"
proof -
  have "fds_ok pcb0" using machine2_fds_ok by simp
  then show ?thesis
    using exceptions_end_the_program [of 14 "machine2\<lparr>current_pid := 1, pcbs := (pcbs machine2)(1 := pcb0)\<rparr>" 1 0 frame0]
    by (auto simp: pcb0_def zero_pcb_def)
qed

text \<open>
  C31. After \<^verbatim>\<open>init_idt\<close> every vector has a present gate into the kernel's code segment that leads to the
  handler meant for it; only the system call gate is open to user code.
\<close>

theorem interrupt_table_is_complete:
  assumes "v < 256"
  shows "gate_target (init_idt addr idt v) = addr (vector_handler v) \<and> seg_selector (init_idt addr idt v) = 0x10 \<and>
    gate_attr (init_idt addr idt v) = (if v = 0x80 then 0xEF else 0x8E)"
  using assms by (rule init_idt_vector)

theorem interrupt_table_is_complete_witness:
  "gate_target (init_idt (\<lambda>h. if h = Sys_handler then 0x401234 else 0) (\<lambda>_. gate0) 0x80) = 0x401234"
  using interrupt_table_is_complete [of "0x80" "\<lambda>h. if h = Sys_handler then 0x401234 else 0" "\<lambda>_. gate0"]
  by (simp add: vector_handler_def)

text \<open>
  C32. The kernel reaches its idle loop in a defined state: interrupts on, paging enabled with the tables of
  \<^verbatim>\<open>init_paging\<close>, exactly the lines of timer, keyboard, second controller and clock unmasked, and the
  process and scheduler data as the boot code left them.
\<close>

theorem kernel_reaches_idle_loop:
  assumes "0xFA \<in> set (kbd_port env)" "master_mask s = 0xFF" "slave_mask s = 0xFF"
  shows "\<exists>s'. init_kernel env mbi s = Some s' \<and> iflag s' \<and> process_state s' = process_state s \<and>
    PDT s' = PDT (paging_tables s) \<and> PT0 s' = PT0 (paging_tables s) \<and> PT1 s' = PT1 (paging_tables s) \<and>
    bit (cr0 s') 31 \<and> bit (cr4 s') 4 \<and> cr3 s' = (cr3 s AND 0xFFF) + PDT_addr s \<and>
    master_mask s' = 0xF8 \<and> slave_mask s' = 0xFE"
  using assms by (rule init_kernel_state)

theorem kernel_reaches_idle_loop_witness:
  "\<exists>s'. init_kernel boot0 0 machine0 = Some s' \<and> iflag s' \<and> cr3 s' = 0x401000"
proof -
  have "0xFA \<in> set (kbd_port boot0)" "master_mask machine0 = 0xFF" "slave_mask machine0 = 0xFF" "cr3 machine0 = 0" "PDT_addr machine0 = 0x401000"
    by (simp_all add: boot0_def machine0_def boot_kernel_def)
  then show ?thesis using kernel_reaches_idle_loop [of boot0 machine0 0] by auto
qed

section \<open>Devices\<close>

text \<open>
  C33. A process blocked in \<^verbatim>\<open>read\<close> on the clock wakes up at the next clock interrupt and not before: while only keys are pressed the call does
  not return, whatever the flag was before; with the first clock interrupt it returns 0, in the state after exactly the interrupts up to that one.
\<close>

theorem rtc_read_returns:
  assumes "get_tty s < 3" "Rtc_irq \<notin> set qs1"
  shows "read_RTC (map irq_effect qs1) fd buf n s = None \<and>
    read_RTC (map irq_effect (qs1 @ Rtc_irq # qs2)) fd buf n s =
      Some (0, [], fold irq_effect (qs1 @ [Rtc_irq]) (s\<lparr>rtc_interrupt_occured := (rtc_interrupt_occured s)(get_tty s := 1)\<rparr>))"
  using read_RTC_wakes [OF assms] by blast

theorem rtc_read_returns_witness:
  "read_RTC (map irq_effect [Key_irq 0x1E]) 2 0x08000000 4 machine2 = None \<and>
   (\<exists>s'. read_RTC (map irq_effect [Key_irq 0x1E, Rtc_irq]) 2 0x08000000 4 machine2 = Some (0, [], s'))"
proof -
  have "get_tty machine2 < 3" by (simp add: get_tty_def machine2_fds_ok pcb0_def zero_pcb_def)
  then show ?thesis using rtc_read_returns [of machine2 "[Key_irq 0x1E]" 2 "0x08000000" 4 "[]"] by simp
qed

text \<open>
  C34. The clock accepts exactly the frequencies 2, 4, ..., 1024: it programs the rate 16 - k for the k-th power of two and
  ignores every other value.
\<close>

theorem rtc_frequencies:
  "(\<not> rtc_freq f \<longrightarrow> changeFreq_RTC f a s = s) \<and>
   (1 \<le> k \<and> k \<le> 10 \<longrightarrow> changeFreq_RTC (2 ^ k) a s =
      s\<lparr>outs := outs s @ [(0x70, 0x8A), (0x70, 0x8A), (0x71, (a AND 0xF0) OR of_nat (16 - k))]\<rparr>)"
  using changeFreq_rejects changeFreq_programs by blast

theorem rtc_frequencies_witness:
  "changeFreq_RTC 3 0x26 machine0 = machine0 \<and>
   changeFreq_RTC 4 0x26 machine0 = machine0\<lparr>outs := outs machine0 @ [(0x70, 0x8A), (0x70, 0x8A), (0x71, 0x2E)]\<rparr>"
  using rtc_frequencies [of 3 "0x26" machine0 2] by (simp add: rtc_freq_def)

section \<open>The C library\<close>

text \<open>
  C36. \<^verbatim>\<open>printf\<close> agrees with a reference formatter: for a format without \<^verbatim>\<open>%s\<close> whose conversions have their
  arguments, it prints the text \<open>render\<close> gives (decimal, signed, hexadecimal, zero-padded with \<^verbatim>\<open>%#x\<close>), after a scroll
  if the cursor is on the last row, and returns the length of the format.
\<close>

theorem printf_agrees_with_reference:
  assumes "cstr fmt xs" "render xs vs = Some out"
  shows "printf fmt vs s = Some (of_nat (length xs), out_text out (if check_out_of_bound s \<noteq> 0 then scroll_screen s else s))"
  using assms by (rule printf_render)

theorem printf_agrees_with_reference_witness:
  "printf (arr_ptr (cbytes ''p=%#x n=%d%%'' @ [0])) [0xB8000, 0xFFFFFFFB] machine0 =
     Some (12, out_text (cbytes ''p=000B8000 n=-5%'') machine0)"
proof -
  let ?f = "cbytes ''p=%#x n=%d%%''"
  have f: "cstr (arr_ptr (?f @ [0])) ?f" using cstr_arr_ptr [of ?f "[]"] by (simp add: cbytes_def)
  have n: "number_text 16 0xB8000 = cbytes ''B8000''" "number_text 10 5 = cbytes ''5''"
    by (simp_all add: number_text_def digits.simps dig_def lookup_def cbytes_def)
  have m: "- 0xFFFFFFFB = (5 :: u32)" by (simp only: neg_eq_iff_add_eq_0) simp
  have rep: "replicate 3 x = [x, x, x]" for x :: u8 by (simp add: numeral_eq_Suc)
  have "render ?f [0xB8000, 0xFFFFFFFB] = Some (cbytes ''p=000B8000 n=-5%'')"
    by (simp add: cbytes_def conv_text_def n rep m)
  from printf_agrees_with_reference [OF f this, of machine0] show ?thesis
    by (simp add: check_out_of_bound_def) (simp add: machine0_def boot_kernel_def cbytes_def)
qed

text \<open>
  C37. \<^verbatim>\<open>itoa\<close> writes a numeral that reads back as the number, in every radix from 2 to 36, in a buffer of
  33 bytes or more.
\<close>

theorem itoa_round_trip:
  assumes "2 \<le> unat r" "unat r \<le> 36" "33 \<le> length buf"
  shows "\<exists>ds rest. itoa v buf r = Some (ds @ 0 # rest) \<and> 0 \<notin> set ds \<and> number (unat r) ds = unat v"
  using assms by (rule itoa_number)

theorem itoa_round_trip_witness:
  "\<exists>ds rest. itoa 255 (replicate 33 0) 16 = Some (ds @ 0 # rest) \<and> 0 \<notin> set ds \<and> number 16 ds = 255"
  using itoa_round_trip [of 16 "replicate 33 0" 255] by simp

text \<open>
  C38. \<^verbatim>\<open>memmove\<close> copies correctly whether or not the blocks overlap, if neither wraps around the address
  space; it returns with the direction flag set exactly when it copied backwards.
\<close>

theorem memmove_copies:
  assumes "unat s + unat n \<le> 4294967296" "unat d + unat n \<le> 4294967296"
  shows "memmove m d s n = ((\<lambda>a. if unat (a - d) < unat n then m (s + (a - d)) else m a), s < d)"
  using memmove_cpy [OF assms] by (simp add: cpy_def)

theorem memmove_copies_witness:
  "fst (memmove (\<lambda>a. if a = 0x100 then 7 else 9) 0x101 0x100 2) 0x101 = 7"
  using memmove_copies [of "0x100" 2 "0x101"] by simp

text \<open>
  C39. \<^verbatim>\<open>memcpy\<close>, which copies bytes up to alignment, then words, then the rest, copies the block if
  the destination does not start inside the source behind its first byte.
\<close>

theorem memcpy_copies:
  assumes "unat (s - d) + unat n \<le> 4294967296"
  shows "memcpy m d s n = (\<lambda>a. if unat (a - d) < unat n then m (s + (a - d)) else m a)"
  using memcpy_cpy [OF assms] by (simp add: cpy_def)

theorem memcpy_copies_witness:
  "memcpy (\<lambda>a. if a = 0x200 then 7 else 9) 0x101 0x200 13 0x101 = 7"
  using memcpy_copies [of "0x200" "0x101" 13] by simp

text \<open>
  C40. The video memory at its physical address \<open>0xB8000\<close> is accessible to user code after \<^verbatim>\<open>init_paging\<close>: its
  directory and table entries carry the user bit, so a program can draw on the displayed terminal
  without \<^verbatim>\<open>vidmap\<close>.
\<close>

theorem video_memory_open_to_users:
  assumes "tables_aligned s" "k < 0x1000"
  shows "mmu (paging_tables s) True (0xB8000 + k) = Some (0xB8000 OR k)"
  using assms by (rule mmu_user_vga)

theorem video_memory_open_to_users_witness:
  "mmu (paging_tables machine0) True 0xB8002 = Some 0xB8002"
  using video_memory_open_to_users [OF machine0_tables, of 2] by simp


section \<open>User programs\<close>

text \<open>
  C5. The command \<open>cat name\<close>, from the shell's \<^verbatim>\<open>execute\<close> to its return: the kernel loads and enters the
  program, \<^verbatim>\<open>cat\<close> fetches its argument, opens the file and prints the whole of it on the displayed terminal
  in chunks of 1024 bytes, and its halt resumes the shell with 0. The process table is as before and no
  other screen has changed.
\<close>

theorem shell_runs_cat:
  assumes "shell_ready s q i" "installed s (cbytes ''cat'') p" "frame_ok frame"
    and "cstr cmd (cbytes ''cat'' @ replicate sp 0x20 @ name)" "command_ok (cbytes ''cat'') sp name" "name \<noteq> []"
    and "take 5 name \<noteq> cbytes ''stdin''" "take 6 name \<noteq> cbytes ''stdout''"
    and "List.find (name_found name) (dentry_list s) = Some d" "file_type d = 2"
    and "in_kernel_page s (inode_number d)" "0x0D \<notin> set (file_bytes s (inode_number d))"
  shows "\<exists>s'. ece391_execute frame (user_child frame' (cat_main env junk)) cmd s = Some (0, s') \<and>
    current_pid s' = q \<and> pid_flags s' = pid_flags s \<and>
    abs_screen s' (terminal_num s) = fold emit (file_bytes s (inode_number d)) (abs_screen s (terminal_num s)) \<and>
    (\<forall>t < 3. t \<noteq> terminal_num s \<longrightarrow> abs_screen s' t = abs_screen s t)"
  using assms by (rule cat_from_shell)

theorem shell_runs_cat_witness:
  "\<exists>s'. ece391_execute frame0 (user_child frame0 (cat_main env0 (\<lambda>_. 0))) (arr_ptr (cbytes ''cat a'' @ [0])) machine4 = Some (0, s') \<and>
     abs_screen s' 0 = fold emit (cbytes ''Hi'' @ [0x0A]) (abs_screen machine4 0)"
proof -
  have cmd: "cstr (arr_ptr (cbytes ''cat a'' @ [0])) (cbytes ''cat'' @ replicate 1 0x20 @ cbytes ''a'')"
    using cstr_arr_ptr [of "cbytes ''cat a''" "[]"] by (simp add: cbytes_def)
  have ok: "command_ok (cbytes ''cat'') 1 (cbytes ''a'')" by (simp add: command_ok_def cbytes_def)
  have f: "List.find (name_found (cbytes ''a'')) (dentry_list machine4) = Some file4"
    unfolding machine4_files by (simp add: entry_of_def file4_def name_found_def entry_name_def cbytes_def)
  have d: "file_type file4 = 2" "inode_number file4 = 1" by (simp_all add: file4_def)
  have n: "cbytes ''a'' \<noteq> []" "take 5 (cbytes ''a'') \<noteq> cbytes ''stdin''" "take 6 (cbytes ''a'') \<noteq> cbytes ''stdout''"
    and cr: "0x0D \<notin> set (cbytes ''Hi'' @ [0x0A])" by (simp_all add: cbytes_def)
  show ?thesis
    using shell_runs_cat [OF machine4_shell_ready machine4_installed(1) frame0_ok cmd ok n f d(1), of frame0 env0 "\<lambda>_. 0"]
      machine4_in_kernel_page(2) cr by (auto simp: d(2) machine4_files(3))
qed

text \<open>
  C16. The command \<open>ls\<close> from the shell prints the names of the directory's entries, one a line, up to the
  first entry without a name, and resumes the shell with 0.
\<close>

theorem shell_runs_ls:
  assumes "shell_ready s q i" "installed s (cbytes ''ls'') p" "frame_ok frame" "cstr cmd (cbytes ''ls'')"
    and "List.find (name_found (cbytes ''.'')) (dentry_list s) = Some d" "file_type d = 1"
    and "in_kernel_page s (inode_number d)" "\<forall>e \<in> set (dentry_list s). 0x0D \<notin> set (entry_name e)"
  shows "\<exists>s'. ece391_execute frame (user_child frame' (ls_main env junk)) cmd s = Some (0, s') \<and>
    current_pid s' = q \<and> pid_flags s' = pid_flags s \<and>
    abs_screen s' (terminal_num s) = fold emit (listing (dentry_list s)) (abs_screen s (terminal_num s)) \<and>
    (\<forall>t < 3. t \<noteq> terminal_num s \<longrightarrow> abs_screen s' t = abs_screen s t)"
  using assms by (rule ls_from_shell)

theorem shell_runs_ls_witness:
  "\<exists>s'. ece391_execute frame0 (user_child frame0 (ls_main env0 (\<lambda>_. 0))) (arr_ptr (cbytes ''ls'' @ [0])) machine4 = Some (0, s') \<and>
     abs_screen s' 0 = fold emit (cbytes ''.'' @ [0x0A] @ cbytes ''cat'' @ [0x0A] @ cbytes ''ls'' @ [0x0A] @ cbytes ''a'' @ [0x0A]) (abs_screen machine4 0)"
proof -
  have cmd: "cstr (arr_ptr (cbytes ''ls'' @ [0])) (cbytes ''ls'')"
    using cstr_arr_ptr [of "cbytes ''ls''" "[]"] by (simp add: cbytes_def)
  have f: "List.find (name_found (cbytes ''.'')) (dentry_list machine4) = Some (entry_of ''.'' 1)"
    unfolding machine4_files by (simp add: entry_of_def file4_def name_found_def entry_name_def cbytes_def)
  have d: "file_type (entry_of ''.'' 1) = 1" "inode_number (entry_of ''.'' 1) = 0" by (simp_all add: entry_of_def)
  have l: "listing (dentry_list machine4) = cbytes ''.'' @ [0x0A] @ cbytes ''cat'' @ [0x0A] @ cbytes ''ls'' @ [0x0A] @ cbytes ''a'' @ [0x0A]"
    unfolding machine4_files by (simp add: listing_def entry_of_def file4_def entry_name_def cbytes_def)
  have cr: "\<forall>e \<in> set (dentry_list machine4). 0x0D \<notin> set (entry_name e)"
    unfolding machine4_files by (simp add: entry_of_def file4_def entry_name_def cbytes_def)
  show ?thesis
    using shell_runs_ls [OF machine4_shell_ready machine4_installed(2) frame0_ok cmd f d(1) _ cr, of frame0 env0 "\<lambda>_. 0"]
      machine4_in_kernel_page(1) by (auto simp: d(2) l)
qed

text \<open>
  C17. The kernel passes its error tests: the program \<^verbatim>\<open>syserr\<close>, choice 0, calls the kernel with negative, large and
  unopened descriptors, with too many open files, wrong file names, bad \<^verbatim>\<open>vidmap\<close> addresses, crossed standard
  descriptors and invalid call numbers; every test prints PASS and the program returns 0.
\<close>

theorem kernel_passes_error_tests:
  assumes "test_state inode s" "List.find (name_found (cbytes ''.'')) (dentry_list s) = Some d" "file_type d = 1"
    and "\<forall>xs \<in> {cbytes ''helloo'', cbytes ''shel'', cbytes []}. List.find (name_found xs) (dentry_list s) = None"
  shows "\<exists>s'. syserr_all env frame regs junk s = Some (0, s') \<and> shown all_passed s s'"
  using assms by (rule syserr_all_passes)

theorem kernel_passes_error_tests_witness:
  "\<exists>s'. syserr_all env0 frame0 (0, 0, 0) (\<lambda>_. 0) machine4 = Some (0, s') \<and> abs_screen s' 0 = fold emit all_passed (abs_screen machine4 0)"
proof -
  have f: "List.find (name_found (cbytes ''.'')) (dentry_list machine4) = Some (entry_of ''.'' 1)"
    unfolding machine4_files by (simp add: entry_of_def file4_def name_found_def entry_name_def cbytes_def)
  have d: "file_type (entry_of ''.'' 1) = 1" by (simp add: entry_of_def)
  have miss: "\<forall>xs \<in> {cbytes ''helloo'', cbytes ''shel'', cbytes []}. List.find (name_found xs) (dentry_list machine4) = None"
    unfolding machine4_files by (simp add: entry_of_def file4_def name_found_def entry_name_def cbytes_def)
  have tty: "get_tty machine4 = 0" by (simp add: get_tty_def cur_pcb_def pcb0_def zero_pcb_def)
  show ?thesis
    using kernel_passes_error_tests [OF machine4_test_state f d miss, of env0 frame0 "(0, 0, 0)" "\<lambda>_. 0"] tty by (auto simp: shown_def)
qed

text \<open>
  C35. The blink list of the fish program, nodes in a static array chained by indices, implements a list of
  blinks: any sequence of additions (at locations other than 0), removals and clock ticks from the empty
  list ends, and leaves the list and the screen of the abstract operations, full and invalid cases included.
\<close>

theorem blink_list_refines_list:
  assumes "list_all op_ok xs"
  shows "\<exists>f' ps. blink_run xs (fish0 v) = Some f' \<and> blink_inv f' ps \<and> (blinks f' ps, vmem f') = fold blink_spec xs ([], v)"
  using blink_run_spec [OF fish0_inv(1) assms, of v] by (simp add: fish0_inv(2)) (simp add: fish0_def)

theorem blink_list_refines_list_witness:
  "\<exists>f'. blink_run [Add (im_blink zero_blink), Tick, Remove 540] (fish0 (\<lambda>_. 0)) = Some f' \<and> vmem f' 1080 = 0x49"
proof -
  let ?ops = "[Add (im_blink zero_blink), Tick, Remove 540]"
  have ok: "list_all op_ok ?ops" by (simp add: op_ok_def im_blink_def)
  have "snd (fold blink_spec ?ops ([], \<lambda>_. 0)) 1080 = 0x49"
    by (simp add: im_blink_def zero_blink_def lit_blink_def display_def expired_def)
  then show ?thesis using blink_list_refines_list [OF ok, of "\<lambda>_. 0"] by (metis snd_conv)
qed

text \<open>
  C15. \<^verbatim>\<open>grep\<close> on one file prints exactly the lines that contain the search string, each after the file's name and
  a colon, in order, and closes the file, although it reads the file in chunks of 1024 bytes, moves incomplete
  lines to the front of its buffer and cuts them with NULs there; for files of lines shorter than the
  buffer, and when the uninitialised byte behind the buffer is no newline.
\<close>

theorem grep_prints_matching_lines:
  assumes "stdout_ok s" "search_ok str sx fname fx" "take 5 fx \<noteq> cbytes ''stdin''" "take 6 fx \<noteq> cbytes ''stdout''"
    and "List.find (name_found fx) (dentry_list s) = Some d" "file_type d = 2"
    and "find_fd (cur_pcb s) [2..<8] = Some fd" "off_screen s (inode_number d)"
    and "text_ok (file_bytes s (inode_number d))" "\<forall>l \<in> set (lines_of (file_bytes s (inode_number d))). length l < 1024"
    and "junk 1024 \<noteq> 0x0A"
  shows "\<exists>s'. do_one_file env junk str fname s = Some (0, s') \<and>
    shown (concat (map (\<lambda>l. if hit sx l then fx @ [0x3A] @ l @ [0x0A] else []) (lines_of (file_bytes s (inode_number d))))) s s' \<and>
    fd_entry (cur_pcb s') fd = free_entry"
  using do_one_file_greps [OF assms(1-10), of junk env] assms(11) by (simp add: grep_text_def report_def [abs_def])

theorem grep_prints_matching_lines_witness:
  "\<exists>s'. do_one_file env0 (\<lambda>_. 0) (arr_ptr (cbytes ''i'' @ [0])) (arr_ptr (cbytes ''a'' @ [0])) machine4 = Some (0, s') \<and>
     abs_screen s' 0 = fold emit (cbytes ''a:Hi'' @ [0x0A]) (abs_screen machine4 0)"
proof -
  have t: "stdout_ok machine4" "get_tty machine4 = 0"
    using machine4_test_state by (simp_all add: test_state_def get_tty_def cur_pcb_def pcb0_def zero_pcb_def)
  have so: "search_ok (arr_ptr (cbytes ''i'' @ [0])) (cbytes ''i'') (arr_ptr (cbytes ''a'' @ [0])) (cbytes ''a'')"
    using cstr_arr_ptr [of "cbytes ''i''" "[]"] cstr_arr_ptr [of "cbytes ''a''" "[]"] by (simp add: search_ok_def cbytes_def)
  have n: "take 5 (cbytes ''a'') \<noteq> cbytes ''stdin''" "take 6 (cbytes ''a'') \<noteq> cbytes ''stdout''" by (simp_all add: cbytes_def)
  have f: "List.find (name_found (cbytes ''a'')) (dentry_list machine4) = Some file4"
    unfolding machine4_files by (simp add: entry_of_def file4_def name_found_def entry_name_def cbytes_def)
  have d: "file_type file4 = 2" "inode_number file4 = 1" by (simp_all add: file4_def)
  have fd: "find_fd (cur_pcb machine4) [2..<8] = Some 2"
    by (simp add: cur_pcb_def pcb0_def new_fds_def free_entry_def upt_rec)
  have v: "video_ok machine4" using machine4_shell_ready by (simp add: shell_ready_def)
  have os: "off_screen machine4 (inode_number file4)"
    using in_kernel_page_off_screen [OF machine4_in_kernel_page(2) v] t(2) by (simp add: d(2))
  have b: "file_bytes machine4 (inode_number file4) = cbytes ''Hi'' @ [0x0A]" by (simp add: d(2) machine4_files)
  have ls: "lines_of (cbytes ''Hi'' @ [0x0A]) = [cbytes ''Hi'']" "text_ok (cbytes ''Hi'' @ [0x0A])"
    by (simp_all add: cbytes_def text_ok_def)
  have h: "hit (cbytes ''i'') (cbytes ''Hi'')" by (simp add: hit_def cbytes_def sublist_Cons_right)
  show ?thesis
    using grep_prints_matching_lines [OF t(1) so n f d(1) fd os, of "\<lambda>_. 0" env0] t(2)
    by (simp add: b ls h shown_def) (auto simp: cbytes_def)
qed
section \<open>The running system\<close>

lemma machine6_timer:
  "\<exists>s'. run step [Timer (\<lambda>_. frame0)] machine6 = Some s' \<and> admissible event_ok step [Timer (\<lambda>_. frame0)] machine6 \<and> pit_terminal_num s' = 1"
proof -
  let ?u = "send_eoi 0 (machine6\<lparr>iflag := False\<rparr>)"
  have "shells_running ?u" by (simp add: shells_running_def send_eoi_def outb_def) (simp add: machine6_def)
  then have "P_handler_wrapper (\<lambda>_. frame0) machine6 = Some (Resumed, (switched ?u)\<lparr>iflag := True\<rparr>)"
    using task_switch_running by (simp add: P_handler_wrapper_def PIT_handler_def)
  moreover have "pit_terminal_num ?u = 0" by (simp add: send_eoi_def outb_def) (simp add: machine6_def)
  ultimately show ?thesis by simp
qed

text \<open>
  C1. The invariant of the running kernel. From a state with the invariant \<open>kernel_ok\<close>, let any list of events happen: keys, clock and timer
  interrupts, system calls, the halves of blocking reads, exceptions and stores of user code, in any order. If every event is
  admissible and has a result, then in the state reached the three
  shells are alive; the process that runs is alive, is the one of the terminal whose turn it is, has a well-formed
  descriptor table, and its page is the one mapped; the keyboard buffers and the video mapping are
  consistent and every cursor is on its screen; the program \<^verbatim>\<open>shell\<close> can still be started from the file system; and the next key and
  the next tick of the timer are handled, whatever they are. Admissible (\<open>event_ok\<close>) excludes the inputs on which the code
  breaks this invariant: \<^verbatim>\<open>execute\<close>, or the end of a shell by \<^verbatim>\<open>halt\<close> or an exception, on a terminal that is not
  displayed; \<^verbatim>\<open>execute\<close> or an exception while the cursor is right of column 22, where a message may wrap; buffers of \<^verbatim>\<open>read\<close>
  and \<^verbatim>\<open>getargs\<close> that do not start in the program page; carriage returns in text for the terminal. A call without a result
  (an overrun of \<^verbatim>\<open>file_name\<close>, a fault inside the kernel) ends the run, and interrupts inside calls happen in waits only.
\<close>

theorem running_kernel_invariant:
  assumes "kernel_ok d st s" "admissible event_ok step es s" "run step es s = Some s'"
  shows "(\<forall>t < 3. pid_flags s' t \<noteq> 0 \<and> cursor_ok s' t) \<and> pid_flags s' (nat (current_pid s')) \<noteq> 0 \<and>
    get_tty s' = pit_terminal_num s' \<and> fds_ok (cur_pcb s') \<and> PDT s' 32 = prog_entry (current_pid s') \<and>
    kbd_inv s' \<and> video_ok s' \<and> installed s' (cbytes ''shell'') d \<and>
    (\<forall>c. step (Key c) s' \<noteq> None) \<and> (\<forall>frames. step (Timer frames) s' \<noteq> None)"
proof -
  obtain st' where k: "kernel_ok d st' s'" using run_tasks [OF assms] by blast
  note t = kernel_okD(3) [OF k]
  show ?thesis
    using tasks_shells(1) [OF t] tasks_current(4-6) [OF t] kernel_okD(1,2,4) [OF k] interrupts_defined(1,2) [OF k]
    by (simp add: screens_ok_def display_ok_def paged_def del: step.simps)
qed

theorem running_kernel_invariant_witness:
  "\<exists>s'. run step [Timer (\<lambda>_. frame0)] machine6 = Some s' \<and> pid_flags s' 2 \<noteq> 0 \<and> PDT s' 32 = prog_entry (current_pid s')"
proof -
  obtain s' where s': "run step [Timer (\<lambda>_. frame0)] machine6 = Some s'" "admissible event_ok step [Timer (\<lambda>_. frame0)] machine6"
    using machine6_timer by blast
  then show ?thesis using running_kernel_invariant [OF machine6_kernel_ok s'(2,1)] by (simp del: step.simps)
qed



text \<open>
  C3. Isolation. In a state with the invariant, let any event happen: a store of user code, a system call of the running process with
  any arguments, its end, the start of a program, an exception or an interrupt, provided the text of a \<^verbatim>\<open>write\<close> to the terminal has no
  carriage return (interrupts during a wait are events of their own). It changes the memory of a live process other than the running one, or the page with the kernel image and the file system, at most at
  the physical addresses of the buffer that a \<^verbatim>\<open>read\<close> or \<^verbatim>\<open>getargs\<close> of the running process names, because the kernel stores there
  unchecked; if that buffer lies in the program page, or there is none, it changes nothing there.
\<close>

theorem steps_isolate_processes:
  assumes "kernel_ok d st s" "plain_text e s" "step e s = Some s'"
    and "drop_bit 22 a = 1 \<or> (\<exists>q < 6. pid_flags s q \<noteq> 0 \<and> int q \<noteq> current_pid s \<and> drop_bit 22 a = frame_of (int q))"
  shows "(a \<notin> buffer_targets e s \<longrightarrow> mem s' a = mem s a) \<and>
    (buffer e = (0, 0) \<or> 0x08000000 \<le> unat (fst (buffer e)) \<and> unat (fst (buffer e)) + snd (buffer e) \<le> 0x08400000 \<longrightarrow> mem s' a = mem s a)"
proof -
  note k = kernel_okD [OF assms(1)]
  note cur = tasks_current(2,3) [OF k(3)]
  have own: "drop_bit 22 a \<notin> own_frames s" by (rule own_frames_others [OF assms(4)])
  then have "drop_bit 22 a \<noteq> frame_of (current_pid s)" using own_frames_simps(2) [OF cur] by auto
  then have "a \<notin> buffer_targets e s"
    if "buffer e = (0, 0) \<or> 0x08000000 \<le> unat (fst (buffer e)) \<and> unat (fst (buffer e)) + snd (buffer e) \<le> 0x08400000"
    using that targets_own_page [OF k(2) cur] by (auto simp: buffer_targets_def targets_def)
  then show ?thesis using step_own [OF assms(1-3) own] by blast
qed

theorem steps_isolate_processes_witness:
  "mmu machine6 True 0x08048000 = Some 0x848000 \<and> step (Store 0x08048000 1) machine6 = Some (machine6\<lparr>mem := (mem machine6)(0x848000 := 1)\<rparr>) \<and>
   mem (machine6\<lparr>mem := (mem machine6)(0x848000 := 1)\<rparr>) 0xC48000 = mem machine6 0xC48000"
proof -
  have "PDT machine6 32 = prog_entry 0" by (simp add: machine6_def)
  then have m: "mmu machine6 True 0x08048000 = Some 0x848000" by (simp add: mmu_def prog_entry_def Let_def bit_numeral_rec)
  then have st: "step (Store 0x08048000 1) machine6 = Some (machine6\<lparr>mem := (mem machine6)(0x848000 := 1)\<rparr>)" by simp
  have "pid_flags machine6 1 \<noteq> 0 \<and> int 1 \<noteq> current_pid machine6 \<and> drop_bit 22 (0xC48000 :: u32) = frame_of (int 1)"
    by (simp add: machine6_def frame_of_def)
  then have "\<exists>q < 6. pid_flags machine6 q \<noteq> 0 \<and> int q \<noteq> current_pid machine6 \<and> drop_bit 22 (0xC48000 :: u32) = frame_of (int q)"
    by (intro exI [of _ 1]) simp
  then show ?thesis using steps_isolate_processes [OF machine6_kernel_ok _ st, of "0xC48000"] m st by simp
qed

text \<open>
  C9. Boot. From the static state of the kernel, with a boot module that is a file system with a program \<open>shell\<close> and a keyboard
  that acknowledges, the initialisation of \<^verbatim>\<open>entry\<close> ends. Then four ticks of the timer, which alone always have a result, lead to the
  running system: exactly the three shells run, the invariant of the kernel holds and the first terminal is displayed. Before the first tick the clock may tick,
  and after each of the first three the shells may store, change their stack registers, write text without carriage returns and begin to wait, in any order. Keys between the
  first four ticks are left out: then \<^verbatim>\<open>terminal_num\<close> can be 1 or 2 while the first terminal is displayed, and Alt with a
  function key saves the wrong screen.
\<close>

theorem boot_reaches_running_kernel:
  assumes "at_init d mbi a s" "0xFA \<in> set (kbd_port env)" "\<forall>i. frame_ok (frames i)"
  shows "\<exists>s0. init_kernel env mbi s = Some s0 \<and>
    (\<exists>s4. run step [Timer frames, Timer frames, Timer frames, Timer frames] s0 = Some s4) \<and>
    (\<forall>es0 es1 es2 es3 s4.
       list_all (boot_event 0) es0 \<and> list_all (boot_event 1) es1 \<and> list_all (boot_event 2) es2 \<and> list_all (boot_event 3) es3 \<and>
       admissible event_ok step (es0 @ Timer frames # es1 @ Timer frames # es2 @ Timer frames # es3 @ [Timer frames]) s0 \<and>
       run step (es0 @ Timer frames # es1 @ Timer frames # es2 @ Timer frames # es3 @ [Timer frames]) s0 = Some s4 \<longrightarrow>
       kernel_ok d (\<lambda>t. [int t]) s4 \<and> terminal_num s4 = 0)"
proof -
  obtain s0 where s0: "init_kernel env mbi s = Some s0" "booting d 0 s0" using init_kernel_boots [OF assms(2,1)] by blast
  show ?thesis using s0(1) boot_ticks_defined [OF s0(2) assms(3)] boot_phases [OF s0(2) assms(3)] by blast
qed

theorem boot_reaches_running_kernel_witness:
  "\<exists>s0 s4. init_kernel boot0 0x9000 machine7 = Some s0 \<and>
     run step [Timer (\<lambda>_. frame0), Timer (\<lambda>_. frame0), Timer (\<lambda>_. frame0), Timer (\<lambda>_. frame0)] s0 = Some s4 \<and>
     kernel_ok (entry_of ''shell'' 2) (\<lambda>t. [int t]) s4"
proof -
  let ?f = "\<lambda>_ :: nat. frame0"
  have ack: "0xFA \<in> set (kbd_port boot0)" and f: "\<forall>i. frame_ok (?f i)" using frame0_ok by (simp_all add: boot0_def)
  obtain s0 s4 where s: "init_kernel boot0 0x9000 machine7 = Some s0" "run step [Timer ?f, Timer ?f, Timer ?f, Timer ?f] s0 = Some s4"
      and all: "\<forall>es0 es1 es2 es3 s4. list_all (boot_event 0) es0 \<and> list_all (boot_event 1) es1 \<and> list_all (boot_event 2) es2 \<and>
        list_all (boot_event 3) es3 \<and> admissible event_ok step (es0 @ Timer ?f # es1 @ Timer ?f # es2 @ Timer ?f # es3 @ [Timer ?f]) s0 \<and>
        run step (es0 @ Timer ?f # es1 @ Timer ?f # es2 @ Timer ?f # es3 @ [Timer ?f]) s0 = Some s4 \<longrightarrow>
        kernel_ok (entry_of ''shell'' 2) (\<lambda>t. [int t]) s4 \<and> terminal_num s4 = 0"
    using boot_reaches_running_kernel [OF machine7_at_init ack f] by blast
  have "admissible event_ok step [Timer ?f, Timer ?f, Timer ?f, Timer ?f] s0" by (simp del: step.simps split: option.split)
  then have "kernel_ok (entry_of ''shell'' 2) (\<lambda>t. [int t]) s4"
    using all [rule_format, of "[]" "[]" "[]" "[]" s4] s(2) by (simp del: step.simps run.simps admissible.simps)
  then show ?thesis using s by blast
qed

text \<open>
  C11. Kernel stacks. In every state that admissible events with a result lead to (as in C1), the stack on which the processor enters the
  kernel, \<^verbatim>\<open>tss.esp0\<close>, starts at the last byte of the 8 KB block of the process that runs, the block whose first bytes are its
  PCB (the address \<^verbatim>\<open>setup_PCB\<close> computes); the block lies in the kernel's page and does not meet the block of any other live process. So \<^verbatim>\<open>execute\<close>,
  \<^verbatim>\<open>halt\<close> and \<^verbatim>\<open>task_switch\<close> always load the right stack.
\<close>

theorem kernel_stack_is_own_block:
  assumes "kernel_ok d st s" "admissible event_ok step es s" "run step es s = Some s'"
  shows "unat (tss_esp0 s') = unat (pcb_addr (current_pid s')) + 0x1FFF \<and> 0x400000 \<le> unat (pcb_addr (current_pid s')) \<and>
    unat (tss_esp0 s') < 0x800000 \<and>
    (\<forall>q < 6. pid_flags s' q \<noteq> 0 \<and> int q \<noteq> current_pid s' \<longrightarrow>
      unat (tss_esp0 s') < unat (pcb_addr (int q)) \<or> unat (pcb_addr (int q)) + 0x1FFF < unat (pcb_addr (current_pid s')))"
proof -
  obtain st' where k: "kernel_ok d st' s'" using run_tasks [OF assms] by blast
  note t = kernel_okD(3) [OF k]
  note cur = tasks_current(2,3) [OF t] and top = tasksD(9) [OF t]
  have "unat (kstack (current_pid s')) < unat (pcb_addr (int q)) \<or> unat (pcb_addr (int q)) + 0x1FFF < unat (pcb_addr (current_pid s'))"
    if "q < 6" "int q \<noteq> current_pid s'" for q
    using kstack_disjoint [OF cur, of "int q"] kstack_block(1) [of "int q"] that by simp
  then show ?thesis using kstack_block [OF cur] by (simp add: top)
qed

theorem kernel_stack_is_own_block_witness:
  "\<exists>s'. run step [Timer (\<lambda>_. frame0)] machine6 = Some s' \<and> unat (tss_esp0 s') = unat (pcb_addr (current_pid s')) + 0x1FFF"
proof -
  obtain s' where s': "run step [Timer (\<lambda>_. frame0)] machine6 = Some s'" "admissible event_ok step [Timer (\<lambda>_. frame0)] machine6"
    using machine6_timer by blast
  then show ?thesis using kernel_stack_is_own_block [OF machine6_kernel_ok s'(2,1)] by blast
qed
end
